(* ===== verification/Prelude.thy ===== *)
theory Prelude
  imports Complex_Main "HOL-Library.Word"
begin

text \<open>
  Shared vocabulary of the development.

  \<^item> \<open>jsstring\<close>: a JavaScript string, the list of its UTF-16 code units (\<open>16 word\<close>); its
    \<open>length\<close> is JavaScript's \<open>.length\<close>.  \<open>js ''abc''\<close> is the string with an ASCII spelling.
  \<^item> \<open>bytes\<close>: the contents of a Node \<open>Buffer\<close>.
  \<^item> \<open>('w, 'e, 'a) io\<close>: an effectful (\<open>async\<close>) operation.  It takes the world, returns a
    value (\<open>Inr\<close>) or throws (\<open>Inl\<close>), and returns the changed world.  \<open>bind_io\<close> is
    \<open>await\<close> followed by the rest, \<open>catch_io\<close> is \<open>try/catch\<close>.
  \<^item> \<open>keeps I m\<close>: the operation \<open>m\<close> keeps the world predicate \<open>I\<close>, whether it returns or
    throws.  The collection \<open>keeps_intros\<close> has one rule per combinator, so that a proof
    about a composed operation is a walk along its structure.
\<close>

section \<open>Strings and bytes\<close>

type_synonym code_unit = "16 word"
type_synonym jsstring = "code_unit list"
type_synonym bytes = "8 word list"

definition js :: "string \<Rightarrow> jsstring" where
  "js s = map of_char s"

lemma js_simps:
  "js [] = []"
  "js (c # cs) = of_char c # js cs"
  by (simp_all add: js_def)

lemma length_js [simp]: "length (js s) = length s"
  by (simp add: js_def)

lemma js_append: "js (a @ b) = js a @ js b"
  by (simp add: js_def)

section \<open>Effectful operations\<close>

type_synonym ('w, 'e, 'a) io = "'w \<Rightarrow> ('e + 'a) \<times> 'w"

named_theorems keeps_intros \<open>rules that show an operation keeps a world predicate\<close>

definition return_io :: "'a \<Rightarrow> ('w, 'e, 'a) io" where
  "return_io x = (\<lambda>w. (Inr x, w))"

definition throw_io :: "'e \<Rightarrow> ('w, 'e, 'a) io" where
  "throw_io e = (\<lambda>w. (Inl e, w))"

definition bind_io :: "('w, 'e, 'a) io \<Rightarrow> ('a \<Rightarrow> ('w, 'e, 'b) io) \<Rightarrow> ('w, 'e, 'b) io" where
  "bind_io m k = (\<lambda>w. case m w of (Inl e, w') \<Rightarrow> (Inl e, w') | (Inr x, w') \<Rightarrow> k x w')"

definition then_io :: "('w, 'e, 'a) io \<Rightarrow> ('w, 'e, 'b) io \<Rightarrow> ('w, 'e, 'b) io" where
  "then_io m k = bind_io m (\<lambda>_. k)"

definition catch_io :: "('w, 'e, 'a) io \<Rightarrow> ('e \<Rightarrow> ('w, 'e, 'a) io) \<Rightarrow> ('w, 'e, 'a) io" where
  "catch_io m h = (\<lambda>w. case m w of (Inl e, w') \<Rightarrow> h e w' | (Inr x, w') \<Rightarrow> (Inr x, w'))"

definition read_io :: "('w \<Rightarrow> 'a) \<Rightarrow> ('w, 'e, 'a) io" where
  "read_io f = (\<lambda>w. (Inr (f w), w))"

definition update_io :: "('w \<Rightarrow> 'w) \<Rightarrow> ('w, 'e, unit) io" where
  "update_io f = (\<lambda>w. (Inr (), f w))"

definition lift_io :: "'e + 'a \<Rightarrow> ('w, 'e, 'a) io" where
  "lift_io r = (\<lambda>w. (r, w))"

lemma io_apply [simp]:
  "return_io x w = (Inr x, w)"
  "throw_io e w = (Inl e, w)"
  "read_io f w = (Inr (f w), w)"
  "update_io g w = (Inr (), g w)"
  "lift_io r w = (r, w)"
  by (simp_all add: return_io_def throw_io_def read_io_def update_io_def lift_io_def)

lemma bind_io_apply:
  "bind_io m k w = (case m w of (Inl e, w') \<Rightarrow> (Inl e, w') | (Inr x, w') \<Rightarrow> k x w')"
  by (simp add: bind_io_def)

lemma bind_io_Inr [simp]: "m w = (Inr x, w') \<Longrightarrow> bind_io m k w = k x w'"
  by (simp add: bind_io_def)

lemma bind_io_Inl [simp]: "m w = (Inl e, w') \<Longrightarrow> bind_io m k w = (Inl e, w')"
  by (simp add: bind_io_def)

lemma then_io_apply:
  "then_io m k w = (case m w of (Inl e, w') \<Rightarrow> (Inl e, w') | (Inr x, w') \<Rightarrow> k w')"
  by (simp add: then_io_def bind_io_def)

lemma then_io_Inr [simp]: "m w = (Inr x, w') \<Longrightarrow> then_io m k w = k w'"
  by (simp add: then_io_def)

lemma then_io_Inl [simp]: "m w = (Inl e, w') \<Longrightarrow> then_io m k w = (Inl e, w')"
  by (simp add: then_io_def)

lemma catch_io_Inr [simp]: "m w = (Inr x, w') \<Longrightarrow> catch_io m h w = (Inr x, w')"
  by (simp add: catch_io_def)

lemma catch_io_Inl [simp]: "m w = (Inl e, w') \<Longrightarrow> catch_io m h w = h e w'"
  by (simp add: catch_io_def)

lemma catch_io_apply:
  "catch_io m h w = (case m w of (Inl e, w') \<Rightarrow> h e w' | (Inr x, w') \<Rightarrow> (Inr x, w'))"
  by (simp add: catch_io_def)

lemma bind_io_InrE:
  assumes "bind_io m k w = (Inr x, w')"
  obtains y w1 where "m w = (Inr y, w1)" "k y w1 = (Inr x, w')"
  using assms by (auto simp: bind_io_def split: prod.splits sum.splits)

lemma then_io_InrE:
  assumes "then_io m k w = (Inr x, w')"
  obtains y w1 where "m w = (Inr y, w1)" "k w1 = (Inr x, w')"
  using assms unfolding then_io_def by (rule bind_io_InrE)

lemma io_result_cases:
  obtains (throws) e w' where "m w = (Inl e, w')"
  | (returns) x w' where "m w = (Inr x, w')"
  by (metis surj_pair sum.exhaust)

subsection \<open>World predicates an operation keeps\<close>

definition keeps :: "('w \<Rightarrow> bool) \<Rightarrow> ('w, 'e, 'a) io \<Rightarrow> bool" where
  "keeps I m \<longleftrightarrow> (\<forall>w. I w \<longrightarrow> I (snd (m w)))"

lemma keepsI: "(\<And>w. I w \<Longrightarrow> I (snd (m w))) \<Longrightarrow> keeps I m"
  by (simp add: keeps_def)

lemma keepsD: "keeps I m \<Longrightarrow> I w \<Longrightarrow> I (snd (m w))"
  by (simp add: keeps_def)

lemma keepsD': "keeps I m \<Longrightarrow> I w \<Longrightarrow> m w = (r, w') \<Longrightarrow> I w'"
  by (metis keepsD snd_conv)

lemma keeps_return [keeps_intros]: "keeps I (return_io x)"
  and keeps_throw [keeps_intros]: "keeps I (throw_io e)"
  and keeps_read [keeps_intros]: "keeps I (read_io f)"
  and keeps_lift [keeps_intros]: "keeps I (lift_io r)"
  by (simp_all add: keeps_def)

lemma keeps_update [keeps_intros]: "(\<And>w. I w \<Longrightarrow> I (f w)) \<Longrightarrow> keeps I (update_io f)"
  by (simp add: keeps_def)

lemma keeps_bind [keeps_intros]:
  "keeps I m \<Longrightarrow> (\<And>x. keeps I (k x)) \<Longrightarrow> keeps I (bind_io m k)"
  unfolding keeps_def bind_io_def by (fastforce split: prod.splits sum.splits)

lemma keeps_then [keeps_intros]: "keeps I m \<Longrightarrow> keeps I k \<Longrightarrow> keeps I (then_io m k)"
  unfolding then_io_def by (rule keeps_bind)

lemma keeps_catch [keeps_intros]:
  "keeps I m \<Longrightarrow> (\<And>e. keeps I (h e)) \<Longrightarrow> keeps I (catch_io m h)"
  unfolding keeps_def catch_io_def by (fastforce split: prod.splits sum.splits)

lemma keeps_if [keeps_intros]:
  "(b \<Longrightarrow> keeps I m) \<Longrightarrow> (\<not> b \<Longrightarrow> keeps I n) \<Longrightarrow> keeps I (if b then m else n)"
  by simp

lemma keeps_case_option [keeps_intros]:
  "(x = None \<Longrightarrow> keeps I m) \<Longrightarrow> (\<And>y. x = Some y \<Longrightarrow> keeps I (n y)) \<Longrightarrow>
   keeps I (case x of None \<Rightarrow> m | Some y \<Rightarrow> n y)"
  by (cases x) auto

lemma keeps_case_sum [keeps_intros]:
  "(\<And>e. x = Inl e \<Longrightarrow> keeps I (m e)) \<Longrightarrow> (\<And>y. x = Inr y \<Longrightarrow> keeps I (n y)) \<Longrightarrow>
   keeps I (case x of Inl e \<Rightarrow> m e | Inr y \<Rightarrow> n y)"
  by (cases x) auto

lemma keeps_case_prod [keeps_intros]:
  "(\<And>a b. x = (a, b) \<Longrightarrow> keeps I (m a b)) \<Longrightarrow> keeps I (case x of (a, b) \<Rightarrow> m a b)"
  by (cases x) auto

lemma keeps_conj: "keeps I m \<Longrightarrow> keeps J m \<Longrightarrow> keeps (\<lambda>w. I w \<and> J w) m"
  by (simp add: keeps_def)

subsection \<open>Results and exceptions of an operation\<close>

text \<open>From \<open>P\<close>, the operation either returns an \<open>x\<close> with \<open>Q x\<close> or throws an \<open>e\<close> with \<open>E e\<close>.\<close>

definition triple ::
  "('w \<Rightarrow> bool) \<Rightarrow> ('w, 'e, 'a) io \<Rightarrow> ('a \<Rightarrow> 'w \<Rightarrow> bool) \<Rightarrow> ('e \<Rightarrow> 'w \<Rightarrow> bool) \<Rightarrow> bool" where
  "triple P m Q E \<longleftrightarrow>
     (\<forall>w. P w \<longrightarrow> (case m w of (Inl e, w') \<Rightarrow> E e w' | (Inr x, w') \<Rightarrow> Q x w'))"

lemma tripleI:
  assumes "\<And>w x w'. P w \<Longrightarrow> m w = (Inr x, w') \<Longrightarrow> Q x w'"
    and "\<And>w e w'. P w \<Longrightarrow> m w = (Inl e, w') \<Longrightarrow> E e w'"
  shows "triple P m Q E"
  unfolding triple_def using assms by (fastforce split: prod.split sum.split)

lemma triple_InrD: "triple P m Q E \<Longrightarrow> P w \<Longrightarrow> m w = (Inr x, w') \<Longrightarrow> Q x w'"
  by (force simp: triple_def)

lemma triple_InlD: "triple P m Q E \<Longrightarrow> P w \<Longrightarrow> m w = (Inl e, w') \<Longrightarrow> E e w'"
  by (force simp: triple_def)

lemma triple_weaken:
  assumes "triple P m Q E" "\<And>w. P' w \<Longrightarrow> P w" "\<And>x w. Q x w \<Longrightarrow> Q' x w" "\<And>e w. E e w \<Longrightarrow> E' e w"
  shows "triple P' m Q' E'"
  using assms by (intro tripleI) (blast dest: triple_InrD triple_InlD)+

lemma triple_return: "(\<And>w. P w \<Longrightarrow> Q x w) \<Longrightarrow> triple P (return_io x) Q E"
  by (simp add: triple_def)

lemma triple_throw: "(\<And>w. P w \<Longrightarrow> E e w) \<Longrightarrow> triple P (throw_io e) Q E"
  by (simp add: triple_def)

lemma triple_read: "(\<And>w. P w \<Longrightarrow> Q (f w) w) \<Longrightarrow> triple P (read_io f) Q E"
  by (simp add: triple_def)

lemma triple_update: "(\<And>w. P w \<Longrightarrow> Q () (g w)) \<Longrightarrow> triple P (update_io g) Q E"
  by (simp add: triple_def)

lemma triple_lift:
  "(\<And>x w. r = Inr x \<Longrightarrow> P w \<Longrightarrow> Q x w) \<Longrightarrow> (\<And>e w. r = Inl e \<Longrightarrow> P w \<Longrightarrow> E e w) \<Longrightarrow>
   triple P (lift_io r) Q E"
  by (cases r) (simp_all add: triple_def)

lemma triple_case_option:
  "(x = None \<Longrightarrow> triple P m Q E) \<Longrightarrow> (\<And>y. x = Some y \<Longrightarrow> triple P (n y) Q E) \<Longrightarrow>
   triple P (case x of None \<Rightarrow> m | Some y \<Rightarrow> n y) Q E"
  by (cases x) auto

text \<open>A postcondition about the result alone comes on top of what the operation keeps.\<close>

lemma triple_result:
  assumes "keeps I m" "\<And>w x w'. I w \<Longrightarrow> m w = (Inr x, w') \<Longrightarrow> Q x"
  shows "triple I m (\<lambda>x w. Q x \<and> I w) (\<lambda>_. I)"
  using assms by (intro tripleI) (blast dest: keepsD')+

lemma triple_bind:
  "triple P m R E \<Longrightarrow> (\<And>x. triple (R x) (k x) Q E) \<Longrightarrow> triple P (bind_io m k) Q E"
  unfolding triple_def bind_io_def by (fastforce split: prod.splits sum.splits)

lemma triple_then:
  "triple P m (\<lambda>_. R) E \<Longrightarrow> triple R k Q E \<Longrightarrow> triple P (then_io m k) Q E"
  unfolding then_io_def by (rule triple_bind)

lemma triple_catch:
  "triple P m Q F \<Longrightarrow> (\<And>e. triple (F e) (h e) Q E) \<Longrightarrow> triple P (catch_io m h) Q E"
  unfolding triple_def catch_io_def by (fastforce split: prod.splits sum.splits)

lemma triple_if:
  "(b \<Longrightarrow> triple P m Q E) \<Longrightarrow> (\<not> b \<Longrightarrow> triple P n Q E) \<Longrightarrow> triple P (if b then m else n) Q E"
  by simp

lemma triple_keeps: "triple I m (\<lambda>_. I) (\<lambda>_. I) \<longleftrightarrow> keeps I m"
proof
  assume t: "triple I m (\<lambda>_. I) (\<lambda>_. I)"
  show "keeps I m"
  proof (rule keepsI)
    fix w assume "I w"
    with t show "I (snd (m w))"
      by (cases "m w"; cases "fst (m w)") (auto dest: triple_InrD triple_InlD)
  qed
qed (auto intro!: tripleI dest: keepsD')

section \<open>Lists\<close>

lemma find_Some_set: "find P xs = Some x \<Longrightarrow> x \<in> set xs \<and> P x"
  by (induction xs) (auto split: if_splits)

lemma find_None_all: "find P xs = None \<longleftrightarrow> (\<forall>x\<in>set xs. \<not> P x)"
  by (induction xs) auto

lemma find_cong_map:
  "(\<And>x. x \<in> set xs \<Longrightarrow> P (f x) = P x) \<Longrightarrow> find P (map f xs) = map_option f (find P xs)"
  by (induction xs) auto

end
