(* ===== verification/Js_Number.thy ===== *)
theory Js_Number
  imports Prelude
begin

text \<open>
  JavaScript numbers.  A finite IEEE 754 double is a rational number, so a number is
  \<open>Fin x\<close> with its exact value, an infinity, or \<open>NaN\<close> (the sign of zero is not kept: nothing
  in the modelled code observes it).  \<open>fl\<close> rounds an exact rational to the nearest double,
  ties to even, subnormals and overflow included; every arithmetic operation is the exact
  operation followed by \<open>fl\<close>, as IEEE 754 requires.  \<open>Math.round\<close>, \<open>Math.min\<close>,
  \<open>Math.max\<close>, \<open>Number.prototype.toFixed\<close> and \<open>Number::toString\<close> follow ECMA-262.

  The lemmas: \<open>fl\<close> is monotone, exact on integers up to \<open>2 ^ 53\<close>, and keeps every
  integer bound; decimal printing of naturals is injective.
\<close>

datatype jsnum = NaN | NegInf | PosInf | Fin rat

section \<open>Rounding to double\<close>

definition round_half_even :: "rat \<Rightarrow> int" where
  "round_half_even x =
     (let f = \<lfloor>x\<rfloor>; d = x - of_int f
      in if d < 1/2 then f else if 1/2 < d then f + 1 else if even f then f else f + 1)"

function bit_length :: "int \<Rightarrow> int" where
  "bit_length n = (if n \<le> 0 then 0 else 1 + bit_length (n div 2))"
  by pat_completeness auto
termination
  by (relation "measure nat") auto

declare bit_length.simps [simp del]

text \<open>The exponent \<open>e\<close> with \<open>2 powi e \<le> x < 2 powi (e + 1)\<close>, for a positive \<open>x\<close>.\<close>

definition binary_exponent :: "rat \<Rightarrow> int" where
  "binary_exponent x =
     (case quotient_of x of (n, d) \<Rightarrow>
        let k = bit_length n - bit_length d
        in if 2 powi k \<le> x then k else k - 1)"

text \<open>The spacing of the doubles around \<open>x\<close>: 53 significant bits, not below \<open>2 powi -1074\<close>.\<close>

definition ulp_exponent :: "rat \<Rightarrow> int" where
  "ulp_exponent x = max (binary_exponent x - 52) (- 1074)"

definition round_pos :: "rat \<Rightarrow> rat" where
  "round_pos x = of_int (round_half_even (x / 2 powi ulp_exponent x)) * 2 powi ulp_exponent x"

definition double_limit :: rat where
  "double_limit = of_int (2 ^ 1024)"

definition fl :: "rat \<Rightarrow> jsnum" where
  "fl x =
     (if x = 0 then Fin 0
      else if 0 < x
      then (if double_limit \<le> round_pos x then PosInf else Fin (round_pos x))
      else (if double_limit \<le> round_pos (- x) then NegInf else Fin (- round_pos (- x))))"

section \<open>Arithmetic and Math\<close>

fun js_neg :: "jsnum \<Rightarrow> jsnum" where
  "js_neg NaN = NaN"
| "js_neg NegInf = PosInf"
| "js_neg PosInf = NegInf"
| "js_neg (Fin x) = Fin (- x)"

fun js_add :: "jsnum \<Rightarrow> jsnum \<Rightarrow> jsnum" where
  "js_add NaN _ = NaN"
| "js_add _ NaN = NaN"
| "js_add (Fin x) (Fin y) = fl (x + y)"
| "js_add (Fin _) i = i"
| "js_add i (Fin _) = i"
| "js_add PosInf NegInf = NaN"
| "js_add NegInf PosInf = NaN"
| "js_add i _ = i"

definition js_sub :: "jsnum \<Rightarrow> jsnum \<Rightarrow> jsnum" where
  "js_sub x y = js_add x (js_neg y)"

definition js_inf :: "bool \<Rightarrow> jsnum" where
  "js_inf positive = (if positive then PosInf else NegInf)"

fun js_mul :: "jsnum \<Rightarrow> jsnum \<Rightarrow> jsnum" where
  "js_mul NaN _ = NaN"
| "js_mul _ NaN = NaN"
| "js_mul (Fin x) (Fin y) = fl (x * y)"
| "js_mul (Fin x) i = (if x = 0 then NaN else js_inf ((0 < x) = (i = PosInf)))"
| "js_mul i (Fin x) = (if x = 0 then NaN else js_inf ((0 < x) = (i = PosInf)))"
| "js_mul i j = js_inf (i = j)"

fun js_div :: "jsnum \<Rightarrow> jsnum \<Rightarrow> jsnum" where
  "js_div NaN _ = NaN"
| "js_div _ NaN = NaN"
| "js_div (Fin x) (Fin y) =
     (if y = 0 then (if x = 0 then NaN else js_inf (0 < x)) else fl (x / y))"
| "js_div (Fin _) _ = Fin 0"
| "js_div i (Fin y) = js_inf ((0 \<le> y) = (i = PosInf))"
| "js_div _ _ = NaN"

text \<open>\<open>x < y\<close>: false as soon as an operand is \<open>NaN\<close>.\<close>

fun js_less :: "jsnum \<Rightarrow> jsnum \<Rightarrow> bool" where
  "js_less NaN _ = False"
| "js_less _ NaN = False"
| "js_less (Fin x) (Fin y) = (x < y)"
| "js_less NegInf y = (y \<noteq> NegInf)"
| "js_less x PosInf = (x \<noteq> PosInf)"
| "js_less _ _ = False"

definition js_min :: "jsnum \<Rightarrow> jsnum \<Rightarrow> jsnum" where
  "js_min x y = (if x = NaN \<or> y = NaN then NaN else if js_less x y then x else y)"

definition js_max :: "jsnum \<Rightarrow> jsnum \<Rightarrow> jsnum" where
  "js_max x y = (if x = NaN \<or> y = NaN then NaN else if js_less x y then y else x)"

fun js_round :: "jsnum \<Rightarrow> jsnum" where
  "js_round (Fin x) = Fin (of_int \<lfloor>x + 1/2\<rfloor>)"
| "js_round x = x"

fun is_finite_num :: "jsnum \<Rightarrow> bool" where
  "is_finite_num (Fin _) = True"
| "is_finite_num _ = False"

section \<open>Decimal printing\<close>

definition digit :: "int \<Rightarrow> code_unit" where
  "digit d = of_int (48 + d)"

text \<open>The decimal digits of a natural number.\<close>

function decimal :: "int \<Rightarrow> jsstring" where
  "decimal n = (if n < 10 then [digit n] else decimal (n div 10) @ [digit (n mod 10)])"
  by pat_completeness auto
termination
  by (relation "measure nat") auto

declare decimal.simps [simp del]

definition decimal_int :: "int \<Rightarrow> jsstring" where
  "decimal_int i = (if i < 0 then js ''-'' @ decimal (- i) else decimal i)"

definition pad_zeros :: "nat \<Rightarrow> jsstring \<Rightarrow> jsstring" where
  "pad_zeros k s = replicate (k - length s) (digit 0) @ s"

text \<open>
  \<open>Number::toString\<close>: the shortest decimal \<open>s * 10 powi (n - k)\<close> with \<open>k\<close> digits that rounds
  back to \<open>x\<close>, the closest one where there are two.
\<close>

definition decimal_exponent :: "rat \<Rightarrow> int" where
  "decimal_exponent x =
     (case quotient_of x of (p, q) \<Rightarrow>
        let k = int (length (decimal p)) - int (length (decimal q))
        in if 10 powi k \<le> x then k + 1 else k)"

definition shortest_candidates :: "rat \<Rightarrow> nat \<Rightarrow> (int \<times> int) list" where
  "shortest_candidates x k =
     (let n = decimal_exponent x; u = 10 powi (n - int k); f = \<lfloor>x / u\<rfloor>; c = \<lceil>x / u\<rceil>
      in List.filter (\<lambda>(s, n). fl (of_int s * u) = Fin x)
           (if x - of_int f * u \<le> of_int c * u - x then [(f, n), (c, n)] else [(c, n), (f, n)]))"

fun shortest_digits :: "rat \<Rightarrow> nat list \<Rightarrow> int \<times> int \<times> nat" where
  "shortest_digits x [] = (\<lfloor>x\<rfloor>, decimal_exponent x, length (decimal \<lfloor>x\<rfloor>))"
| "shortest_digits x (k # ks) =
     (case shortest_candidates x k of
        [] \<Rightarrow> shortest_digits x ks
      | (s, n) # _ \<Rightarrow> if s = 10 ^ k then (1, n + 1, 1) else (s, n, k))"

definition format_digits :: "int \<Rightarrow> int \<Rightarrow> nat \<Rightarrow> jsstring" where
  "format_digits s n k =
     (let ds = decimal s in
      if int k \<le> n \<and> n \<le> 21 then ds @ replicate (nat n - k) (digit 0)
      else if 0 < n \<and> n \<le> 21 then take (nat n) ds @ js ''.'' @ drop (nat n) ds
      else if - 6 < n \<and> n \<le> 0 then js ''0.'' @ replicate (nat (- n)) (digit 0) @ ds
      else take 1 ds @ (if k = 1 then [] else js ''.'' @ drop 1 ds) @ js ''e'' @
           (if n - 1 < 0 then js ''-'' else js ''+'') @ decimal \<bar>n - 1\<bar>)"

fun number_to_string :: "jsnum \<Rightarrow> jsstring" where
  "number_to_string NaN = js ''NaN''"
| "number_to_string PosInf = js ''Infinity''"
| "number_to_string NegInf = js ''-Infinity''"
| "number_to_string (Fin x) =
     (if x = 0 then js ''0''
      else (if x < 0 then js ''-'' else []) @
        (case shortest_digits \<bar>x\<bar> [1..<18] of (s, n, k) \<Rightarrow> format_digits s n k))"

text \<open>\<open>x.toFixed(2)\<close>.\<close>

definition fixed2_pos :: "rat \<Rightarrow> jsstring" where
  "fixed2_pos x =
     (let m = pad_zeros 3 (decimal \<lfloor>x * 100 + 1/2\<rfloor>); k = length m - 2
      in take k m @ js ''.'' @ drop k m)"

fun to_fixed_2 :: "jsnum \<Rightarrow> jsstring" where
  "to_fixed_2 (Fin x) =
     (if 10 ^ 21 \<le> \<bar>x\<bar> then number_to_string (Fin x)
      else if x < 0 then js ''-'' @ fixed2_pos (- x) else fixed2_pos x)"
| "to_fixed_2 x = number_to_string x"

section \<open>Rounding is monotone and exact on the grid\<close>

lemma round_half_even_bounds: "\<lfloor>x\<rfloor> \<le> round_half_even x \<and> round_half_even x \<le> \<lfloor>x\<rfloor> + 1"
  by (auto simp: round_half_even_def Let_def)

lemma round_half_even_of_int [simp]: "round_half_even (of_int n) = n"
  by (simp add: round_half_even_def)

lemma round_half_even_mono: "x \<le> y \<Longrightarrow> round_half_even x \<le> round_half_even y"
proof -
  assume le: "x \<le> y"
  show ?thesis
  proof (cases "\<lfloor>x\<rfloor> = \<lfloor>y\<rfloor>")
    case True
    with le show ?thesis by (auto simp: round_half_even_def Let_def)
  next
    case False
    with floor_mono [OF le] have "\<lfloor>x\<rfloor> + 1 \<le> \<lfloor>y\<rfloor>" by simp
    with round_half_even_bounds [of x] round_half_even_bounds [of y] show ?thesis by linarith
  qed
qed

lemma bit_length_bounds:
  "0 < n \<Longrightarrow> 2 powi (bit_length n - 1) \<le> (of_int n :: rat) \<and> (of_int n :: rat) < 2 powi bit_length n"
proof (induction n rule: bit_length.induct)
  case (1 n)
  show ?case
  proof (cases "n = 1")
    case True
    then show ?thesis by (simp add: bit_length.simps [of 1] bit_length.simps [of 0])
  next
    case False
    with 1 have IH: "2 powi (bit_length (n div 2) - 1) \<le> (of_int (n div 2) :: rat)"
      "(of_int (n div 2) :: rat) < 2 powi bit_length (n div 2)" by auto
    from 1 have bl: "bit_length n = 1 + bit_length (n div 2)"
      by (subst bit_length.simps) simp
    have "2 * (n div 2) \<le> n" "n \<le> 2 * (n div 2) + 1" by presburger+
    then have "(of_int (2 * (n div 2)) :: rat) \<le> of_int n"
      "(of_int n :: rat) \<le> of_int (2 * (n div 2) + 1)" by (simp_all only: of_int_le_iff)
    then have lo: "2 * of_int (n div 2) \<le> (of_int n :: rat)"
      and hi: "(of_int n :: rat) \<le> 2 * of_int (n div 2) + 1" by simp_all
    have pow: "2 powi (bit_length n - 1) = (2 :: rat) * 2 powi (bit_length (n div 2) - 1)"
      "2 powi bit_length n = (2 :: rat) * 2 powi bit_length (n div 2)"
      by (simp_all add: bl power_int_add power_int_diff)
    have "of_int (n div 2) + 1 \<le> (2 :: rat) powi bit_length (n div 2)"
    proof -
      have "0 \<le> bit_length (n div 2)" for n
        by (induction n rule: bit_length.induct) (subst bit_length.simps, simp)
      then have pw: "(2 :: rat) powi bit_length (n div 2) = of_int (2 ^ nat (bit_length (n div 2)))"
        by (simp add: power_int_def)
      with IH(2) pw have "n div 2 < 2 ^ nat (bit_length (n div 2))" by (simp only: of_int_less_iff)
      then have "n div 2 + 1 \<le> 2 ^ nat (bit_length (n div 2))" by simp
      then have "(of_int (n div 2 + 1) :: rat) \<le> of_int (2 ^ nat (bit_length (n div 2)))"
        by (simp only: of_int_le_iff)
      then show ?thesis using pw by simp
    qed
    then show ?thesis using IH lo hi unfolding pow by linarith
  qed
qed

lemma binary_exponent_bounds:
  assumes "0 < x"
  shows "2 powi binary_exponent x \<le> x \<and> x < 2 powi (binary_exponent x + 1)"
proof -
  obtain n d where q: "quotient_of x = (n, d)" by (cases "quotient_of x")
  have d: "0 < d" and x: "x = of_int n / of_int d"
    using q by (auto intro: quotient_of_denom_pos quotient_of_div)
  with assms have n: "0 < n" by (simp add: zero_less_divide_iff)
  let ?k = "bit_length n - bit_length d"
  have "x < 2 powi bit_length n / 2 powi (bit_length d - 1)"
    unfolding x using bit_length_bounds [OF n] bit_length_bounds [OF d] d n
    by (intro frac_less) auto
  then have hi: "x < 2 powi (?k + 1)" by (simp add: power_int_diff power_int_add)
  have "2 powi (bit_length n - 1) / 2 powi bit_length d < x"
    unfolding x using bit_length_bounds [OF n] bit_length_bounds [OF d] d n
    by (intro frac_less2) auto
  then have lo: "2 powi (?k - 1) < x" by (simp add: power_int_diff)
  show ?thesis using lo hi by (auto simp: binary_exponent_def q Let_def)
qed

lemma powi_2_mono: "i \<le> j \<Longrightarrow> (2 :: rat) powi i \<le> 2 powi j"
  by (rule power_int_increasing) auto

lemma powi_2_less_imp: "(2 :: rat) powi i < 2 powi j \<Longrightarrow> i < j"
  by (metis linorder_not_le powi_2_mono)

lemma binary_exponent_mono: "0 < x \<Longrightarrow> x \<le> y \<Longrightarrow> binary_exponent x \<le> binary_exponent y"
proof -
  assume "0 < x" "x \<le> y"
  then have "2 powi binary_exponent x < (2 :: rat) powi (binary_exponent y + 1)"
    using binary_exponent_bounds [of x] binary_exponent_bounds [of y] by linarith
  then show ?thesis using powi_2_less_imp by fastforce
qed

lemma powi_2_quotient_int:
  "i \<le> j \<Longrightarrow> (2 :: rat) powi j / 2 powi i = of_int (2 ^ nat (j - i))"
proof -
  assume "i \<le> j"
  have "(2 :: rat) powi j / 2 powi i = 2 powi (j - i)" by (simp add: power_int_diff)
  with \<open>i \<le> j\<close> show ?thesis by (simp add: power_int_def)
qed

text \<open>A value on the grid of spacing \<open>2 powi q\<close> bounds the rounding of what it bounds.\<close>

lemma round_grid_le:
  assumes "x \<le> of_int m * 2 powi q"
  shows "of_int (round_half_even (x / 2 powi q)) * 2 powi q \<le> (of_int m :: rat) * 2 powi q"
proof -
  have "x / 2 powi q \<le> of_int m" using assms by (simp add: field_simps)
  then have "round_half_even (x / 2 powi q) \<le> m" using round_half_even_mono by fastforce
  then show ?thesis by simp
qed

lemma round_grid_ge:
  assumes "of_int m * 2 powi q \<le> x"
  shows "(of_int m :: rat) * 2 powi q \<le> of_int (round_half_even (x / 2 powi q)) * 2 powi q"
proof -
  have "of_int m \<le> x / 2 powi q" using assms by (simp add: field_simps)
  then have "m \<le> round_half_even (x / 2 powi q)" using round_half_even_mono by fastforce
  then show ?thesis by simp
qed

lemma powi_2_on_grid: "q \<le> e \<Longrightarrow> (2 :: rat) powi e = of_int (2 ^ nat (e - q)) * 2 powi q"
  using powi_2_quotient_int [of q e] by (simp add: field_simps)

lemma round_pos_mono: "0 < x \<Longrightarrow> x \<le> y \<Longrightarrow> round_pos x \<le> round_pos y"
proof -
  assume x: "0 < x" and xy: "x \<le> y"
  let ?q = ulp_exponent
  show ?thesis
  proof (cases "?q x = ?q y")
    case True
    have "round_half_even (x / 2 powi ?q y) \<le> round_half_even (y / 2 powi ?q y)"
      using xy by (intro round_half_even_mono) (simp add: divide_right_mono)
    then show ?thesis by (simp add: round_pos_def True)
  next
    case False
    let ?e = "binary_exponent y"
    have be: "binary_exponent x \<le> ?e" by (rule binary_exponent_mono [OF x xy])
    with False have lt: "binary_exponent x < ?e" and qe: "?q x \<le> ?e" and qy: "?q y \<le> ?e"
      by (auto simp: ulp_exponent_def max_def split: if_splits)
    have "x \<le> 2 powi ?e"
      using binary_exponent_bounds [OF x] powi_2_mono [of "binary_exponent x + 1" ?e] lt by linarith
    then have "round_pos x \<le> 2 powi ?e"
      using round_grid_le [of x "2 ^ nat (?e - ?q x)" "?q x"] powi_2_on_grid [OF qe]
      by (simp add: round_pos_def)
    also have "2 powi ?e \<le> round_pos y"
      using round_grid_ge [of "2 ^ nat (?e - ?q y)" "?q y" y] powi_2_on_grid [OF qy]
        binary_exponent_bounds [of y] x xy by (simp add: round_pos_def)
    finally show ?thesis .
  qed
qed

lemma round_pos_of_int:
  assumes "0 < n" "n \<le> 2 ^ 53"
  shows "round_pos (of_int n) = of_int n"
proof -
  let ?x = "of_int n :: rat" and ?q = "ulp_exponent (of_int n)"
  have "?q \<le> 0 \<or> n = 2 ^ 53"
  proof (cases "n = 2 ^ 53")
    case False
    with assms have "?x < 2 powi 53" by (simp flip: of_int_less_iff)
    then have "2 powi binary_exponent ?x < (2 :: rat) powi 53"
      using binary_exponent_bounds [of ?x] assms by linarith
    then show ?thesis using powi_2_less_imp by (fastforce simp: ulp_exponent_def)
  qed simp
  then obtain m where m: "?x = of_int m * 2 powi ?q"
  proof
    assume "?q \<le> 0"
    then have "?x = of_int (n * 2 ^ nat (- ?q)) * 2 powi ?q"
      by (simp add: power_int_def field_simps)
    then show thesis by (rule that)
  next
    assume n: "n = 2 ^ 53"
    then have x: "?x = 2 powi 53" by simp
    have "2 powi binary_exponent ?x \<le> (2 :: rat) powi 53"
      using binary_exponent_bounds [of ?x] assms x by simp
    then have "\<not> 54 \<le> binary_exponent ?x"
      using powi_2_mono [of 54 "binary_exponent ?x"] by fastforce
    then have "?q \<le> 53" by (simp add: ulp_exponent_def)
    then show thesis using that powi_2_on_grid [of ?q 53] x by metis
  qed
  then have "?x / 2 powi ?q = of_int m" by (simp add: nonzero_divide_eq_eq)
  then show ?thesis unfolding round_pos_def using m by simp
qed

text \<open>The rounded value before the overflow check, with the sign.\<close>

definition round_double :: "rat \<Rightarrow> rat" where
  "round_double x = (if x = 0 then 0 else if 0 < x then round_pos x else - round_pos (- x))"

lemma round_pos_nonneg: "0 < x \<Longrightarrow> 0 \<le> round_pos x"
  using round_half_even_mono [of 0 "x / 2 powi ulp_exponent x"] round_half_even_of_int [of 0]
  by (simp add: round_pos_def)

lemma round_double_mono: "x \<le> y \<Longrightarrow> round_double x \<le> round_double y"
  using round_pos_mono [of x y] round_pos_mono [of "- y" "- x"] round_pos_nonneg [of y]
    round_pos_nonneg [of "- x"]
  by (fastforce simp: round_double_def)

lemma round_double_of_int: "\<bar>n\<bar> \<le> 2 ^ 53 \<Longrightarrow> round_double (of_int n) = of_int n"
  using round_pos_of_int [of n] round_pos_of_int [of "- n"]
  by (auto simp: round_double_def)

lemma fl_cases: "fl x = Fin (round_double x) \<or> fl x = PosInf \<or> fl x = NegInf"
  by (simp add: fl_def round_double_def)

lemma fl_Fin: "fl x = Fin y \<Longrightarrow> y = round_double x"
  using fl_cases [of x] by auto

lemma fl_mono: "fl x = Fin a \<Longrightarrow> fl y = Fin b \<Longrightarrow> x \<le> y \<Longrightarrow> a \<le> b"
  by (auto dest!: fl_Fin intro: round_double_mono)

lemma fl_bounds:
  assumes "of_int a \<le> x" "x \<le> of_int b" "\<bar>a\<bar> \<le> 2 ^ 53" "\<bar>b\<bar> \<le> 2 ^ 53"
  shows "fl x = Fin (round_double x) \<and> of_int a \<le> round_double x \<and> round_double x \<le> of_int b"
proof -
  have r: "of_int a \<le> round_double x" "round_double x \<le> of_int b"
    using round_double_mono [OF assms(1)] round_double_mono [OF assms(2)]
      round_double_of_int [OF assms(3)] round_double_of_int [OF assms(4)] by simp_all
  have ab: "(of_int \<bar>a\<bar> :: rat) \<le> of_int (2 ^ 53)" "(of_int \<bar>b\<bar> :: rat) \<le> of_int (2 ^ 53)"
    using assms(3,4) by (simp_all only: of_int_le_iff)
  have "\<bar>round_double x\<bar> \<le> of_int (2 ^ 53)" using r ab by simp
  also have "of_int (2 ^ 53) < double_limit" by (simp add: double_limit_def)
  finally have "\<bar>round_double x\<bar> < double_limit" .
  then have "fl x = Fin (round_double x)"
    by (auto simp: fl_def round_double_def abs_if split: if_splits)
  with r show ?thesis by blast
qed

lemma fl_of_int: "\<bar>n\<bar> \<le> 2 ^ 53 \<Longrightarrow> fl (of_int n) = Fin (of_int n)"
  using fl_bounds [of n "of_int n" n] by (simp add: round_double_of_int)

lemma fl_nonneg: "fl x = Fin y \<Longrightarrow> 0 \<le> x \<Longrightarrow> 0 \<le> y"
  using fl_Fin [of x y] round_double_mono [of 0 x] by (auto simp: round_double_def)

section \<open>Decimal digits can be read back\<close>

definition digit_value :: "code_unit \<Rightarrow> int" where
  "digit_value c = uint c - 48"

definition is_digit :: "code_unit \<Rightarrow> bool" where
  "is_digit c \<longleftrightarrow> 48 \<le> c \<and> c \<le> 57"

definition digits_value :: "jsstring \<Rightarrow> int" where
  "digits_value s = foldl (\<lambda>a c. 10 * a + digit_value c) 0 s"

lemma uint_digit: "0 \<le> d \<Longrightarrow> d < 10 \<Longrightarrow> uint (digit d) = 48 + d"
  by (simp add: digit_def uint_word_of_int del: of_int_add)

lemma digit_value_digit [simp]: "0 \<le> d \<Longrightarrow> d < 10 \<Longrightarrow> digit_value (digit d) = d"
  by (simp add: digit_value_def uint_digit)

lemma is_digit_digit [simp]: "0 \<le> d \<Longrightarrow> d < 10 \<Longrightarrow> is_digit (digit d)"
  by (simp add: is_digit_def word_le_def uint_digit)

lemma digits_value_snoc [simp]: "digits_value (s @ [c]) = 10 * digits_value s + digit_value c"
  by (simp add: digits_value_def)

lemma digits_value_decimal [simp]: "0 \<le> n \<Longrightarrow> digits_value (decimal n) = n"
proof (induction n rule: decimal.induct)
  case (1 n)
  show ?case
  proof (cases "n < 10")
    case True
    with 1 show ?thesis by (subst decimal.simps) (simp add: digits_value_def)
  next
    case False
    with 1 show ?thesis by (subst decimal.simps) simp
  qed
qed

lemma decimal_digits: "0 \<le> n \<Longrightarrow> c \<in> set (decimal n) \<Longrightarrow> is_digit c"
proof (induction n rule: decimal.induct)
  case (1 n)
  show ?case
  proof (cases "n < 10")
    case True
    with 1 show ?thesis by (subst (asm) (2) decimal.simps) simp
  next
    case False
    with 1 show ?thesis by (subst (asm) (2) decimal.simps) auto
  qed
qed

lemma decimal_nonempty [simp]: "decimal n \<noteq> []"
  by (subst decimal.simps) simp

lemma decimal_inject: "0 \<le> m \<Longrightarrow> 0 \<le> n \<Longrightarrow> decimal m = decimal n \<longleftrightarrow> m = n"
  by (metis digits_value_decimal)

end
