(* ===== verification/Js_String.thy ===== *)
theory Js_String
  imports Js_Number
begin

text \<open>
  The string and buffer operations of Node the code uses: \<open>trim\<close>, \<open>toUpperCase\<close> (on
  the characters whose upper case can be ASCII), \<open>split\<close>, \<open>join\<close>, the UTF-8 encoding
  of a string and the decoding with replacement of \<open>Buffer.toString("utf8")\<close>, and the
  base64url codec.  The lemmas are the round trips: \<open>split\<close> after \<open>join\<close>, base64url, and
  UTF-8 on ASCII text.
\<close>

section \<open>Trimming and case\<close>

text \<open>ECMA-262 \<open>WhiteSpace\<close> and \<open>LineTerminator\<close>.\<close>

definition is_js_space :: "code_unit \<Rightarrow> bool" where
  "is_js_space c \<longleftrightarrow>
     (9 \<le> c \<and> c \<le> 13) \<or> c = 0x20 \<or> c = 0xA0 \<or> c = 0x1680 \<or> (0x2000 \<le> c \<and> c \<le> 0x200A) \<or>
     c = 0x2028 \<or> c = 0x2029 \<or> c = 0x202F \<or> c = 0x205F \<or> c = 0x3000 \<or> c = 0xFEFF"

definition js_trim :: "jsstring \<Rightarrow> jsstring" where
  "js_trim s = rev (dropWhile is_js_space (rev (dropWhile is_js_space s)))"

text \<open>
  \<open>toUpperCase\<close> on every code unit whose full upper-case mapping has an ASCII letter in it.
  The other code units are kept: their upper case has no ASCII letter either.
\<close>

definition upper_unit :: "code_unit \<Rightarrow> jsstring" where
  "upper_unit c =
     (if 97 \<le> c \<and> c \<le> 122 then [c - 32]
      else if c = 0xDF then js ''SS''
      else if c = 0x131 then js ''I''
      else if c = 0x149 then [0x2BC, 78]
      else if c = 0x17F then js ''S''
      else if c = 0x1F0 then [74, 0x30C]
      else if c = 0x1E96 then [72, 0x331]
      else if c = 0x1E97 then [84, 0x308]
      else if c = 0x1E98 then [87, 0x30A]
      else if c = 0x1E99 then [89, 0x30A]
      else if c = 0x1E9A then [65, 0x2BE]
      else if c = 0xFB00 then js ''FF''
      else if c = 0xFB01 then js ''FI''
      else if c = 0xFB02 then js ''FL''
      else if c = 0xFB03 then js ''FFI''
      else if c = 0xFB04 then js ''FFL''
      else if c = 0xFB05 \<or> c = 0xFB06 then js ''ST''
      else [c])"

definition js_upper :: "jsstring \<Rightarrow> jsstring" where
  "js_upper s = concat (map upper_unit s)"

section \<open>split and join\<close>

fun split_on :: "code_unit \<Rightarrow> jsstring \<Rightarrow> jsstring list" where
  "split_on c [] = [[]]"
| "split_on c (x # xs) =
     (if x = c then [] # split_on c xs
      else (case split_on c xs of [] \<Rightarrow> [[x]] | y # ys \<Rightarrow> (x # y) # ys))"

fun join_with :: "code_unit \<Rightarrow> jsstring list \<Rightarrow> jsstring" where
  "join_with c [] = []"
| "join_with c [x] = x"
| "join_with c (x # xs) = x @ [c] @ join_with c xs"

lemma split_on_nonempty [simp]: "split_on c s \<noteq> []"
  by (induction s) (auto split: list.splits)

lemma split_on_no_sep: "c \<notin> set s \<Longrightarrow> split_on c s = [s]"
  by (induction s) auto

lemma split_on_append: "c \<notin> set s \<Longrightarrow> split_on c (s @ c # t) = s # split_on c t"
  by (induction s) auto

lemma split_join:
  "xs \<noteq> [] \<Longrightarrow> (\<And>x. x \<in> set xs \<Longrightarrow> c \<notin> set x) \<Longrightarrow> split_on c (join_with c xs) = xs"
  by (induction c xs rule: join_with.induct) (auto simp: split_on_no_sep split_on_append)

lemma join_with_inject:
  assumes "xs \<noteq> []" "ys \<noteq> []"
    and "\<And>x. x \<in> set xs \<Longrightarrow> c \<notin> set x" "\<And>y. y \<in> set ys \<Longrightarrow> c \<notin> set y"
    and "join_with c xs = join_with c ys"
  shows "xs = ys"
  using split_join [of xs c] split_join [of ys c] assms by metis

section \<open>UTF-8\<close>

text \<open>The code points of a string; a lone surrogate becomes U+FFFD.\<close>

fun code_points :: "jsstring \<Rightarrow> int list" where
  "code_points [] = []"
| "code_points (c # s) =
     (if 0xD800 \<le> c \<and> c \<le> 0xDBFF
      then (case s of
              d # s' \<Rightarrow>
                if 0xDC00 \<le> d \<and> d \<le> 0xDFFF
                then (0x10000 + (uint c - 0xD800) * 0x400 + (uint d - 0xDC00)) # code_points s'
                else 0xFFFD # code_points s
            | [] \<Rightarrow> [0xFFFD])
      else if 0xDC00 \<le> c \<and> c \<le> 0xDFFF then 0xFFFD # code_points s
      else uint c # code_points s)"

definition utf8_of_point :: "int \<Rightarrow> bytes" where
  "utf8_of_point n =
     (if n < 0x80 then [of_int n]
      else if n < 0x800 then [of_int (0xC0 + n div 64), of_int (0x80 + n mod 64)]
      else if n < 0x10000
      then [of_int (0xE0 + n div 4096), of_int (0x80 + n div 64 mod 64), of_int (0x80 + n mod 64)]
      else [of_int (0xF0 + n div 262144), of_int (0x80 + n div 4096 mod 64),
            of_int (0x80 + n div 64 mod 64), of_int (0x80 + n mod 64)])"

definition utf8_encode :: "jsstring \<Rightarrow> bytes" where
  "utf8_encode s = concat (map utf8_of_point (code_points s))"

text \<open>
  Decoding: the continuation bytes still expected, the range the next one must lie in, and
  the bits so far.  An ill-formed sequence yields one U+FFFD and decoding resumes at the
  byte that broke it.
\<close>

fun take_continuation :: "nat \<Rightarrow> int \<Rightarrow> int \<Rightarrow> int \<Rightarrow> bytes \<Rightarrow> int \<times> bytes" where
  "take_continuation 0 lo hi acc bs = (acc, bs)"
| "take_continuation (Suc k) lo hi acc [] = (0xFFFD, [])"
| "take_continuation (Suc k) lo hi acc (b # bs) =
     (if lo \<le> uint b \<and> uint b \<le> hi
      then take_continuation k 0x80 0xBF (acc * 64 + (uint b - 0x80)) bs
      else (0xFFFD, b # bs))"

definition decode_point :: "int \<Rightarrow> bytes \<Rightarrow> int \<times> bytes" where
  "decode_point b bs =
     (if b < 0x80 then (b, bs)
      else if 0xC2 \<le> b \<and> b \<le> 0xDF then take_continuation 1 0x80 0xBF (b - 0xC0) bs
      else if 0xE0 \<le> b \<and> b \<le> 0xEF
      then take_continuation 2 (if b = 0xE0 then 0xA0 else 0x80) (if b = 0xED then 0x9F else 0xBF)
             (b - 0xE0) bs
      else if 0xF0 \<le> b \<and> b \<le> 0xF4
      then take_continuation 3 (if b = 0xF0 then 0x90 else 0x80) (if b = 0xF4 then 0x8F else 0xBF)
             (b - 0xF0) bs
      else (0xFFFD, bs))"

lemma take_continuation_length:
  "length (snd (take_continuation k lo hi acc bs)) \<le> length bs"
  by (induction k lo hi acc bs rule: take_continuation.induct) auto

lemma decode_point_length: "length (snd (decode_point b bs)) \<le> length bs"
  by (simp add: decode_point_def take_continuation_length)

function utf8_decode_points :: "bytes \<Rightarrow> int list" where
  "utf8_decode_points [] = []"
| "utf8_decode_points (b # bs) =
     (case decode_point (uint b) bs of (p, rest) \<Rightarrow> p # utf8_decode_points rest)"
  by pat_completeness auto
termination
  by (relation "measure length")
    (auto simp: less_Suc_eq_le, metis decode_point_length snd_conv)

definition utf16_of_point :: "int \<Rightarrow> jsstring" where
  "utf16_of_point n =
     (if n < 0x10000 then [of_int n]
      else [of_int (0xD800 + (n - 0x10000) div 0x400), of_int (0xDC00 + (n - 0x10000) mod 0x400)])"

definition utf8_decode :: "bytes \<Rightarrow> jsstring" where
  "utf8_decode bs = concat (map utf16_of_point (utf8_decode_points bs))"

definition is_ascii :: "code_unit \<Rightarrow> bool" where
  "is_ascii c \<longleftrightarrow> c < 0x80"

lemma is_ascii_iff: "is_ascii c \<longleftrightarrow> uint c < 128"
  by (simp add: is_ascii_def word_less_def)

lemma ascii_not_surrogate [simp]: "is_ascii c \<Longrightarrow> \<not> 0xD800 \<le> c" "is_ascii c \<Longrightarrow> \<not> 0xDC00 \<le> c"
  by (simp_all add: is_ascii_iff word_le_def)

lemma code_points_ascii: "list_all is_ascii s \<Longrightarrow> code_points s = map uint s"
  by (induction s) auto

lemma utf8_encode_ascii: "list_all is_ascii s \<Longrightarrow> utf8_encode s = map ucast s"
  by (induction s) (auto simp: utf8_encode_def utf8_of_point_def is_ascii_iff of_int_uint)

lemma uint_ucast_small: "uint c < 128 \<Longrightarrow> uint (ucast c :: 8 word) = uint (c :: code_unit)"
  by (simp add: unsigned_ucast_eq unsigned_take_bit_eq take_bit_int_eq_self)

lemma ucast_ucast_ascii: "is_ascii c \<Longrightarrow> ucast (ucast c :: 8 word) = c"
  by (rule word_uint_eqI)
    (simp add: is_ascii_iff unsigned_ucast_eq unsigned_take_bit_eq take_bit_int_eq_self)

lemma utf8_decode_ascii:
  "list_all (\<lambda>b. b < 0x80) bs \<Longrightarrow> utf8_decode bs = map ucast bs"
proof (induction bs)
  case Nil
  then show ?case by (simp add: utf8_decode_def)
next
  case (Cons b bs)
  have "uint b < 0x80" using Cons.prems by (simp add: word_less_def)
  with Cons show ?case
    by (simp add: utf8_decode_def decode_point_def utf16_of_point_def of_int_uint)
qed

lemma utf8_round_trip_ascii: "list_all is_ascii s \<Longrightarrow> utf8_decode (utf8_encode s) = s"
proof -
  assume s: "list_all is_ascii s"
  then have "list_all (\<lambda>b. b < 0x80) (map ucast s :: bytes)"
    by (auto simp: list_all_iff is_ascii_iff word_less_def uint_ucast_small)
  then have "utf8_decode (map ucast s) = map ucast (map ucast s :: bytes)"
    by (rule utf8_decode_ascii)
  also have "\<dots> = s"
    using s by (induction s) (auto simp: ucast_ucast_ascii)
  finally show ?thesis by (simp add: utf8_encode_ascii [OF s])
qed

section \<open>base64url\<close>

definition b64_char :: "int \<Rightarrow> code_unit" where
  "b64_char n =
     (if n < 26 then of_int (65 + n) else if n < 52 then of_int (71 + n)
      else if n < 62 then of_int (n - 4) else if n = 62 then 45 else 95)"

definition b64_value :: "code_unit \<Rightarrow> int option" where
  "b64_value c =
     (if 65 \<le> c \<and> c \<le> 90 then Some (uint c - 65)
      else if 97 \<le> c \<and> c \<le> 122 then Some (uint c - 71)
      else if 48 \<le> c \<and> c \<le> 57 then Some (uint c + 4)
      else if c = 45 \<or> c = 43 then Some 62
      else if c = 95 \<or> c = 47 then Some 63
      else None)"

fun sextets :: "int list \<Rightarrow> int list" where
  "sextets [] = []"
| "sextets [a] = [a div 4, (a mod 4) * 16]"
| "sextets [a, b] = [a div 4, (a mod 4) * 16 + b div 16, (b mod 16) * 4]"
| "sextets (a # b # c # bs) =
     [a div 4, (a mod 4) * 16 + b div 16, (b mod 16) * 4 + c div 64, c mod 64] @ sextets bs"

fun octets :: "int list \<Rightarrow> int list" where
  "octets (w # x # y # z # r) =
     [w * 4 + x div 16, (x mod 16) * 16 + y div 4, (y mod 4) * 64 + z] @ octets r"
| "octets [w, x, y] = [w * 4 + x div 16, (x mod 16) * 16 + y div 4]"
| "octets [w, x] = [w * 4 + x div 16]"
| "octets _ = []"

definition base64url_encode :: "bytes \<Rightarrow> jsstring" where
  "base64url_encode bs = map b64_char (sextets (map uint bs))"

text \<open>Node skips the characters that are not in the alphabet.\<close>

definition base64url_decode :: "jsstring \<Rightarrow> bytes" where
  "base64url_decode s = map of_int (octets (List.map_filter b64_value s))"

lemma b64_value_char: "0 \<le> n \<Longrightarrow> n < 64 \<Longrightarrow> b64_value (b64_char n) = Some n"
proof -
  assume "0 \<le> n" "n < 64"
  moreover have "\<forall>n\<in>set [0..63]. b64_value (b64_char n) = Some n" by code_simp
  ultimately show ?thesis by auto
qed

lemma sextets_range:
  "\<forall>b\<in>set bs. 0 \<le> b \<and> b < 256 \<Longrightarrow> \<forall>x\<in>set (sextets bs). 0 \<le> x \<and> x < 64"
  by (induction bs rule: sextets.induct) auto

lemma octets_sextets: "\<forall>b\<in>set bs. 0 \<le> b \<and> b < 256 \<Longrightarrow> octets (sextets bs) = bs"
  by (induction bs rule: sextets.induct) auto

lemma map_filter_b64:
  "\<forall>x\<in>set xs. 0 \<le> x \<and> x < 64 \<Longrightarrow> List.map_filter b64_value (map b64_char xs) = xs"
  by (induction xs) (auto simp: List.map_filter_simps b64_value_char)

lemma base64url_round_trip: "base64url_decode (base64url_encode bs) = bs"
proof -
  have r: "\<forall>b\<in>set (map uint bs). 0 \<le> b \<and> b < (256 :: int)"
    using uint_bounded [where 'a = 8] by auto
  show ?thesis
    by (simp add: base64url_decode_def base64url_encode_def map_filter_b64 sextets_range [OF r]
        octets_sextets [OF r] comp_def of_int_uint)
qed

end
