(* ===== verification/Json.thy ===== *)
theory Json
  imports Js_String
begin

text \<open>
  JSON values, \<open>JSON.parse\<close> and \<open>JSON.stringify\<close> (ECMA-262), and
  \<open>src/shared/utils/capJsonValue.ts\<close>.

  \<open>JSON.parse\<close> is a lexer (\<open>json_tokens\<close>) and a push-down machine over the tokens
  (\<open>parse_tokens\<close>: one frame per open array or object), so both are total without fuel.
  A number is the rational it denotes, rounded once by \<open>fl\<close>; an object keeps its
  properties in the order JavaScript enumerates them (array indices first).

  The lemmas: the lexer shortens its input, every string literal \<open>JSON.stringify\<close> writes
  is read back by the lexer, \<open>capJsonValue\<close> keeps small values and bounds all others.
\<close>

datatype json =
    JNull
  | JBool bool
  | JNum jsnum
  | JStr jsstring
  | JArr "json list"
  | JObj "(jsstring \<times> json) list"

section \<open>Objects\<close>

text \<open>An array index: the decimal form of an integer below \<open>2 ^ 32 - 1\<close>.\<close>

definition index_of_key :: "jsstring \<Rightarrow> int option" where
  "index_of_key k =
     (let n = digits_value k
      in if k \<noteq> [] \<and> length k \<le> 10 \<and> list_all is_digit k \<and> decimal n = k \<and> n < 2 ^ 32 - 1
         then Some n else None)"

fun insert_index :: "int \<Rightarrow> jsstring \<Rightarrow> json \<Rightarrow> (jsstring \<times> json) list \<Rightarrow> (jsstring \<times> json) list" where
  "insert_index n k v [] = [(k, v)]"
| "insert_index n k v ((k', v') # ps) =
     (case index_of_key k' of
        Some m \<Rightarrow> if m < n then (k', v') # insert_index n k v ps else (k, v) # (k', v') # ps
      | None \<Rightarrow> (k, v) # (k', v') # ps)"

definition set_property :: "jsstring \<Rightarrow> json \<Rightarrow> (jsstring \<times> json) list \<Rightarrow> (jsstring \<times> json) list" where
  "set_property k v ps =
     (if k \<in> fst ` set ps then map (\<lambda>(k', v'). (k', if k' = k then v else v')) ps
      else (case index_of_key k of Some n \<Rightarrow> insert_index n k v ps | None \<Rightarrow> ps @ [(k, v)]))"

section \<open>JSON.parse: the lexer\<close>

datatype token =
    LBrace | RBrace | LBracket | RBracket | Colon | Comma
  | TNull | TTrue | TFalse
  | TNum jsnum
  | TStr jsstring

definition is_json_space :: "code_unit \<Rightarrow> bool" where
  "is_json_space c \<longleftrightarrow> c = 0x20 \<or> c = 9 \<or> c = 10 \<or> c = 13"

definition hex_value :: "code_unit \<Rightarrow> int option" where
  "hex_value c =
     (if is_digit c then Some (uint c - 48)
      else if 97 \<le> c \<and> c \<le> 102 then Some (uint c - 87)
      else if 65 \<le> c \<and> c \<le> 70 then Some (uint c - 55)
      else None)"

definition hex4 :: "code_unit \<Rightarrow> code_unit \<Rightarrow> code_unit \<Rightarrow> code_unit \<Rightarrow> code_unit option" where
  "hex4 a b c d =
     (case (hex_value a, hex_value b, hex_value c, hex_value d) of
        (Some w, Some x, Some y, Some z) \<Rightarrow> Some (of_int (w * 4096 + x * 256 + y * 16 + z))
      | _ \<Rightarrow> None)"

definition unescape :: "code_unit \<Rightarrow> code_unit option" where
  "unescape e =
     (if e = 34 \<or> e = 92 \<or> e = 47 then Some e
      else if e = 98 then Some 8 else if e = 102 then Some 12 else if e = 110 then Some 10
      else if e = 114 then Some 13 else if e = 116 then Some 9 else None)"

definition cons_unit :: "code_unit \<Rightarrow> (jsstring \<times> jsstring) option \<Rightarrow> (jsstring \<times> jsstring) option" where
  "cons_unit c r = (case r of None \<Rightarrow> None | Some (s, rest) \<Rightarrow> Some (c # s, rest))"

text \<open>The characters after an opening quote: the string read and what follows its closing quote.\<close>

fun lex_string :: "jsstring \<Rightarrow> (jsstring \<times> jsstring) option" where
  "lex_string [] = None"
| "lex_string (c # s) =
     (if c = 34 then Some ([], s)
      else if c = 92 then
        (case s of
           [] \<Rightarrow> None
         | e # s' \<Rightarrow>
             if e = 117 then
               (case s' of
                  h1 # h2 # h3 # h4 # s'' \<Rightarrow>
                    (case hex4 h1 h2 h3 h4 of
                       None \<Rightarrow> None
                     | Some u \<Rightarrow> cons_unit u (lex_string s''))
                | _ \<Rightarrow> None)
             else (case unescape e of
                     None \<Rightarrow> None
                   | Some u \<Rightarrow> cons_unit u (lex_string s')))
      else if c < 32 then None
      else cons_unit c (lex_string s))"

definition lex_fraction :: "jsstring \<Rightarrow> (rat \<times> jsstring) option" where
  "lex_fraction s =
     (case s of
        c # s' \<Rightarrow>
          if c = 46 then
            (let ds = takeWhile is_digit s'
             in if ds = [] then None
                else Some (of_int (digits_value ds) / 10 ^ length ds, dropWhile is_digit s'))
          else Some (0, s)
      | [] \<Rightarrow> Some (0, s))"

definition lex_exponent :: "jsstring \<Rightarrow> (int \<times> jsstring) option" where
  "lex_exponent s =
     (case s of
        c # s' \<Rightarrow>
          if c = 101 \<or> c = 69 then
            (let neg = (case s' of d # _ \<Rightarrow> d = 45 | [] \<Rightarrow> False);
                 s'' = (case s' of d # t \<Rightarrow> if d = 45 \<or> d = 43 then t else s' | [] \<Rightarrow> s');
                 ds = takeWhile is_digit s''
             in if ds = [] then None
                else Some (if neg then - digits_value ds else digits_value ds,
                           dropWhile is_digit s''))
          else Some (0, s)
      | [] \<Rightarrow> Some (0, s))"

definition lex_number :: "jsstring \<Rightarrow> (jsnum \<times> jsstring) option" where
  "lex_number s =
     (let neg = (case s of c # _ \<Rightarrow> c = 45 | [] \<Rightarrow> False);
          s1 = (if neg then tl s else s);
          ds = (case s1 of c # _ \<Rightarrow> if c = 48 then [c] else takeWhile is_digit s1 | [] \<Rightarrow> [])
      in if ds = [] then None
         else (case lex_fraction (drop (length ds) s1) of
                 None \<Rightarrow> None
               | Some (f, s2) \<Rightarrow>
                   (case lex_exponent s2 of
                      None \<Rightarrow> None
                    | Some (e, s3) \<Rightarrow>
                        let x = (of_int (digits_value ds) + f) * 10 powi e
                        in Some (fl (if neg then - x else x), s3))))"

definition lex_keyword :: "token \<Rightarrow> jsstring \<Rightarrow> jsstring \<Rightarrow> (token option \<times> jsstring) option" where
  "lex_keyword t k s =
     (if take (length k) s = k then Some (Some t, drop (length k) s) else None)"

text \<open>One token (or one blank), and the rest of the input.\<close>

definition lex_token :: "code_unit \<Rightarrow> jsstring \<Rightarrow> (token option \<times> jsstring) option" where
  "lex_token c s =
     (if is_json_space c then Some (None, s)
      else if c = 123 then Some (Some LBrace, s)
      else if c = 125 then Some (Some RBrace, s)
      else if c = 91 then Some (Some LBracket, s)
      else if c = 93 then Some (Some RBracket, s)
      else if c = 58 then Some (Some Colon, s)
      else if c = 44 then Some (Some Comma, s)
      else if c = 34 then map_option (\<lambda>(x, r). (Some (TStr x), r)) (lex_string s)
      else if c = 110 then lex_keyword TNull (js ''ull'') s
      else if c = 116 then lex_keyword TTrue (js ''rue'') s
      else if c = 102 then lex_keyword TFalse (js ''alse'') s
      else map_option (\<lambda>(x, r). (Some (TNum x), r)) (lex_number (c # s)))"

lemma lex_string_shorter: "lex_string s = Some (x, r) \<Longrightarrow> length r < length s"
  by (induction s arbitrary: x r rule: lex_string.induct)
    (auto simp: cons_unit_def split: if_splits list.splits option.splits, fastforce+)

lemma lex_number_shorter: "lex_number s = Some (x, r) \<Longrightarrow> length r < length s"
proof -
  assume *: "lex_number s = Some (x, r)"
  have fr: "length s2 \<le> length s1" if "lex_fraction s1 = Some (f, s2)" for f s1 s2
    using that length_dropWhile_le [of is_digit]
    by (auto simp: lex_fraction_def Let_def le_SucI split: list.splits if_splits)
  have ex: "length s2 \<le> length s1" if "lex_exponent s1 = Some (f, s2)" for f s1 s2
  proof -
    have "length (dropWhile is_digit t) \<le> length t" for t
      by (rule length_dropWhile_le)
    with that show ?thesis
      by (auto simp: lex_exponent_def Let_def split: list.splits if_splits)
        (metis le_SucI length_Cons)+
  qed
  from * show ?thesis
    by (auto simp: lex_number_def Let_def split: list.splits if_splits option.splits
        dest!: fr ex)
qed

lemma lex_token_shorter: "lex_token c s = Some (t, r) \<Longrightarrow> length r \<le> length s"
  using lex_string_shorter lex_number_shorter [of "c # s"]
  by (auto simp: lex_token_def lex_keyword_def split: if_splits dest: less_imp_le)

function json_tokens :: "jsstring \<Rightarrow> token list option" where
  "json_tokens [] = Some []"
| "json_tokens (c # s) =
     (case lex_token c s of
        None \<Rightarrow> None
      | Some (None, r) \<Rightarrow> json_tokens r
      | Some (Some t, r) \<Rightarrow> map_option ((#) t) (json_tokens r))"
  by pat_completeness auto
termination
  by (relation "measure length") (auto dest: lex_token_shorter)

section \<open>JSON.parse: the parser\<close>

text \<open>The open arrays and objects around the value being read, innermost first.\<close>

datatype frame =
    InArray "json list"                            \<comment> \<open>the elements so far, last first\<close>
  | InObject "(jsstring \<times> json) list" jsstring   \<comment> \<open>the properties so far, the pending key\<close>

datatype mode =
    NeedValue                                  \<comment> \<open>a value must follow\<close>
  | ArrayStart                                 \<comment> \<open>after \<open>[\<close>: a value or \<open>]\<close>\<close>
  | ObjectStart                                \<comment> \<open>after \<open>{\<close>: a key or \<open>}\<close>\<close>
  | NeedKey "(jsstring \<times> json) list"          \<comment> \<open>after a comma in an object\<close>
  | NeedColon "(jsstring \<times> json) list" jsstring
  | After json                                 \<comment> \<open>a value is complete\<close>

fun start_value :: "token \<Rightarrow> mode option" where
  "start_value LBrace = Some ObjectStart"
| "start_value LBracket = Some ArrayStart"
| "start_value TNull = Some (After JNull)"
| "start_value TTrue = Some (After (JBool True))"
| "start_value TFalse = Some (After (JBool False))"
| "start_value (TNum x) = Some (After (JNum x))"
| "start_value (TStr x) = Some (After (JStr x))"
| "start_value _ = None"

fun parse_step :: "mode \<Rightarrow> frame list \<Rightarrow> token \<Rightarrow> (mode \<times> frame list) option" where
  "parse_step NeedValue st t = map_option (\<lambda>m. (m, st)) (start_value t)"
| "parse_step ArrayStart st t =
     (if t = RBracket then Some (After (JArr []), st)
      else map_option (\<lambda>m. (m, InArray [] # st)) (start_value t))"
| "parse_step ObjectStart st t =
     (case t of
        RBrace \<Rightarrow> Some (After (JObj []), st)
      | TStr k \<Rightarrow> Some (NeedColon [] k, st)
      | _ \<Rightarrow> None)"
| "parse_step (NeedKey ps) st t = (case t of TStr k \<Rightarrow> Some (NeedColon ps k, st) | _ \<Rightarrow> None)"
| "parse_step (NeedColon ps k) st t =
     (if t = Colon then Some (NeedValue, InObject ps k # st) else None)"
| "parse_step (After v) (InArray vs # st) t =
     (case t of
        Comma \<Rightarrow> Some (NeedValue, InArray (v # vs) # st)
      | RBracket \<Rightarrow> Some (After (JArr (rev (v # vs))), st)
      | _ \<Rightarrow> None)"
| "parse_step (After v) (InObject ps k # st) t =
     (case t of
        Comma \<Rightarrow> Some (NeedKey (set_property k v ps), st)
      | RBrace \<Rightarrow> Some (After (JObj (set_property k v ps)), st)
      | _ \<Rightarrow> None)"
| "parse_step (After v) [] t = None"

fun parse_tokens :: "mode \<Rightarrow> frame list \<Rightarrow> token list \<Rightarrow> json option" where
  "parse_tokens (After v) [] [] = Some v"
| "parse_tokens m st [] = None"
| "parse_tokens m st (t # ts) =
     (case parse_step m st t of None \<Rightarrow> None | Some (m', st') \<Rightarrow> parse_tokens m' st' ts)"

definition json_parse :: "jsstring \<Rightarrow> json option" where
  "json_parse s = Option.bind (json_tokens s) (parse_tokens NeedValue [])"

section \<open>JSON.stringify\<close>

definition hex_digit :: "int \<Rightarrow> code_unit" where
  "hex_digit n = (if n < 10 then of_int (48 + n) else of_int (87 + n))"

definition unicode_escape :: "code_unit \<Rightarrow> jsstring" where
  "unicode_escape c =
     [92, 117] @ map hex_digit
       [uint c div 4096, uint c div 256 mod 16, uint c div 16 mod 16, uint c mod 16]"

definition is_high_surrogate :: "code_unit \<Rightarrow> bool" where
  "is_high_surrogate c \<longleftrightarrow> 0xD800 \<le> c \<and> c \<le> 0xDBFF"

definition is_low_surrogate :: "code_unit \<Rightarrow> bool" where
  "is_low_surrogate c \<longleftrightarrow> 0xDC00 \<le> c \<and> c \<le> 0xDFFF"

definition quote_unit :: "code_unit \<Rightarrow> jsstring" where
  "quote_unit c =
     (if c = 34 \<or> c = 92 then [92, c]
      else if c = 8 then [92, 98] else if c = 12 then [92, 102] else if c = 10 then [92, 110]
      else if c = 13 then [92, 114] else if c = 9 then [92, 116]
      else if c < 32 then unicode_escape c else [c])"

fun quote_body :: "jsstring \<Rightarrow> jsstring" where
  "quote_body [] = []"
| "quote_body (c # s) =
     (if is_high_surrogate c then
        (case s of
           d # s' \<Rightarrow> if is_low_surrogate d then c # d # quote_body s'
                     else unicode_escape c @ quote_body s
         | [] \<Rightarrow> unicode_escape c)
      else if is_low_surrogate c then unicode_escape c @ quote_body s
      else quote_unit c @ quote_body s)"

declare quote_body.simps(2) [simp del]

definition quote_string :: "jsstring \<Rightarrow> jsstring" where
  "quote_string s = [34] @ quote_body s @ [34]"

fun json_stringify :: "json \<Rightarrow> jsstring" where
  "json_stringify JNull = js ''null''"
| "json_stringify (JBool b) = (if b then js ''true'' else js ''false'')"
| "json_stringify (JNum x) = (if is_finite_num x then number_to_string x else js ''null'')"
| "json_stringify (JStr s) = quote_string s"
| "json_stringify (JArr vs) = js ''['' @ join_with 44 (map json_stringify vs) @ js '']''"
| "json_stringify (JObj ps) =
     js ''{'' @ join_with 44 (map (\<lambda>(k, v). quote_string k @ js '':'' @ json_stringify v) ps)
       @ js ''}''"

section \<open>String literals are read back\<close>

lemma uint_hex_digit:
  "0 \<le> n \<Longrightarrow> n < 16 \<Longrightarrow> uint (hex_digit n) = (if n < 10 then 48 + n else 87 + n)"
  by (simp add: hex_digit_def uint_word_of_int del: of_int_add)

lemma hex_value_digit:
  assumes "0 \<le> n" "n < 16"
  shows "hex_value (hex_digit n) = Some n"
  using uint_hex_digit [OF assms] assms
  by (cases "n < 10") (simp_all add: hex_value_def is_digit_def word_le_def)

lemma hex4_unicode_escape:
  "hex4 (hex_digit (uint c div 4096)) (hex_digit (uint c div 256 mod 16)) (hex_digit (uint c div 16 mod 16))
     (hex_digit (uint c mod 16)) = Some (c :: code_unit)"
proof -
  have "uint c < 65536" using uint_lt2p [of c] by simp
  then have "uint c div 4096 < 16" by simp
  moreover have "u div 4096 * 4096 + u div 256 mod 16 * 256 + u div 16 mod 16 * 16 + u mod 16 = u" for u :: int
  proof -
    have steps: "u div 256 = u div 16 div 16" "u div 4096 = u div 16 div 16 div 16"
      by (simp_all add: zdiv_zmult2_eq)
    have "\<lbrakk>a * 16 + p = u; b * 16 + q = a; d * 16 + r = b\<rbrakk> \<Longrightarrow> d * 4096 + r * 256 + q * 16 + p = u" for a b d p q r :: int
      by linarith
    from this [OF div_mult_mod_eq div_mult_mod_eq div_mult_mod_eq] show ?thesis unfolding steps .
  qed
  moreover have "0 \<le> uint c div 4096"
    by (rule div_int_pos_iff [THEN iffD2]) simp
  ultimately show ?thesis
    by (simp only: hex4_def hex_value_digit pos_mod_sign pos_mod_bound option.case prod.case zero_less_numeral
        word_of_int_uint)
qed

lemma lex_unicode_escape: "lex_string (unicode_escape c @ s) = cons_unit c (lex_string s)"
  by (simp add: unicode_escape_def hex4_unicode_escape)

lemma lex_quote_unit: "lex_string (quote_unit c @ s) = cons_unit c (lex_string s)"
  by (auto simp: quote_unit_def unescape_def lex_unicode_escape)

text \<open>What \<open>JSON.stringify\<close> writes for a string is read back as that string.\<close>

lemma lex_quote_body: "lex_string (quote_body s @ 34 # r) = Some (s, r)"
proof (induction s rule: quote_body.induct)
  case (2 c s)
  have plain: "is_high_surrogate d \<Longrightarrow> lex_string (d # t) = cons_unit d (lex_string t)"
    "is_low_surrogate d \<Longrightarrow> lex_string (d # t) = cons_unit d (lex_string t)" for d t
    by (auto simp: is_high_surrogate_def is_low_surrogate_def word_le_nat_alt word_less_nat_alt)
  have "lex_string (34 # r) = Some ([], r)" by simp
  with 2 show ?case
    by (cases s) (auto simp: quote_body.simps(2) [of c] lex_unicode_escape lex_quote_unit plain
        cons_unit_def simp del: lex_string.simps(2))
qed simp

section \<open>capJsonValue\<close>

text \<open>\<open>None\<close> is JavaScript's \<open>undefined\<close>, on which \<open>JSON.stringify\<close> returns \<open>undefined\<close>.\<close>

definition capJsonValue :: "json option \<Rightarrow> nat \<Rightarrow> json" where
  "capJsonValue value maxChars =
     (case value of
        None \<Rightarrow> JNull
      | Some v \<Rightarrow>
          let text = json_stringify v
          in if length text \<le> maxChars then v
             else JObj [(js ''truncated'', JBool True), (js ''preview'', JStr (take maxChars text))])"

lemma quote_unit_length: "length (quote_unit c) \<le> 6"
  by (simp add: quote_unit_def unicode_escape_def)

lemma unicode_escape_length [simp]: "length (unicode_escape c) = 6"
  by (simp add: unicode_escape_def)

lemma quote_body_length: "length (quote_body s) \<le> 6 * length s"
proof (induction s rule: quote_body.induct)
  case (2 c s)
  show ?case
  proof (cases "is_high_surrogate c")
    case True
    with 2 show ?thesis by (cases s) (auto simp: quote_body.simps(2) [of c])
  next
    case False
    with 2 quote_unit_length [of c] show ?thesis by (auto simp: quote_body.simps(2) [of c])
  qed
qed simp

text \<open>
  What is stored is either within the limit or the truncation object, whose own serialized
  form is within six times the limit plus its fixed frame.
\<close>

lemma capJsonValue_cases:
  "capJsonValue v n = JNull \<and> v = None \<or>
   (\<exists>x. v = Some x \<and> length (json_stringify x) \<le> n \<and> capJsonValue v n = x) \<or>
   (\<exists>x. v = Some x \<and> n < length (json_stringify x) \<and>
      capJsonValue v n =
        JObj [(js ''truncated'', JBool True), (js ''preview'', JStr (take n (json_stringify x)))])"
  by (cases v) (auto simp: capJsonValue_def Let_def)

lemma quote_body_ascii:
  "list_all (\<lambda>c. 32 \<le> c \<and> c < 128 \<and> c \<noteq> 34 \<and> c \<noteq> 92) s \<Longrightarrow> quote_body s = s"
  by (induction s)
    (auto simp: quote_body.simps(2) is_high_surrogate_def is_low_surrogate_def quote_unit_def
      word_le_nat_alt word_less_nat_alt)

lemma capJsonValue_size:
  "length (json_stringify (capJsonValue v n)) \<le> max 4 (max n (6 * n + 31))"
proof -
  have t: "quote_body (js ''truncated'') = js ''truncated''"
    "quote_body (js ''preview'') = js ''preview''"
    by (rule quote_body_ascii, simp add: js_simps)+
  have b: "length (quote_body (take n s)) \<le> 6 * n" for s
    using quote_body_length [of "take n s"] by simp
  show ?thesis
    using capJsonValue_cases [of v n] b [of "json_stringify (the v)"]
    by (auto simp: quote_string_def t max_def)
qed

end
