(* ===== verification/Iso_Date.thy ===== *)
theory Iso_Date
  imports Json
begin

text \<open>
  ECMA-262 time values and \<open>normalizeTimestamp\<close> of \<open>src/shared/utils/normalize.ts\<close>.

  A time value is an integer: milliseconds since 1970-01-01T00:00:00Z.  \<open>day_from_year\<close>,
  \<open>year_of_day\<close>, \<open>hour_from_time\<close> are the specification's DayFromYear, YearFromTime and
  HourFromTime; \<open>to_iso_string\<close> is \<open>Date.prototype.toISOString\<close>; \<open>date_parse\<close> is
  \<open>new Date(string)\<close> on the strings that match \<open>ISO_8601_PATTERN\<close>.  The standard gives a
  value to those with a \<open>.sss\<close> fraction or none and a \<open>Z\<close> or \<open>+hh:mm\<close> offset, all fields
  in range; for the others the result is implementation-defined, and is the parameter
  \<open>legacy\<close>.

  The lemmas: days and civil dates are in bijection, and a canonical timestamp is a fixed
  point of \<open>normalizeTimestamp\<close>.
\<close>

section \<open>Days and civil dates\<close>

definition is_leap :: "int \<Rightarrow> bool" where
  "is_leap y \<longleftrightarrow> y mod 4 = 0 \<and> (y mod 100 \<noteq> 0 \<or> y mod 400 = 0)"

definition day_from_year :: "int \<Rightarrow> int" where
  "day_from_year y =
     365 * (y - 1970) + (y - 1969) div 4 - (y - 1901) div 100 + (y - 1601) div 400"

definition days_before_month :: "int \<Rightarrow> int \<Rightarrow> int" where
  "days_before_month y m =
     (let l = (if is_leap y then 1 else 0)
      in if m \<le> 1 then 0 else if m = 2 then 31 else if m = 3 then 59 + l else if m = 4 then 90 + l
         else if m = 5 then 120 + l else if m = 6 then 151 + l else if m = 7 then 181 + l
         else if m = 8 then 212 + l else if m = 9 then 243 + l else if m = 10 then 273 + l
         else if m = 11 then 304 + l else if m = 12 then 334 + l else 365 + l)"

definition days_in_month :: "int \<Rightarrow> int \<Rightarrow> int" where
  "days_in_month y m = days_before_month y (m + 1) - days_before_month y m"

definition day_of_civil :: "int \<Rightarrow> int \<Rightarrow> int \<Rightarrow> int" where
  "day_of_civil y m d = day_from_year y + days_before_month y m + (d - 1)"

definition year_of_day :: "int \<Rightarrow> int" where
  "year_of_day n =
     (let y = 1970 + (n * 400) div 146097
      in if day_from_year (y + 1) \<le> n then y + 1 else if n < day_from_year y then y - 1 else y)"

definition month_of_day :: "int \<Rightarrow> int \<Rightarrow> int" where
  "month_of_day y k =
     (if k < days_before_month y 2 then 1 else if k < days_before_month y 3 then 2
      else if k < days_before_month y 4 then 3 else if k < days_before_month y 5 then 4
      else if k < days_before_month y 6 then 5 else if k < days_before_month y 7 then 6
      else if k < days_before_month y 8 then 7 else if k < days_before_month y 9 then 8
      else if k < days_before_month y 10 then 9 else if k < days_before_month y 11 then 10
      else if k < days_before_month y 12 then 11 else 12)"

definition civil_of_day :: "int \<Rightarrow> int \<times> int \<times> int" where
  "civil_of_day n =
     (let y = year_of_day n; k = n - day_from_year y; m = month_of_day y k
      in (y, m, k - days_before_month y m + 1))"

lemma div_lower: "0 < (k :: int) \<Longrightarrow> k * (x div k) \<le> x"
  by (metis mult_div_mod_eq pos_mod_sign le_add_same_cancel1)

lemma div_upper: "0 < (k :: int) \<Longrightarrow> x < k * (x div k) + k"
  by (metis add_less_cancel_left mult_div_mod_eq pos_mod_bound)

lemma div_succ:
  assumes "0 < (k :: int)"
  shows "(a + 1) div k = a div k + of_bool ((a + 1) mod k = 0)"
proof -
  define q r where "q = a div k" and "r = a mod k"
  then have a: "a = k * q + r" "0 \<le> r" "r < k" using assms by simp_all
  show ?thesis
  proof (cases "r + 1 = k")
    case True
    with a have "a + 1 = k * (q + 1)" by (simp add: algebra_simps)
    with assms show ?thesis unfolding q_def [symmetric] by simp
  next
    case False
    with a have "a + 1 = k * q + (r + 1)" "0 \<le> r + 1" "r + 1 < k" by linarith+
    then have "(a + 1) div k = q" "(a + 1) mod k = r + 1"
      by (metis int_div_pos_eq, metis int_mod_pos_eq)
    with a show ?thesis unfolding q_def [symmetric] by simp
  qed
qed

lemma leap_count:
  "(r \<Longrightarrow> q) \<Longrightarrow> (q \<Longrightarrow> p) \<Longrightarrow>
   (x :: int) + (a + of_bool p) - (b + of_bool q) + (c + of_bool r) =
   x + a - b + c + of_bool (p \<and> (\<not> q \<or> r))"
  by (cases p; cases q; cases r) simp_all

lemma shift_mod: "m mod k = 0 \<Longrightarrow> (y - m) mod k = (y :: int) mod k"
  by (metis diff_zero mod_diff_right_eq)

lemma day_from_year_Suc: "day_from_year (y + 1) = day_from_year y + (365 + of_bool (is_leap y))"
proof -
  have e: "y + 1 - 1969 = y - 1968" "y + 1 - 1901 = y - 1900" "y + 1 - 1601 = y - 1600" by simp_all
  have m: "(y + 1 - 1969) mod 4 = y mod 4" "(y + 1 - 1901) mod 100 = y mod 100"
    "(y + 1 - 1601) mod 400 = y mod 400"
    unfolding e by (rule shift_mod, simp)+
  have d: "(y + 1 - 1969) div 4 = (y - 1969) div 4 + of_bool (y mod 4 = 0)"
    "(y + 1 - 1901) div 100 = (y - 1901) div 100 + of_bool (y mod 100 = 0)"
    "(y + 1 - 1601) div 400 = (y - 1601) div 400 + of_bool (y mod 400 = 0)"
    using div_succ [of 4 "y - 1969"] div_succ [of 100 "y - 1901"] div_succ [of 400 "y - 1601"]
    by (simp_all only: diff_add_eq m zero_less_numeral simp_thms)
  have "y mod 400 = 0 \<Longrightarrow> y mod 100 = 0" "y mod 100 = 0 \<Longrightarrow> y mod 4 = 0"
    using mod_mod_cancel [of 100 400 y] mod_mod_cancel [of 4 100 y] by auto
  then have "day_from_year (y + 1) =
      365 * (y + 1 - 1970) + (y - 1969) div 4 - (y - 1901) div 100 + (y - 1601) div 400
      + of_bool (is_leap y)"
    unfolding day_from_year_def d is_leap_def by (rule leap_count)
  moreover define A B C where "A = (y - 1969) div 4" and "B = (y - 1901) div 100"
    and "C = (y - 1601) div 400"
  ultimately show ?thesis unfolding day_from_year_def [of y] by simp
qed

lemma day_from_year_mono: "y \<le> z \<Longrightarrow> day_from_year y \<le> day_from_year z"
proof (induction z rule: int_ge_induct)
  case (step z)
  then show ?case by (simp add: day_from_year_Suc)
qed simp

lemma year_estimate:
  assumes "day_from_year y \<le> n" "n < day_from_year (y + 1)"
  shows "\<bar>1970 + (n * 400) div 146097 - y\<bar> \<le> 1"
proof -
  define a b c e where abc: "a = (y - 1969) div 4" "b = (y - 1901) div 100"
    "c = (y - 1601) div 400" "e = (n * 400) div 146097"
  have n: "365 * (y - 1970) + a - b + c \<le> n" "n \<le> 365 * (y - 1970) + a - b + c + 365"
    using assms unfolding day_from_year_Suc
    unfolding day_from_year_def abc [symmetric] by (auto simp: of_bool_def split: if_splits)
  have lo: "4 * a \<le> y - 1969" "100 * b \<le> y - 1901" "400 * c \<le> y - 1601" "146097 * e \<le> n * 400"
    unfolding abc by (rule div_lower, simp)+
  have up: "y - 1969 < 4 * a + 4" "y - 1901 < 100 * b + 100" "y - 1601 < 400 * c + 400"
    "n * 400 < 146097 * e + 146097"
    unfolding abc by (rule div_upper, simp)+
  have abc_lo: "100 * y - 197300 \<le> 400 * a" "4 * y - 8004 \<le> 400 * b" "y - 2001 \<le> 400 * c"
    using up by simp_all
  have abc_up: "400 * a \<le> 100 * y - 196900" "400 * b \<le> 4 * y - 7604" "400 * c \<le> y - 1601"
    using lo by simp_all
  have n400: "146000 * y - 287620000 + 400 * a - 400 * b + 400 * c \<le> 400 * n"
    "400 * n \<le> 146000 * y - 287474000 + 400 * a - 400 * b + 400 * c"
    using n by simp_all
  have l: "146097 * y - 287811697 \<le> 400 * n" using n400(1) abc_lo(1,3) abc_up(2) by simp
  have u: "400 * n \<le> 146097 * y - 287664497" using n400(2) abc_up(1,3) abc_lo(2) by simp
  have "\<not> e \<le> y - 1972"
  proof
    assume "e \<le> y - 1972"
    then have "146097 * e \<le> 146097 * y - 288103284" by simp
    with l up(4) show False by simp
  qed
  moreover have "\<not> y - 1968 \<le> e"
  proof
    assume "y - 1968 \<le> e"
    then have "146097 * y - 287518896 \<le> 146097 * e" by simp
    with u lo(4) show False by simp
  qed
  ultimately have "y - 1971 \<le> e" "e \<le> y - 1969" by simp_all
  then have "\<bar>1970 + e - y\<bar> \<le> 1" by simp
  then show ?thesis unfolding abc .
qed

lemma year_of_day_unique:
  assumes "day_from_year y \<le> n" "n < day_from_year (y + 1)"
  shows "year_of_day n = y"
proof -
  let ?e = "1970 + (n * 400) div 146097"
  have "?e = y - 1 \<or> ?e = y \<or> ?e = y + 1" using year_estimate [OF assms] by linarith
  moreover have "day_from_year (y - 1 + 1) \<le> n" using assms by simp
  ultimately show ?thesis
    using assms day_from_year_mono [of "y + 1" "y + 2"] day_from_year_mono [of y "y + 1"]
    by (auto simp: year_of_day_def Let_def)
qed

lemma civil_of_day_of_civil:
  assumes "1 \<le> m" "m \<le> 12" "1 \<le> d" "d \<le> days_in_month y m"
  shows "civil_of_day (day_of_civil y m d) = (y, m, d)"
proof -
  let ?k = "days_before_month y m + (d - 1)"
  have "m \<in> set [1..12]" using assms(1,2) by simp
  also have "[1..12 :: int] = [1, 2, 3, 4, 5, 6, 7, 8, 9, 10, 11, 12]" by code_simp
  finally have "m \<in> {1, 2, 3, 4, 5, 6, 7, 8, 9, 10, 11, 12}" by simp
  then have k: "0 \<le> ?k \<and> ?k < (if is_leap y then 366 else 365) \<and> month_of_day y ?k = m"
    using assms(3,4)
    by (elim insertE; cases "is_leap y")
      (simp_all add: days_in_month_def month_of_day_def days_before_month_def)
  then have "year_of_day (day_of_civil y m d) = y"
    by (intro year_of_day_unique) (auto simp: day_of_civil_def day_from_year_Suc)
  with k show ?thesis by (simp add: civil_of_day_def day_of_civil_def Let_def)
qed

lemma year_exists: "\<exists>y. day_from_year y \<le> n \<and> n < day_from_year (y + 1)"
proof (induction n rule: int_induct [where k = 0])
  case base
  have "day_from_year 1970 = 0" "day_from_year 1971 = 365" by (simp_all add: day_from_year_def)
  then show ?case by (intro exI [of _ 1970]) simp
next
  case (step1 n)
  then obtain y where y: "day_from_year y \<le> n" "n < day_from_year (y + 1)" by blast
  show ?case
  proof (cases "n + 1 < day_from_year (y + 1)")
    case True
    with y show ?thesis by (intro exI [of _ y]) simp
  next
    case False
    with y day_from_year_Suc [of "y + 1"] show ?thesis by (intro exI [of _ "y + 1"]) simp
  qed
next
  case (step2 n)
  then obtain y where y: "day_from_year y \<le> n" "n < day_from_year (y + 1)" by blast
  show ?case
  proof (cases "day_from_year y \<le> n - 1")
    case True
    with y show ?thesis by (intro exI [of _ y]) simp
  next
    case False
    with y day_from_year_Suc [of "y - 1"] show ?thesis
      by (intro exI [of _ "y - 1"]) (simp add: of_bool_def split: if_splits)
  qed
qed

lemma year_of_day_bounds:
  "day_from_year (year_of_day n) \<le> n \<and> n < day_from_year (year_of_day n + 1)"
  using year_exists [of n] year_of_day_unique [of _ n] by blast

lemma month_of_day_bounds:
  assumes "0 \<le> k" "k < 365 + of_bool (is_leap y)"
  shows "1 \<le> month_of_day y k" "month_of_day y k \<le> 12"
    "days_before_month y (month_of_day y k) \<le> k"
    "k < days_before_month y (month_of_day y k + 1)"
  using assms
  by (simp_all add: month_of_day_def days_before_month_def Let_def of_bool_def split: if_splits)

lemma civil_of_day_valid:
  assumes "civil_of_day n = (y, m, d)"
  shows "1 \<le> m" "m \<le> 12" "1 \<le> d" "d \<le> days_in_month y m" "day_of_civil y m d = n"
proof -
  let ?k = "n - day_from_year (year_of_day n)"
  have k: "0 \<le> ?k" "?k < 365 + of_bool (is_leap (year_of_day n))"
    using year_of_day_bounds [of n] by (simp_all add: day_from_year_Suc)
  show "1 \<le> m" "m \<le> 12" "1 \<le> d" "d \<le> days_in_month y m" "day_of_civil y m d = n"
    using assms month_of_day_bounds [OF k]
    by (auto simp: civil_of_day_def Let_def days_in_month_def day_of_civil_def)
qed

section \<open>Time values\<close>

definition make_time :: "int \<Rightarrow> int \<Rightarrow> int \<Rightarrow> int \<Rightarrow> int \<Rightarrow> int" where
  "make_time n h mi s ms = n * 86400000 + h * 3600000 + mi * 60000 + s * 1000 + ms"

definition hour_from_time :: "int \<Rightarrow> int" where
  "hour_from_time t = t div 3600000 mod 24"

definition min_from_time :: "int \<Rightarrow> int" where
  "min_from_time t = t div 60000 mod 60"

definition sec_from_time :: "int \<Rightarrow> int" where
  "sec_from_time t = t div 1000 mod 60"

definition ms_from_time :: "int \<Rightarrow> int" where
  "ms_from_time t = t mod 1000"

lemma hour_range: "0 \<le> hour_from_time t \<and> hour_from_time t < 24"
  by (simp add: hour_from_time_def)

lemma div_chain:
  "t div 60000 = t div 1000 div (60 :: int)"
  "t div 3600000 = t div 1000 div 60 div (60 :: int)"
  "t div 86400000 = t div 1000 div 60 div 60 div (24 :: int)"
  by (simp_all flip: zdiv_zmult2_eq)

lemma make_time_parts:
  assumes "0 \<le> h" "h < 24" "0 \<le> mi" "mi < 60" "0 \<le> s" "s < 60" "0 \<le> ms" "ms < 1000"
  shows "make_time n h mi s ms div 86400000 = n" "hour_from_time (make_time n h mi s ms) = h"
    "min_from_time (make_time n h mi s ms) = mi" "sec_from_time (make_time n h mi s ms) = s"
    "ms_from_time (make_time n h mi s ms) = ms"
proof -
  define t where "t = make_time n h mi s ms"
  define b c where "b = n * 1440 + h * 60 + mi" and "c = n * 24 + h"
  define a where "a = b * 60 + s"
  have t: "t = 1000 * a + ms" "a = 60 * b + s" "b = 60 * c + mi" "c = 24 * n + h"
    by (simp_all add: t_def a_def b_def c_def make_time_def)
  have d: "t div 1000 = a" "a div 60 = b" "b div 60 = c" "c div 24 = n"
    using int_div_pos_eq [OF t(1) assms(7,8)] int_div_pos_eq [OF t(2) assms(5,6)]
      int_div_pos_eq [OF t(3) assms(3,4)] int_div_pos_eq [OF t(4) assms(1,2)] by blast+
  have "t mod 1000 = ms" "a mod 60 = s" "b mod 60 = mi" "c mod 24 = h"
    using int_mod_pos_eq [OF t(1) assms(7,8)] int_mod_pos_eq [OF t(2) assms(5,6)]
      int_mod_pos_eq [OF t(3) assms(3,4)] int_mod_pos_eq [OF t(4) assms(1,2)] by blast+
  moreover have "t div 60000 = b" "t div 3600000 = c" "t div 86400000 = n"
    by (simp_all only: div_chain d)
  ultimately show "make_time n h mi s ms div 86400000 = n"
    "hour_from_time (make_time n h mi s ms) = h" "min_from_time (make_time n h mi s ms) = mi"
    "sec_from_time (make_time n h mi s ms) = s" "ms_from_time (make_time n h mi s ms) = ms"
    unfolding t_def [symmetric]
    by (simp_all only: hour_from_time_def min_from_time_def sec_from_time_def ms_from_time_def d)
qed

lemma make_time_of_parts:
  "make_time (t div 86400000) (hour_from_time t) (min_from_time t) (sec_from_time t)
     (ms_from_time t) = t"
proof -
  define a b c d where "a = t div 1000" and "b = a div 60" and "c = b div 60" and "d = c div 24"
  define h mi sc ms where "h = c mod 24" and "mi = b mod 60" and "sc = a mod 60" and "ms = t mod 1000"
  have e: "t = 1000 * a + ms" "a = 60 * b + sc" "b = 60 * c + mi" "c = 24 * d + h"
    unfolding a_def b_def c_def d_def h_def mi_def sc_def ms_def by simp_all
  have "t div 60000 = b" "t div 3600000 = c" "t div 86400000 = d"
    unfolding a_def b_def c_def d_def by (simp_all only: div_chain)
  then have "make_time (t div 86400000) (hour_from_time t) (min_from_time t) (sec_from_time t)
      (ms_from_time t) = make_time d h mi sc ms"
    unfolding hour_from_time_def min_from_time_def sec_from_time_def ms_from_time_def
    by (simp only: h_def mi_def sc_def ms_def a_def)
  also have "\<dots> = t" unfolding make_time_def e(1) e(2) e(3) e(4) by simp
  finally show ?thesis .
qed

section \<open>toISOString\<close>

definition iso_year :: "int \<Rightarrow> jsstring" where
  "iso_year y =
     (if 0 \<le> y \<and> y \<le> 9999 then pad_zeros 4 (decimal y)
      else (if y < 0 then js ''-'' else js ''+'') @ pad_zeros 6 (decimal \<bar>y\<bar>))"

definition two_digits :: "int \<Rightarrow> jsstring" where
  "two_digits n = pad_zeros 2 (decimal n)"

definition to_iso_string :: "int \<Rightarrow> jsstring" where
  "to_iso_string t =
     (case civil_of_day (t div 86400000) of (y, m, d) \<Rightarrow>
        iso_year y @ js ''-'' @ two_digits m @ js ''-'' @ two_digits d @ js ''T'' @
        two_digits (hour_from_time t) @ js '':'' @ two_digits (min_from_time t) @ js '':'' @
        two_digits (sec_from_time t) @ js ''.'' @ pad_zeros 3 (decimal (ms_from_time t)) @ js ''Z'')"

section \<open>ISO_8601_PATTERN and Date parsing\<close>

datatype iso_zone = Zulu | Offset bool int int bool  \<comment> \<open>negative, hours, minutes, with a colon\<close>

record iso_parts =
  p_year :: int
  p_month :: int
  p_day :: int
  p_hour :: int
  p_minute :: int
  p_second :: int
  p_fraction :: "jsstring option"
  p_zone :: iso_zone

text \<open>The fixed prefix \<open>\d{4}-\d{2}-\d{2}T\d{2}:\d{2}:\d{2}\<close>.\<close>

definition iso_prefix :: "jsstring \<Rightarrow> bool" where
  "iso_prefix s \<longleftrightarrow>
     list_all2 (\<lambda>p c. p c)
       [is_digit, is_digit, is_digit, is_digit, (=) 45, is_digit, is_digit, (=) 45,
        is_digit, is_digit, (=) 84, is_digit, is_digit, (=) 58, is_digit, is_digit, (=) 58,
        is_digit, is_digit] s"

definition number_at :: "nat \<Rightarrow> nat \<Rightarrow> jsstring \<Rightarrow> int" where
  "number_at i k s = digits_value (take k (drop i s))"

text \<open>\<open>(Z|[+-]\d{2}:?\d{2})$\<close>.\<close>

definition match_zone :: "jsstring \<Rightarrow> iso_zone option" where
  "match_zone s =
     (if s = [90] then Some Zulu
      else if length s \<in> {5, 6} \<and> hd s \<in> {43, 45} then
        (let colon = (length s = 6); ds = take 2 (tl s) @ drop (if colon then 4 else 3) s
         in if list_all is_digit ds \<and> (colon \<longrightarrow> s ! 3 = 58)
            then Some (Offset (hd s = 45) (digits_value (take 2 ds)) (digits_value (drop 2 ds)) colon)
            else None)
      else None)"

text \<open>\<open>(\.\d+)?\<close> and the zone.\<close>

definition match_tail :: "jsstring \<Rightarrow> (jsstring option \<times> iso_zone) option" where
  "match_tail s =
     (case s of
        c # r \<Rightarrow>
          if c = 46 then
            (let ds = takeWhile is_digit r
             in if ds = [] then None
                else map_option (\<lambda>z. (Some ds, z)) (match_zone (dropWhile is_digit r)))
          else map_option (\<lambda>z. (None, z)) (match_zone s)
      | [] \<Rightarrow> None)"

definition iso_match :: "jsstring \<Rightarrow> iso_parts option" where
  "iso_match s =
     (if iso_prefix (take 19 s) then
        (case match_tail (drop 19 s) of
           None \<Rightarrow> None
         | Some (f, z) \<Rightarrow>
             Some \<lparr>p_year = number_at 0 4 s, p_month = number_at 5 2 s, p_day = number_at 8 2 s,
                   p_hour = number_at 11 2 s, p_minute = number_at 14 2 s,
                   p_second = number_at 17 2 s, p_fraction = f, p_zone = z\<rparr>)
      else None)"

text \<open>The strings to which ECMA-262 gives a time value.\<close>

definition standard_parts :: "iso_parts \<Rightarrow> bool" where
  "standard_parts p \<longleftrightarrow>
     1 \<le> p_month p \<and> p_month p \<le> 12 \<and> 1 \<le> p_day p \<and>
     p_day p \<le> days_in_month (p_year p) (p_month p) \<and>
     p_hour p < 24 \<and> p_minute p < 60 \<and> p_second p < 60 \<and>
     (case p_fraction p of None \<Rightarrow> True | Some ds \<Rightarrow> length ds = 3) \<and>
     (case p_zone p of Zulu \<Rightarrow> True | Offset _ h m colon \<Rightarrow> colon \<and> h < 24 \<and> m < 60)"

definition zone_offset :: "iso_zone \<Rightarrow> int" where
  "zone_offset z =
     (case z of Zulu \<Rightarrow> 0
      | Offset neg h m _ \<Rightarrow> (if neg then -1 else 1) * (h * 3600000 + m * 60000))"

definition parts_time :: "iso_parts \<Rightarrow> int" where
  "parts_time p =
     make_time (day_of_civil (p_year p) (p_month p) (p_day p)) (p_hour p) (p_minute p) (p_second p)
       (case p_fraction p of None \<Rightarrow> 0 | Some ds \<Rightarrow> digits_value ds)
     - zone_offset (p_zone p)"

text \<open>\<open>new Date(s).getTime()\<close> of a string that matches the pattern; \<open>None\<close> is \<open>NaN\<close>.\<close>

definition date_parse :: "(jsstring \<Rightarrow> int option) \<Rightarrow> jsstring \<Rightarrow> iso_parts \<Rightarrow> int option" where
  "date_parse legacy s p = (if standard_parts p then Some (parts_time p) else legacy s)"

text \<open>\<open>normalizeTimestamp\<close>: the argument and the result are \<open>None\<close> for \<open>undefined\<close>.\<close>

definition normalizeTimestamp :: "(jsstring \<Rightarrow> int option) \<Rightarrow> json option \<Rightarrow> jsstring option" where
  "normalizeTimestamp legacy value =
     (case value of
        Some (JStr s) \<Rightarrow>
          (case iso_match s of
             None \<Rightarrow> None
           | Some p \<Rightarrow>
               (case date_parse legacy s p of
                  None \<Rightarrow> None
                | Some t \<Rightarrow> Some (to_iso_string t)))
      | _ \<Rightarrow> None)"

section \<open>Canonical timestamps are fixed points\<close>

lemma decimal_small: "n < 10 \<Longrightarrow> decimal n = [digit n]"
  by (subst decimal.simps) simp

lemma decimal_step: "10 \<le> n \<Longrightarrow> decimal n = decimal (n div 10) @ [digit (n mod 10)]"
  by (subst decimal.simps) simp

lemma pad_2: "0 \<le> n \<Longrightarrow> n < 100 \<Longrightarrow> two_digits n = [digit (n div 10), digit (n mod 10)]"
  by (cases "n < 10") (simp_all add: two_digits_def pad_zeros_def decimal_small decimal_step)

lemma pad_zeros_snoc:
  "10 \<le> n \<Longrightarrow> pad_zeros (Suc k) (decimal n) = pad_zeros k (decimal (n div 10)) @ [digit (n mod 10)]"
  by (simp add: pad_zeros_def decimal_step)

lemma pad_3:
  "0 \<le> n \<Longrightarrow> n < 1000 \<Longrightarrow>
   pad_zeros 3 (decimal n) = [digit (n div 100), digit (n div 10 mod 10), digit (n mod 10)]"
proof (cases "n < 10")
  case False
  assume "0 \<le> n" "n < 1000"
  with False have "pad_zeros 2 (decimal (n div 10)) =
      [digit (n div 10 div 10), digit (n div 10 mod 10)]"
    using pad_2 [of "n div 10"] by (simp add: two_digits_def)
  with False pad_zeros_snoc [of n 2] show ?thesis by (simp add: zdiv_zmult2_eq [symmetric])
qed (simp add: pad_zeros_def decimal_small eval_nat_numeral)

lemma pad_4:
  "0 \<le> n \<Longrightarrow> n < 10000 \<Longrightarrow>
   pad_zeros 4 (decimal n) =
     [digit (n div 1000), digit (n div 100 mod 10), digit (n div 10 mod 10), digit (n mod 10)]"
proof (cases "n < 10")
  case False
  assume "0 \<le> n" "n < 10000"
  with False have "pad_zeros 3 (decimal (n div 10)) =
      [digit (n div 10 div 100), digit (n div 10 div 10 mod 10), digit (n div 10 mod 10)]"
    using pad_3 [of "n div 10"] by simp
  with False pad_zeros_snoc [of n 3] show ?thesis by (simp add: zdiv_zmult2_eq [symmetric])
qed (simp add: pad_zeros_def decimal_small eval_nat_numeral)

lemma digits_value_lists:
  "digits_value [a, b] = 10 * digit_value a + digit_value b"
  "digits_value [a, b, c] = 10 * (10 * digit_value a + digit_value b) + digit_value c"
  "digits_value [a, b, c, d] =
     10 * (10 * (10 * digit_value a + digit_value b) + digit_value c) + digit_value d"
  by (simp_all add: digits_value_def)

lemma ten_parts:
  "10 * (n div 10) + n mod 10 = (n :: int)"
  "10 * (10 * (n div 100) + n div 10 mod 10) + n mod 10 = (n :: int)"
  "10 * (10 * (10 * (n div 1000) + n div 100 mod 10) + n div 10 mod 10) + n mod 10 = (n :: int)"
proof -
  have e: "10 * (m div 10) + m mod 10 = m" for m :: int by simp
  show "10 * (n div 10) + n mod 10 = n" by (rule e)
  have d: "n div 100 = n div 10 div 10" "n div 1000 = n div 10 div 10 div 10"
    by (simp_all flip: zdiv_zmult2_eq)
  show "10 * (10 * (n div 100) + n div 10 mod 10) + n mod 10 = n"
    unfolding d by (simp only: e)
  show "10 * (10 * (10 * (n div 1000) + n div 100 mod 10) + n div 10 mod 10) + n mod 10 = n"
    unfolding d by (simp only: e)
qed

lemma digit_range_parts:
  "0 \<le> n \<Longrightarrow> n < 100 \<Longrightarrow> 0 \<le> n div 10 \<and> n div 10 < (10 :: int)"
  "0 \<le> n \<Longrightarrow> n < 1000 \<Longrightarrow> 0 \<le> n div 100 \<and> n div 100 < (10 :: int)"
  "0 \<le> n \<Longrightarrow> n < 10000 \<Longrightarrow> 0 \<le> n div 1000 \<and> n div 1000 < (10 :: int)"
  using div_lower [of 10 n] div_lower [of 100 n] div_lower [of 1000 n]
  by (simp_all add: pos_imp_zdiv_nonneg_iff)

lemma not_digit_Z: "\<not> is_digit 90"
  by (simp add: is_digit_def)

definition iso_text :: "int \<Rightarrow> int \<Rightarrow> int \<Rightarrow> int \<Rightarrow> int \<Rightarrow> int \<Rightarrow> int \<Rightarrow> jsstring" where
  "iso_text y m d h mi s ms =
     iso_year y @ js ''-'' @ two_digits m @ js ''-'' @ two_digits d @ js ''T'' @ two_digits h @
     js '':'' @ two_digits mi @ js '':'' @ two_digits s @ js ''.'' @ pad_zeros 3 (decimal ms) @ js ''Z''"

lemma iso_match_text:
  assumes "0 \<le> y" "y \<le> 9999" "0 \<le> m" "m < 100" "0 \<le> d" "d < 100" "0 \<le> h" "h < 100"
    "0 \<le> mi" "mi < 100" "0 \<le> s" "s < 100" "0 \<le> ms" "ms < 1000"
  shows "iso_match (iso_text y m d h mi s ms) =
    Some \<lparr>p_year = y, p_month = m, p_day = d, p_hour = h, p_minute = mi, p_second = s,
          p_fraction = Some (pad_zeros 3 (decimal ms)), p_zone = Zulu\<rparr>"
    and "digits_value (pad_zeros 3 (decimal ms)) = ms" "length (pad_zeros 3 (decimal ms)) = 3"
  using assms digit_range_parts [of m] digit_range_parts [of d] digit_range_parts [of h]
    digit_range_parts [of mi] digit_range_parts [of s] digit_range_parts [of ms]
    digit_range_parts [of y]
  by (simp_all add: iso_text_def iso_year_def pad_4 pad_2 pad_3 iso_match_def iso_prefix_def
      match_tail_def match_zone_def number_at_def digits_value_lists ten_parts
      ten_parts [simplified] not_digit_Z js_simps)

lemma to_iso_string_text:
  "civil_of_day (t div 86400000) = (y, m, d) \<Longrightarrow>
   to_iso_string t =
     iso_text y m d (hour_from_time t) (min_from_time t) (sec_from_time t) (ms_from_time t)"
  by (simp add: to_iso_string_def iso_text_def)

lemma iso_text_length:
  assumes "0 \<le> m" "m < 100" "0 \<le> d" "d < 100" "0 \<le> h" "h < 100"
    "0 \<le> mi" "mi < 100" "0 \<le> s" "s < 100" "0 \<le> ms" "ms < 1000"
  shows "length (iso_text y m d h mi s ms) = length (iso_year y) + 20"
  using assms by (simp add: iso_text_def pad_2 pad_3)

lemma iso_year_length: "length (iso_year y) = 4 \<Longrightarrow> 0 \<le> y \<and> y \<le> 9999"
  by (auto simp: iso_year_def pad_zeros_def split: if_splits)

lemma time_part_ranges:
  "0 \<le> hour_from_time t" "hour_from_time t < 24" "0 \<le> min_from_time t" "min_from_time t < 60"
  "0 \<le> sec_from_time t" "sec_from_time t < 60" "0 \<le> ms_from_time t" "ms_from_time t < 1000"
  by (simp_all add: hour_from_time_def min_from_time_def sec_from_time_def ms_from_time_def)

lemma days_in_month_le: "1 \<le> m \<Longrightarrow> days_in_month y m \<le> 31"
  by (simp add: days_in_month_def days_before_month_def Let_def)

text \<open>Parsing what \<open>toISOString\<close> printed gives back the time value (years 0 to 9999).\<close>

lemma iso_round_trip:
  assumes "length (to_iso_string t) = 24"
  shows "\<exists>p. iso_match (to_iso_string t) = Some p \<and> standard_parts p \<and> parts_time p = t"
proof -
  obtain y m d where c: "civil_of_day (t div 86400000) = (y, m, d)"
    by (cases "civil_of_day (t div 86400000)")
  note cv = civil_of_day_valid [OF c] and r = time_part_ranges [of t]
  have d: "d < 100" using cv(4) days_in_month_le [OF cv(1), of y] by simp
  have y: "0 \<le> y" "y \<le> 9999"
    using assms iso_text_length [of m d "hour_from_time t" "min_from_time t" "sec_from_time t"
      "ms_from_time t" y] iso_year_length [of y] cv d r by (simp_all add: to_iso_string_text [OF c])
  let ?f = "pad_zeros 3 (decimal (ms_from_time t))"
  let ?p = "\<lparr>p_year = y, p_month = m, p_day = d, p_hour = hour_from_time t,
    p_minute = min_from_time t, p_second = sec_from_time t, p_fraction = Some ?f, p_zone = Zulu\<rparr>"
  have m: "iso_match (to_iso_string t) = Some ?p" and f: "digits_value ?f = ms_from_time t" "length ?f = 3"
    unfolding to_iso_string_text [OF c]
    using iso_match_text [of y m d "hour_from_time t" "min_from_time t" "sec_from_time t"
      "ms_from_time t"] y cv d r by simp_all
  have "standard_parts ?p" using cv r f(2) by (simp add: standard_parts_def)
  moreover have "parts_time ?p = t"
    using make_time_of_parts [of t] by (simp add: parts_time_def zone_offset_def f(1) cv(5))
  ultimately show ?thesis using m by blast
qed

lemma normalizeTimestamp_SomeE:
  assumes "normalizeTimestamp legacy v = Some s"
  obtains x p t where "v = Some (JStr x)" "iso_match x = Some p" "date_parse legacy x p = Some t"
    "s = to_iso_string t"
  using assms by (auto simp: normalizeTimestamp_def split: option.splits json.splits)

lemma normalizeTimestamp_idem:
  assumes "normalizeTimestamp legacy v = Some s" "length s = 24"
  shows "normalizeTimestamp legacy' (Some (JStr s)) = Some s"
proof -
  from assms(1) obtain t where s: "s = to_iso_string t" by (rule normalizeTimestamp_SomeE)
  from iso_round_trip [of t] assms(2) s obtain p where
    "iso_match s = Some p" "standard_parts p" "parts_time p = t" by auto
  then show ?thesis by (simp add: normalizeTimestamp_def date_parse_def s)
qed

section \<open>Reading a canonical timestamp\<close>

lemma digits_value_zeros: "digits_value (replicate k (digit 0) @ s) = digits_value s"
proof (induction s rule: rev_induct)
  case Nil
  show ?case
  proof (induction k)
    case (Suc k)
    then show ?case
      by (simp only: replicate_Suc replicate_append_same [symmetric] append_Nil2 digits_value_snoc)
        (simp add: digits_value_def)
  qed simp
next
  case (snoc c s)
  then show ?case by (simp only: append_assoc [symmetric] digits_value_snoc)
qed

lemma digits_value_pad: "digits_value (pad_zeros k s) = digits_value s"
  by (simp add: pad_zeros_def digits_value_zeros)

text \<open>An expanded year \<open>[+-]\d{6}\<close> in front of the rest of the format.\<close>

definition expanded_match :: "jsstring \<Rightarrow> iso_parts option" where
  "expanded_match s =
     (let y = digits_value (take 6 (tl s))
      in if 7 \<le> length s \<and> hd s \<in> {43, 45} \<and> list_all is_digit (take 6 (tl s)) \<and>
            \<not> (hd s = 45 \<and> y = 0)
         then map_option (\<lambda>p. p\<lparr>p_year := if hd s = 45 then - y else y\<rparr>)
                (iso_match (js ''0000'' @ drop 7 s))
         else None)"

text \<open>\<open>new Date(s).getTime()\<close>, \<open>None\<close> for an invalid date.\<close>

definition new_date :: "(jsstring \<Rightarrow> int option) \<Rightarrow> jsstring \<Rightarrow> int option" where
  "new_date legacy s =
     (case expanded_match s of
        Some p \<Rightarrow> date_parse legacy s p
      | None \<Rightarrow> (case iso_match s of Some p \<Rightarrow> date_parse legacy s p | None \<Rightarrow> legacy s))"

lemma decimal_length: "0 \<le> n \<Longrightarrow> n < 10 ^ k \<Longrightarrow> 0 < k \<Longrightarrow> length (decimal n) \<le> k"
proof (induction n arbitrary: k rule: decimal.induct)
  case (1 n)
  show ?case
  proof (cases "n < 10")
    case True
    with 1 show ?thesis by (simp add: decimal_small)
  next
    case False
    with 1 obtain j where k: "k = Suc j" "0 < j" by (cases k; cases "k - 1") auto
    have "10 * (n div 10) \<le> n" by (rule div_lower) simp
    with 1 False k have "length (decimal (n div 10)) \<le> j" by (intro 1) simp_all
    with False k show ?thesis by (simp add: decimal_step)
  qed
qed

lemma decimal_nonneg_digits: "0 \<le> n \<Longrightarrow> list_all is_digit (decimal n)"
  by (simp add: list_all_iff decimal_digits)

lemma pad_6:
  assumes "0 \<le> y" "y < 1000000"
  shows "length (pad_zeros 6 (decimal y)) = 6" "list_all is_digit (pad_zeros 6 (decimal y))"
    "digits_value (pad_zeros 6 (decimal y)) = y"
  using decimal_length [of y 6] assms decimal_nonneg_digits [of y]
  by (auto simp: pad_zeros_def list_all_iff digits_value_zeros)

definition time_parts :: "int \<Rightarrow> int \<Rightarrow> int \<Rightarrow> int \<Rightarrow> iso_parts" where
  "time_parts t y m d =
     \<lparr>p_year = y, p_month = m, p_day = d, p_hour = hour_from_time t,
      p_minute = min_from_time t, p_second = sec_from_time t,
      p_fraction = Some (pad_zeros 3 (decimal (ms_from_time t))), p_zone = Zulu\<rparr>"

lemma time_parts_time:
  assumes "civil_of_day (t div 86400000) = (y, m, d)"
  shows "standard_parts (time_parts t y m d)" "parts_time (time_parts t y m d) = t"
proof -
  note cv = civil_of_day_valid [OF assms] and r = time_part_ranges [of t]
  have f: "digits_value (pad_zeros 3 (decimal (ms_from_time t))) = ms_from_time t"
    "length (pad_zeros 3 (decimal (ms_from_time t))) = 3"
    using iso_match_text(2,3) [of 0 1 1 0 0 0 "ms_from_time t"] r by simp_all
  show "standard_parts (time_parts t y m d)" using cv r f(2) by (simp add: standard_parts_def time_parts_def)
  show "parts_time (time_parts t y m d) = t"
    using make_time_of_parts [of t] by (simp add: parts_time_def time_parts_def zone_offset_def f(1) cv(5))
qed

lemma new_date_of_iso:
  assumes "civil_of_day (t div 86400000) = (y, m, d)" "\<bar>y\<bar> \<le> 999999"
  shows "new_date legacy (to_iso_string t) = Some t"
proof -
  note cv = civil_of_day_valid [OF assms(1)] and r = time_part_ranges [of t] and p = time_parts_time [OF assms(1)]
  have d: "d < 100" using cv(4) days_in_month_le [OF cv(1), of y] by simp
  let ?rest = "js ''-'' @ two_digits m @ js ''-'' @ two_digits d @ js ''T'' @ two_digits (hour_from_time t) @
     js '':'' @ two_digits (min_from_time t) @ js '':'' @ two_digits (sec_from_time t) @ js ''.'' @
     pad_zeros 3 (decimal (ms_from_time t)) @ js ''Z''"
  have s: "to_iso_string t = iso_year y @ ?rest"
    by (simp add: to_iso_string_text [OF assms(1)] iso_text_def)
  have m: "iso_match (iso_year z @ ?rest) = Some (time_parts t z m d)" if "0 \<le> z" "z \<le> 9999" for z
    using iso_match_text(1) [of z m d "hour_from_time t" "min_from_time t" "sec_from_time t" "ms_from_time t"]
      that cv d r by (simp add: iso_text_def time_parts_def)
  show ?thesis
  proof (cases "0 \<le> y \<and> y \<le> 9999")
    case True
    then have "hd (iso_year y) = digit (y div 1000)" "iso_year y \<noteq> []"
      by (simp_all add: iso_year_def pad_4)
    moreover have "digit (y div 1000) \<noteq> 43" "digit (y div 1000) \<noteq> 45"
      using digit_range_parts(3) [of y] True is_digit_digit [of "y div 1000"] by (auto simp: is_digit_def)
    ultimately have "expanded_match (to_iso_string t) = None"
      unfolding s by (simp add: expanded_match_def Let_def)
    then show ?thesis using m [of y] True p by (simp add: new_date_def s date_parse_def)
  next
    case False
    define z where "z = pad_zeros 6 (decimal \<bar>y\<bar>)"
    have z: "length z = 6" "list_all is_digit z" "digits_value z = \<bar>y\<bar>"
      unfolding z_def using pad_6 [of "\<bar>y\<bar>"] assms(2) by simp_all
    have y: "iso_year y = (if y < 0 then 45 else 43) # z"
      using False by (auto simp: iso_year_def z_def js_simps)
    have zero: "iso_year 0 = js ''0000''"
      by (simp add: iso_year_def pad_4 js_simps digit_def)
    have "expanded_match (to_iso_string t) =
        map_option (\<lambda>p. p\<lparr>p_year := if y < 0 then - \<bar>y\<bar> else \<bar>y\<bar>\<rparr>) (iso_match (js ''0000'' @ ?rest))"
      using z False by (simp add: expanded_match_def Let_def s y)
    also have "\<dots> = Some (time_parts t y m d)"
      using m [of 0] by (simp add: zero [symmetric] time_parts_def)
    finally show ?thesis using p by (simp add: new_date_def date_parse_def)
  qed
qed

text \<open>The range of a JavaScript time value.\<close>

definition time_value_ok :: "int \<Rightarrow> bool" where
  "time_value_ok t \<longleftrightarrow> \<bar>t\<bar> \<le> 8640000000000000"

lemma time_value_year:
  assumes "time_value_ok t" "civil_of_day (t div 86400000) = (y, m, d)"
  shows "\<bar>y\<bar> \<le> 999999"
proof -
  define n where "n = t div 86400000"
  have n: "n \<le> 100000000" "- 100000001 \<le> n"
    using assms(1) div_lower [of 86400000 t] div_upper [of 86400000 t]
    unfolding time_value_ok_def n_def [symmetric] by linarith+
  have y: "y = year_of_day n"
    using assms(2) by (simp add: civil_of_day_def n_def [symmetric] Let_def)
  have b: "day_from_year y \<le> n" "n < day_from_year (y + 1)"
    using year_of_day_bounds [of n] by (simp_all add: y)
  have hi: "day_from_year 1000000 > 100000001" and lo: "day_from_year (- 999999) < - 100000001"
    by (simp_all add: day_from_year_def)
  show ?thesis
  proof (rule ccontr)
    assume "\<not> \<bar>y\<bar> \<le> 999999"
    then consider "1000000 \<le> y" | "y + 1 \<le> - 999999" by linarith
    then show False
    proof cases
      case 1
      then show False using day_from_year_mono [OF 1] b n hi by linarith
    next
      case 2
      then show False using day_from_year_mono [OF 2] b n lo by linarith
    qed
  qed
qed

lemma new_date_round_trip: "time_value_ok t \<Longrightarrow> new_date legacy (to_iso_string t) = Some t"
  by (metis new_date_of_iso prod_cases3 time_value_year)

end
