(* ===== verification/Normalize.thy ===== *)
theory Normalize
  imports Iso_Date
begin

text \<open>
  \<open>src/shared/utils/normalize.ts\<close>: the seven expected fields of a raw record, strings
  stripped of control characters and trimmed, the currency upper-cased, the timestamp in
  canonical form and the description truncated.  A field is \<open>None\<close> where JavaScript has
  \<open>undefined\<close>.  \<open>normalizeRecord\<close> throws a \<open>TypeError\<close> on a description that is a number, a
  boolean or an object: \<open>?.slice\<close> guards against \<open>null\<close> only.

  The exceptions of the whole program are declared here, in \<open>exn\<close>.
\<close>

section \<open>Exceptions\<close>

datatype exn =
    TypeError                      \<comment> \<open>a JavaScript TypeError\<close>
  | PrismaKnown string             \<comment> \<open>PrismaClientKnownRequestError and its code\<close>
  | PrismaInit                     \<comment> \<open>PrismaClientInitializationError\<close>
  | PrismaOther                    \<comment> \<open>any other error of the Prisma client\<close>
  | StorageError                   \<comment> \<open>the object store failed\<close>
  | QueueError                     \<comment> \<open>Redis or BullMQ failed\<close>
  | ScorerError                    \<comment> \<open>the worker-thread pool failed\<close>
  | StreamError                    \<comment> \<open>a stream broke while it was read\<close>
  | RetryAborted string            \<comment> \<open>RetryAbortedError\<close>
  | AppError nat string string     \<comment> \<open>AppError: status, code, message\<close>
  | ApiError nat string            \<comment> \<open>ApiError: status, message\<close>

section \<open>normalize.ts\<close>

definition MAX_DESCRIPTION_LENGTH :: nat where
  "MAX_DESCRIPTION_LENGTH = 500"

definition is_control :: "code_unit \<Rightarrow> bool" where
  "is_control c \<longleftrightarrow> c < 32 \<or> c = 127"

definition sanitize_text :: "jsstring \<Rightarrow> jsstring" where
  "sanitize_text s = js_trim (List.filter (\<lambda>c. \<not> is_control c) s)"

fun sanitizeString :: "json option \<Rightarrow> json option" where
  "sanitizeString (Some (JStr s)) = Some (JStr (sanitize_text s))"
| "sanitizeString v = v"

record normalized =
  n_transactionId :: "json option"
  n_accountId :: "json option"
  n_merchantId :: "json option"
  n_amount :: "json option"
  n_currency :: "json option"
  n_timestamp :: "jsstring option"
  n_description :: "json option"

fun normalize_currency :: "json option \<Rightarrow> json option" where
  "normalize_currency (Some (JStr s)) = Some (JStr (js_upper (js_trim s)))"
| "normalize_currency v = v"

text \<open>\<open>sanitizeString(raw.description)?.slice(0, 500)\<close>, unless the field is absent.\<close>

fun normalize_description :: "json option \<Rightarrow> exn + json option" where
  "normalize_description None = Inr None"
| "normalize_description (Some JNull) = Inr None"
| "normalize_description (Some (JStr s)) =
     Inr (Some (JStr (take MAX_DESCRIPTION_LENGTH (sanitize_text s))))"
| "normalize_description (Some (JArr vs)) = Inr (Some (JArr (take MAX_DESCRIPTION_LENGTH vs)))"
| "normalize_description (Some _) = Inl TypeError"

definition normalizeRecord ::
  "(jsstring \<Rightarrow> int option) \<Rightarrow> (jsstring \<times> json) list \<Rightarrow> exn + normalized" where
  "normalizeRecord legacy raw =
     (let field = (\<lambda>k. map_of raw (js k)) in
      case normalize_description (field ''description'') of
        Inl e \<Rightarrow> Inl e
      | Inr d \<Rightarrow>
          Inr \<lparr>n_transactionId = sanitizeString (field ''transactionId''),
               n_accountId = sanitizeString (field ''accountId''),
               n_merchantId = sanitizeString (field ''merchantId''),
               n_amount = field ''amount'',
               n_currency = normalize_currency (field ''currency''),
               n_timestamp = normalizeTimestamp legacy (field ''timestamp''),
               n_description = d\<rparr>)"

section \<open>What normalized text looks like\<close>

text \<open>No control character, no white space at either end.\<close>

definition clean_text :: "jsstring \<Rightarrow> bool" where
  "clean_text s \<longleftrightarrow> list_all (\<lambda>c. \<not> is_control c) s \<and> js_trim s = s"

lemma set_js_trim: "set (js_trim s) \<subseteq> set s"
  unfolding js_trim_def by (auto dest!: set_dropWhileD)

lemma dropWhile_rev_dropWhile:
  assumes "dropWhile P s = s"
  shows "dropWhile P (rev (dropWhile P (rev s))) = rev (dropWhile P (rev s))"
proof (cases s)
  case (Cons x xs)
  with assms have "\<not> P x" by (metis dropWhile.simps(2) length_dropWhile_le impossible_Cons)
  with Cons have "rev (dropWhile P (rev s)) = x # rev (dropWhile P (rev xs)) \<or>
      rev (dropWhile P (rev s)) = [x]"
    by (cases "\<forall>y\<in>set xs. P y") (auto simp: dropWhile_append)
  with \<open>\<not> P x\<close> show ?thesis by auto
qed simp

lemma js_trim_idem [simp]: "js_trim (js_trim s) = js_trim s"
  unfolding js_trim_def
  by (simp add: dropWhile_rev_dropWhile dropWhile_idem comp_def rev_swap)

lemma clean_sanitize: "clean_text (sanitize_text s)"
  using set_js_trim [of "List.filter (\<lambda>c. \<not> is_control c) s"]
  by (auto simp: clean_text_def sanitize_text_def list_all_iff)

lemma sanitize_clean: "clean_text s \<Longrightarrow> sanitize_text s = s"
  by (simp add: clean_text_def sanitize_text_def list_all_iff)

lemma sanitizeString_StrD:
  "sanitizeString v = Some (JStr s) \<Longrightarrow> \<exists>x. v = Some (JStr x) \<and> s = sanitize_text x"
  by (cases v rule: sanitizeString.cases) auto

lemma normalize_description_StrD:
  "normalize_description v = Inr (Some (JStr s)) \<Longrightarrow>
   \<exists>x. v = Some (JStr x) \<and> s = take MAX_DESCRIPTION_LENGTH (sanitize_text x)"
  by (cases v rule: normalize_description.cases) auto

lemma normalizeRecord_throws_iff:
  "normalizeRecord legacy raw = Inl e \<longleftrightarrow>
   e = TypeError \<and>
   (\<exists>v. map_of raw (js ''description'') = Some v \<and>
      ((\<exists>b. v = JBool b) \<or> (\<exists>x. v = JNum x) \<or> (\<exists>ps. v = JObj ps)))"
proof -
  have d: "normalize_description d = Inl e \<longleftrightarrow>
      e = TypeError \<and> (\<exists>v. d = Some v \<and> ((\<exists>b. v = JBool b) \<or> (\<exists>x. v = JNum x) \<or> (\<exists>ps. v = JObj ps)))"
    for d by (cases d rule: normalize_description.cases) auto
  have "normalizeRecord legacy raw = Inl e \<longleftrightarrow>
      normalize_description (map_of raw (js ''description'')) = Inl e"
    unfolding normalizeRecord_def Let_def by (simp split: sum.split)
  then show ?thesis unfolding d .
qed

end
