(* ===== verification/Validation.thy ===== *)
theory Validation
  imports Normalize
begin

text \<open>
  \<open>src/modules/imports/imports.validation.ts\<close> and \<open>src/shared/constants/currencies.ts\<close>:
  \<open>transactionSchema.safeParse\<close> on a normalized record.  A failure is the list of the
  issues in the order of the schema's keys, the first one of each key; the messages the
  code writes itself are kept, Zod's default messages are the parameter \<open>zod_message\<close>.
\<close>

definition SUPPORTED_CURRENCIES :: "string list" where
  "SUPPORTED_CURRENCIES =
     [''USD'', ''EUR'', ''GBP'', ''JPY'', ''CHF'', ''CAD'', ''AUD'', ''NZD'', ''CNY'', ''HKD'',
      ''SGD'', ''SEK'', ''NOK'', ''DKK'', ''PLN'', ''CZK'', ''HUF'', ''RON'', ''INR'', ''BRL'',
      ''MXN'', ''ZAR'', ''TRY'', ''AED'', ''SAR'', ''ILS'', ''KRW'', ''THB'', ''MYR'', ''IDR'',
      ''PHP'', ''VND'', ''PKR'', ''EGP'', ''NGN'', ''KES'', ''ARS'', ''CLP'', ''COP'', ''PEN'']"

definition MAX_ID_LENGTH :: nat where
  "MAX_ID_LENGTH = 200"

datatype zod_issue =
    InvalidType string        \<comment> \<open>the key whose value has the wrong type or is missing\<close>
  | TooSmall string nat
  | TooBig string nat
  | NotPositive string
  | CustomIssue string string  \<comment> \<open>the key and the message written in the schema\<close>

record transaction =
  t_transactionId :: jsstring
  t_accountId :: jsstring
  t_merchantId :: jsstring
  t_amount :: rat
  t_currency :: jsstring
  t_timestamp :: jsstring
  t_description :: "jsstring option"

text \<open>\<open>z.string().min(lo).max(hi)\<close>.\<close>

fun check_text :: "string \<Rightarrow> nat \<Rightarrow> nat \<Rightarrow> json option \<Rightarrow> zod_issue + jsstring" where
  "check_text key lo hi (Some (JStr s)) =
     (if length s < lo then Inl (TooSmall key lo)
      else if hi < length s then Inl (TooBig key hi)
      else Inr s)"
| "check_text key lo hi _ = Inl (InvalidType key)"

text \<open>\<open>z.number().finite().positive()\<close>.\<close>

fun check_amount :: "json option \<Rightarrow> zod_issue + rat" where
  "check_amount (Some (JNum (Fin x))) = (if 0 < x then Inr x else Inl (NotPositive ''amount''))"
| "check_amount _ = Inl (InvalidType ''amount'')"

definition is_currency_code :: "jsstring \<Rightarrow> bool" where
  "is_currency_code s \<longleftrightarrow> length s = 3 \<and> list_all (\<lambda>c. 65 \<le> c \<and> c \<le> 90) s"

fun check_currency :: "json option \<Rightarrow> zod_issue + jsstring" where
  "check_currency (Some (JStr s)) =
     (if \<not> is_currency_code s
      then Inl (CustomIssue ''currency'' ''Currency must be a three-letter uppercase code'')
      else if s \<notin> js ` set SUPPORTED_CURRENCIES
      then Inl (CustomIssue ''currency'' ''Currency must be a supported code'')
      else Inr s)"
| "check_currency _ = Inl (InvalidType ''currency'')"

fun check_timestamp :: "jsstring option \<Rightarrow> zod_issue + jsstring" where
  "check_timestamp (Some s) = Inr s"
| "check_timestamp None = Inl (InvalidType ''timestamp'')"

fun check_description :: "json option \<Rightarrow> zod_issue + jsstring option" where
  "check_description None = Inr None"
| "check_description v =
     (case check_text ''description'' 0 MAX_DESCRIPTION_LENGTH v of
        Inl i \<Rightarrow> Inl i | Inr s \<Rightarrow> Inr (Some s))"

definition issues_of :: "'i + 'a \<Rightarrow> 'i list" where
  "issues_of r = (case r of Inl i \<Rightarrow> [i] | Inr _ \<Rightarrow> [])"

definition transactionSchema_safeParse :: "normalized \<Rightarrow> zod_issue list + transaction" where
  "transactionSchema_safeParse n =
     (let a = check_text ''transactionId'' 1 MAX_ID_LENGTH (n_transactionId n);
          b = check_text ''accountId'' 1 MAX_ID_LENGTH (n_accountId n);
          c = check_text ''merchantId'' 1 MAX_ID_LENGTH (n_merchantId n);
          d = check_amount (n_amount n);
          e = check_currency (n_currency n);
          f = check_timestamp (n_timestamp n);
          g = check_description (n_description n)
      in case (a, b, c, d, e, f, g) of
           (Inr a', Inr b', Inr c', Inr d', Inr e', Inr f', Inr g') \<Rightarrow>
             Inr \<lparr>t_transactionId = a', t_accountId = b', t_merchantId = c', t_amount = d',
                  t_currency = e', t_timestamp = f', t_description = g'\<rparr>
         | _ \<Rightarrow> Inl (issues_of a @ issues_of b @ issues_of c @ issues_of d @ issues_of e
                     @ issues_of f @ issues_of g))"

text \<open>\<open>validation.error.issues[0]?.message || "Validation failed"\<close>.\<close>

definition issue_message :: "(zod_issue \<Rightarrow> string) \<Rightarrow> zod_issue \<Rightarrow> string" where
  "issue_message zod_message i = (case i of CustomIssue _ m \<Rightarrow> m | _ \<Rightarrow> zod_message i)"

definition first_message :: "(zod_issue \<Rightarrow> string) \<Rightarrow> zod_issue list \<Rightarrow> string" where
  "first_message zod_message is =
     (case is of
        [] \<Rightarrow> ''Validation failed''
      | i # _ \<Rightarrow> let m = issue_message zod_message i in if m = [] then ''Validation failed'' else m)"

definition providerIdSchema_ok :: "jsstring \<Rightarrow> bool" where
  "providerIdSchema_ok s \<longleftrightarrow> 1 \<le> length s \<and> length s \<le> 200"

section \<open>What a valid transaction satisfies\<close>

definition valid_id :: "jsstring \<Rightarrow> bool" where
  "valid_id s \<longleftrightarrow> 1 \<le> length s \<and> length s \<le> 200 \<and> clean_text s"

definition valid_transaction :: "transaction \<Rightarrow> bool" where
  "valid_transaction t \<longleftrightarrow>
     valid_id (t_transactionId t) \<and> valid_id (t_accountId t) \<and> valid_id (t_merchantId t) \<and>
     0 < t_amount t \<and> t_currency t \<in> js ` set SUPPORTED_CURRENCIES \<and>
     (\<exists>ms. t_timestamp t = to_iso_string ms) \<and>
     (case t_description t of
        None \<Rightarrow> True
      | Some d \<Rightarrow> length d \<le> 500 \<and> list_all (\<lambda>c. \<not> is_control c) d)"

lemma check_text_InrD:
  "check_text key lo hi v = Inr s \<Longrightarrow> v = Some (JStr s) \<and> lo \<le> length s \<and> length s \<le> hi"
  by (cases "(key, lo, hi, v)" rule: check_text.cases) (auto split: if_splits)

lemma check_amount_InrD: "check_amount v = Inr x \<Longrightarrow> v = Some (JNum (Fin x)) \<and> 0 < x"
  by (cases v rule: check_amount.cases) (auto split: if_splits)

lemma check_currency_InrD:
  "check_currency v = Inr s \<Longrightarrow> v = Some (JStr s) \<and> is_currency_code s \<and>
   s \<in> js ` set SUPPORTED_CURRENCIES"
  by (cases v rule: check_currency.cases) (auto split: if_splits)

lemma check_timestamp_InrD: "check_timestamp v = Inr s \<Longrightarrow> v = Some s"
  by (cases v) auto

lemma check_description_InrD:
  "check_description v = Inr d \<Longrightarrow>
   (v = None \<and> d = None) \<or> (\<exists>s. v = Some (JStr s) \<and> d = Some s \<and> length s \<le> 500)"
  by (cases v) (auto split: sum.splits dest!: check_text_InrD simp: MAX_DESCRIPTION_LENGTH_def)

lemma safeParse_InrE:
  assumes "transactionSchema_safeParse n = Inr t"
  obtains "check_text ''transactionId'' 1 MAX_ID_LENGTH (n_transactionId n) = Inr (t_transactionId t)"
    "check_text ''accountId'' 1 MAX_ID_LENGTH (n_accountId n) = Inr (t_accountId t)"
    "check_text ''merchantId'' 1 MAX_ID_LENGTH (n_merchantId n) = Inr (t_merchantId t)"
    "check_amount (n_amount n) = Inr (t_amount t)"
    "check_currency (n_currency n) = Inr (t_currency t)"
    "check_timestamp (n_timestamp n) = Inr (t_timestamp t)"
    "check_description (n_description n) = Inr (t_description t)"
  using assms by (auto simp: transactionSchema_safeParse_def Let_def split: sum.splits)

lemma safeParse_InlD: "transactionSchema_safeParse n = Inl is \<Longrightarrow> is \<noteq> []"
  by (auto simp: transactionSchema_safeParse_def Let_def issues_of_def split: sum.splits)

lemma sanitized_id_valid:
  "check_text key 1 MAX_ID_LENGTH (sanitizeString v) = Inr s \<Longrightarrow> valid_id s"
  by (auto dest!: check_text_InrD sanitizeString_StrD
      simp: valid_id_def MAX_ID_LENGTH_def clean_sanitize)

lemma normalized_valid:
  assumes n: "normalizeRecord legacy raw = Inr n" and t: "transactionSchema_safeParse n = Inr t"
  shows "valid_transaction t"
proof -
  from n obtain d where
    d: "normalize_description (map_of raw (js ''description'')) = Inr d" and
    n': "n = \<lparr>n_transactionId = sanitizeString (map_of raw (js ''transactionId'')),
      n_accountId = sanitizeString (map_of raw (js ''accountId'')),
      n_merchantId = sanitizeString (map_of raw (js ''merchantId'')),
      n_amount = map_of raw (js ''amount''),
      n_currency = normalize_currency (map_of raw (js ''currency'')),
      n_timestamp = normalizeTimestamp legacy (map_of raw (js ''timestamp'')),
      n_description = d\<rparr>"
    unfolding normalizeRecord_def Let_def by (auto split: sum.splits)
  have desc: "case t_description t of None \<Rightarrow> True
      | Some d \<Rightarrow> length d \<le> 500 \<and> list_all (\<lambda>c. \<not> is_control c) d"
    if c: "check_description d = Inr (t_description t)"
  proof (cases "t_description t")
    case (Some s)
    with check_description_InrD [OF c] have "d = Some (JStr s)" "length s \<le> 500" by auto
    with d obtain x where "s = take MAX_DESCRIPTION_LENGTH (sanitize_text x)"
      using normalize_description_StrD by blast
    with \<open>length s \<le> 500\<close> Some clean_sanitize [of x] show ?thesis
      by (auto simp: clean_text_def list_all_iff dest!: in_set_takeD)
  qed simp
  from t show ?thesis
  proof (rule safeParse_InrE)
    assume *: "check_text ''transactionId'' 1 MAX_ID_LENGTH (n_transactionId n) = Inr (t_transactionId t)"
      "check_text ''accountId'' 1 MAX_ID_LENGTH (n_accountId n) = Inr (t_accountId t)"
      "check_text ''merchantId'' 1 MAX_ID_LENGTH (n_merchantId n) = Inr (t_merchantId t)"
      "check_amount (n_amount n) = Inr (t_amount t)"
      "check_currency (n_currency n) = Inr (t_currency t)"
      "check_timestamp (n_timestamp n) = Inr (t_timestamp t)"
      "check_description (n_description n) = Inr (t_description t)"
    have "\<exists>ms. t_timestamp t = to_iso_string ms"
      using check_timestamp_InrD [OF *(6)] n' by (auto elim: normalizeTimestamp_SomeE)
    then show ?thesis
      using * n' desc sanitized_id_valid check_amount_InrD check_currency_InrD
      by (simp add: valid_transaction_def)
  qed
qed

end
