(* ===== verification/Fingerprint.thy ===== *)
theory Fingerprint
  imports Validation
begin

text \<open>
  \<open>src/shared/utils/fingerprint.ts\<close>.  The hash function is Node's \<open>crypto\<close>: the parameter
  \<open>sha256 :: bytes \<Rightarrow> bytes\<close>.  The lemmas show that two transactions with the same fingerprint
  agree on every fingerprinted field, unless the hash collides or an identifier contains the
  separator \<open>|\<close>.
\<close>

definition FINGERPRINT_VERSION :: int where
  "FINGERPRINT_VERSION = 1"

text \<open>\<open>hash.digest("hex")\<close>.\<close>

definition hex_of_byte :: "8 word \<Rightarrow> jsstring" where
  "hex_of_byte b = [hex_digit (uint b div 16), hex_digit (uint b mod 16)]"

definition hex_string :: "bytes \<Rightarrow> jsstring" where
  "hex_string bs = concat (map hex_of_byte bs)"

definition canonical_fields :: "transaction \<Rightarrow> jsstring list" where
  "canonical_fields t =
     [decimal FINGERPRINT_VERSION, t_transactionId t, t_accountId t, t_merchantId t,
      to_fixed_2 (Fin (t_amount t)), t_currency t, t_timestamp t]"

definition canonical :: "transaction \<Rightarrow> jsstring" where
  "canonical t = join_with 124 (canonical_fields t)"

definition calculateFingerprint :: "(bytes \<Rightarrow> bytes) \<Rightarrow> transaction \<Rightarrow> jsstring" where
  "calculateFingerprint sha256 t = hex_string (sha256 (utf8_encode (canonical t)))"

section \<open>Hexadecimal digests\<close>

lemma hex_digit_inject:
  assumes "0 \<le> a" "a < 16" "0 \<le> b" "b < 16" "hex_digit a = hex_digit b"
  shows "a = b"
proof -
  have "(if a < 10 then 48 + a else 87 + a) = (if b < 10 then 48 + b else 87 + b)"
    using uint_hex_digit [OF assms(1,2)] uint_hex_digit [OF assms(3,4)] assms(5) by metis
  then show ?thesis using assms(1-4) by (auto split: if_splits)
qed

lemma nibbles:
  assumes "0 \<le> n" "n < (256 :: int)"
  shows "0 \<le> n div 16 \<and> n div 16 < 16 \<and> 0 \<le> n mod 16 \<and> n mod 16 < 16"
proof (intro conjI)
  define q where "q = n div 16"
  have "16 * q \<le> n" "n < 16 * q + 16"
    unfolding q_def by (rule div_lower, simp, rule div_upper, simp)
  with assms have "0 \<le> q" "q < 16" by linarith+
  then show "0 \<le> n div 16" "n div 16 < 16" by (simp_all only: q_def)
qed (rule pos_mod_sign pos_mod_bound, simp)+

lemma uint_byte: "0 \<le> uint (b :: 8 word) \<and> uint b < 256"
  using uint_lt2p [of b] by simp

lemmas byte_nibbles = nibbles [OF uint_byte [THEN conjunct1] uint_byte [THEN conjunct2]]

lemma hex_of_byte_inject: "hex_of_byte a = hex_of_byte b \<longleftrightarrow> a = b"
proof
  assume e: "hex_of_byte a = hex_of_byte b"
  have "uint a div 16 = uint b div 16" "uint a mod 16 = uint b mod 16"
    using e byte_nibbles [of a] byte_nibbles [of b]
    by (auto simp: hex_of_byte_def intro: hex_digit_inject)
  then have "uint a = uint b" by (metis div_mult_mod_eq)
  then show "a = b" by (simp only: word_uint_eq_iff)
qed simp

lemma hex_of_byte_length [simp]: "length (hex_of_byte b) = 2"
  by (simp add: hex_of_byte_def)

lemma hex_string_length [simp]: "length (hex_string bs) = 2 * length bs"
  by (induction bs) (simp_all add: hex_string_def)

lemma hex_string_inject: "hex_string as = hex_string bs \<longleftrightarrow> as = bs"
proof
  assume "hex_string as = hex_string bs"
  moreover from this have "length as = length bs" by (metis hex_string_length mult_cancel_left zero_neq_numeral)
  ultimately show "as = bs"
  proof (induction as bs rule: list_induct2')
    case (4 a as b bs)
    then have "hex_of_byte a @ hex_string as = hex_of_byte b @ hex_string bs"
      by (simp add: hex_string_def)
    then have "hex_of_byte a = hex_of_byte b" "hex_string as = hex_string bs" by simp_all
    with 4 show ?case by (simp add: hex_of_byte_inject)
  qed simp_all
qed simp

definition is_hex_digit :: "code_unit \<Rightarrow> bool" where
  "is_hex_digit c \<longleftrightarrow> 48 \<le> c \<and> c \<le> 57 \<or> 97 \<le> c \<and> c \<le> 102"

lemma hex_digit_is_hex: "0 \<le> n \<Longrightarrow> n < 16 \<Longrightarrow> is_hex_digit (hex_digit n)"
  using uint_hex_digit [of n] by (auto simp: is_hex_digit_def word_le_def split: if_splits)

lemma hex_string_hex: "list_all is_hex_digit (hex_string bs)"
  by (induction bs) (simp_all add: hex_string_def hex_of_byte_def hex_digit_is_hex byte_nibbles)

section \<open>The canonical text determines its fields\<close>

abbreviation separator :: code_unit where
  "separator \<equiv> 124"

lemma digit_not_separator: "is_digit c \<Longrightarrow> c \<noteq> separator" "is_digit c \<Longrightarrow> c \<noteq> 46"
  by (auto simp: is_digit_def)

lemma decimal_no_separator [simp]: "0 \<le> n \<Longrightarrow> separator \<notin> set (decimal n)" "0 \<le> n \<Longrightarrow> 46 \<notin> set (decimal n)"
  using decimal_digits digit_not_separator by blast+

lemma digit_0_not [simp]: "digit 0 \<noteq> separator" "digit 0 \<noteq> 46"
  by (simp_all add: digit_def)

lemma pad_zeros_no_separator [simp]:
  "c \<noteq> digit 0 \<Longrightarrow> c \<notin> set s \<Longrightarrow> c \<notin> set (pad_zeros k s)"
  by (auto simp: pad_zeros_def)

text \<open>\<open>toFixed(2)\<close> prints the number of cents, rounded half up.\<close>

definition cents :: "rat \<Rightarrow> int" where
  "cents x = \<lfloor>x * 100 + 1/2\<rfloor>"

lemma cents_nonneg: "0 \<le> x \<Longrightarrow> 0 \<le> cents x"
  by (simp add: cents_def)

lemma insert_point_inject:
  assumes "take (length m - 2) m @ p @ drop (length m - 2) m =
    take (length n - 2) n @ p @ drop (length n - 2) n"
  shows "m = n"
proof -
  have "length m + length p = length n + length p"
    using arg_cong [OF assms, of length] by simp
  then have l: "length m = length n" by simp
  with assms have "take (length m - 2) m = take (length m - 2) n" "drop (length m - 2) m = drop (length m - 2) n"
    by simp_all
  then show ?thesis by (metis append_take_drop_id)
qed

lemma fixed2_pos_inject:
  assumes "0 \<le> x" "0 \<le> y"
  shows "fixed2_pos x = fixed2_pos y \<longleftrightarrow> cents x = cents y"
proof
  assume "fixed2_pos x = fixed2_pos y"
  then have "pad_zeros 3 (decimal (cents x)) = pad_zeros 3 (decimal (cents y))"
    unfolding fixed2_pos_def Let_def cents_def by (rule insert_point_inject)
  then have "digits_value (pad_zeros 3 (decimal (cents x))) = digits_value (pad_zeros 3 (decimal (cents y)))"
    by (rule arg_cong)
  then show "cents x = cents y"
    by (simp only: digits_value_pad digits_value_decimal cents_nonneg assms)
qed (simp add: fixed2_pos_def cents_def)

lemma fixed2_no_separator: "0 \<le> x \<Longrightarrow> separator \<notin> set (fixed2_pos x)"
proof -
  assume "0 \<le> x"
  then have "separator \<notin> set (pad_zeros 3 (decimal (cents x)))"
    by (intro pad_zeros_no_separator) (auto simp: cents_nonneg)
  then show ?thesis
    by (auto simp: fixed2_pos_def Let_def cents_def [symmetric] js_simps dest: in_set_takeD in_set_dropD)
qed

lemma currency_no_separator:
  "s \<in> js ` set SUPPORTED_CURRENCIES \<Longrightarrow> separator \<notin> set s"
  by (auto simp: SUPPORTED_CURRENCIES_def js_simps)

lemma two_digits_no_separator: "0 \<le> n \<Longrightarrow> separator \<notin> set (pad_zeros k (decimal n))"
  by (intro pad_zeros_no_separator) auto

lemma iso_no_separator: "separator \<notin> set (to_iso_string t)"
proof -
  obtain y m d where c: "civil_of_day (t div 86400000) = (y, m, d)" by (metis prod_cases3)
  have "separator \<notin> set (iso_year y)"
    using two_digits_no_separator [of y] two_digits_no_separator [of "- y"]
      two_digits_no_separator [of "\<bar>y\<bar>"]
    by (auto simp: iso_year_def js_simps)
  moreover have "1 \<le> m" "1 \<le> d" using civil_of_day_valid [OF c] by simp_all
  ultimately show ?thesis
    unfolding to_iso_string_text [OF c] iso_text_def
    using time_part_ranges [of t] by (auto simp: two_digits_def two_digits_no_separator js_simps)
qed

definition same_fingerprint_fields :: "transaction \<Rightarrow> transaction \<Rightarrow> bool" where
  "same_fingerprint_fields t u \<longleftrightarrow>
     t_transactionId t = t_transactionId u \<and> t_accountId t = t_accountId u \<and>
     t_merchantId t = t_merchantId u \<and> cents (t_amount t) = cents (t_amount u) \<and>
     t_currency t = t_currency u \<and> t_timestamp t = t_timestamp u"

definition ids_without_separator :: "transaction \<Rightarrow> bool" where
  "ids_without_separator t \<longleftrightarrow>
     separator \<notin> set (t_transactionId t) \<and> separator \<notin> set (t_accountId t) \<and>
     separator \<notin> set (t_merchantId t)"

lemma to_fixed_2_valid:
  "valid_transaction t \<Longrightarrow> t_amount t < 10 ^ 21 \<Longrightarrow>
   to_fixed_2 (Fin (t_amount t)) = fixed2_pos (t_amount t)"
  by (simp add: valid_transaction_def)

lemma canonical_fields_no_separator:
  assumes "valid_transaction t" "t_amount t < 10 ^ 21" "ids_without_separator t"
    and "s \<in> set (canonical_fields t)"
  shows "separator \<notin> set s"
  using assms(3,4) to_fixed_2_valid [OF assms(1,2)] assms(1)
    fixed2_no_separator [of "t_amount t"] currency_no_separator [of "t_currency t"]
  by (auto simp: canonical_fields_def ids_without_separator_def valid_transaction_def
      FINGERPRINT_VERSION_def iso_no_separator simp del: to_fixed_2.simps)

lemma canonical_eq_iff:
  assumes t: "valid_transaction t" "t_amount t < 10 ^ 21" "ids_without_separator t"
    and u: "valid_transaction u" "t_amount u < 10 ^ 21" "ids_without_separator u"
  shows "canonical t = canonical u \<longleftrightarrow> same_fingerprint_fields t u"
proof -
  have "canonical t = canonical u \<longleftrightarrow> canonical_fields t = canonical_fields u"
    using join_with_inject [of "canonical_fields t" "canonical_fields u" separator]
      canonical_fields_no_separator [OF t] canonical_fields_no_separator [OF u]
    by (auto simp: canonical_def) (auto simp: canonical_fields_def)
  also have "\<dots> \<longleftrightarrow> same_fingerprint_fields t u"
    using to_fixed_2_valid [OF t(1,2)] to_fixed_2_valid [OF u(1,2)] t(1) u(1)
    by (simp add: canonical_fields_def same_fingerprint_fields_def fixed2_pos_inject
        valid_transaction_def del: to_fixed_2.simps)
  finally show ?thesis .
qed

section \<open>Properties\<close>

text \<open>A transaction the properties below are instantiated with.\<close>

definition sample_transaction :: "jsstring \<Rightarrow> jsstring \<Rightarrow> rat \<Rightarrow> transaction" where
  "sample_transaction i a x =
     \<lparr>t_transactionId = i, t_accountId = a, t_merchantId = js ''merchant-7'', t_amount = x,
      t_currency = js ''USD'', t_timestamp = to_iso_string 0, t_description = None\<rparr>"

lemma clean_text_graphic:
  assumes "list_all (\<lambda>c. 33 \<le> c \<and> c < 127) s"
  shows "clean_text s"
proof -
  have n: "\<not> is_js_space c \<and> \<not> is_control c" if "33 \<le> c" "c < 127" for c :: code_unit
    using that by (auto simp: is_js_space_def is_control_def word_le_def word_less_def)
  have d: "dropWhile is_js_space x = x" if "set x \<subseteq> set s" for x
    using that assms n by (cases x) (auto simp: list_all_iff)
  have "js_trim s = s" unfolding js_trim_def by (simp add: d)
  with assms n show ?thesis by (auto simp: clean_text_def list_all_iff)
qed

lemma sample_transaction_valid:
  assumes "list_all (\<lambda>c. 33 \<le> c \<and> c < 127) i" "list_all (\<lambda>c. 33 \<le> c \<and> c < 127) a"
    "i \<noteq> []" "a \<noteq> []" "length i \<le> 200" "length a \<le> 200" "0 < x"
  shows "valid_transaction (sample_transaction i a x)"
  using assms clean_text_graphic [of "js ''merchant-7''"]
  by (auto simp: valid_transaction_def sample_transaction_def valid_id_def clean_text_graphic
      SUPPORTED_CURRENCIES_def js_simps Suc_le_eq)



text \<open>The separator makes the canonical text ambiguous: for every hash, two validated
  transactions with different transaction and account identifiers share one fingerprint,
  because \<open>|\<close> is allowed inside identifiers.\<close>

theorem fingerprint_ambiguous_with_separator:
  "\<exists>t u. valid_transaction t \<and> valid_transaction u \<and>
     t_transactionId t \<noteq> t_transactionId u \<and> t_accountId t \<noteq> t_accountId u \<and>
     (\<forall>sha256. calculateFingerprint sha256 t = calculateFingerprint sha256 u)"
proof (intro exI conjI allI)
  let ?t = "sample_transaction (js ''a|b'') (js ''c'') 10"
  let ?u = "sample_transaction (js ''a'') (js ''b|c'') 10"
  show "valid_transaction ?t" "valid_transaction ?u"
    by (rule sample_transaction_valid, simp_all add: js_simps)+
  show "t_transactionId ?t \<noteq> t_transactionId ?u" "t_accountId ?t \<noteq> t_accountId ?u"
    by (simp_all add: sample_transaction_def js_simps)
  show "calculateFingerprint sha256 ?t = calculateFingerprint sha256 ?u" for sha256
    by (simp add: calculateFingerprint_def canonical_def canonical_fields_def sample_transaction_def
        js_simps)
qed

end
