(* ===== verification/Risk.thy ===== *)
theory Risk
  imports Fingerprint
begin

text \<open>
  \<open>src/shared/utils/riskScore.ts\<close> and \<open>src/shared/adapters/riskScoreWorker.ts\<close>, in double
  arithmetic.  Two functions are parameters: \<open>sha256\<close>, Node's hash, and \<open>log10\<close>, which
  ECMAScript leaves "implementation-approximated"; what the code relies on is \<open>log10_ok\<close>.
  The lemmas bound every intermediate sum and show that the score is an integer between 0
  and 100 that grows with each of its five factors.
\<close>

record risk_input =
  ri_amount :: rat
  ri_descriptionLength :: nat
  ri_transactionHourUtc :: jsnum
  ri_merchantId :: jsstring
  ri_fingerprint :: jsstring

datatype risk_level = Low | Medium | High

definition CPU_SIMULATION_ITERATIONS :: nat where
  "CPU_SIMULATION_ITERATIONS = 500"

text \<open>\<open>readUInt32BE(0)\<close>; a digest has 32 bytes, so the read never leaves the buffer.\<close>

definition readUInt32BE :: "bytes \<Rightarrow> int" where
  "readUInt32BE bs = foldl (\<lambda>a b. 256 * a + uint b) 0 (take 4 bs)"

definition hashToPercent :: "(bytes \<Rightarrow> bytes) \<Rightarrow> jsstring \<Rightarrow> jsnum" where
  "hashToPercent sha256 v =
     js_mul (js_div (Fin (of_int (readUInt32BE (sha256 (utf8_encode v))))) (Fin 0xffffffff)) (Fin 100)"

definition simulateCpuBoundWork :: "(bytes \<Rightarrow> bytes) \<Rightarrow> jsstring \<Rightarrow> bytes" where
  "simulateCpuBoundWork sha256 seed =
     (sha256 ^^ CPU_SIMULATION_ITERATIONS) (sha256 (utf8_encode seed))"

definition amountFactor :: "(jsnum \<Rightarrow> jsnum) \<Rightarrow> rat \<Rightarrow> jsnum" where
  "amountFactor log10 amount =
     js_min (Fin 100)
       (js_mul (js_div (log10 (js_add (Fin amount) (Fin 1))) (log10 (Fin 50000))) (Fin 100))"

definition hourFactor :: "jsnum \<Rightarrow> jsnum" where
  "hourFactor h = (if js_less h (Fin 5) then Fin 100 else Fin 20)"

definition descriptionFactor :: "nat \<Rightarrow> jsnum" where
  "descriptionFactor len =
     js_max (Fin 0) (js_sub (Fin 100) (js_mul (js_div (Fin (of_nat len)) (Fin 40)) (Fin 100)))"

definition weighted :: "jsnum \<Rightarrow> jsnum \<Rightarrow> jsnum \<Rightarrow> jsnum \<Rightarrow> jsnum \<Rightarrow> jsnum" where
  "weighted amount hour description merchant fingerprint =
     js_add (js_add (js_add (js_add
       (js_mul amount (fl (35 / 100)))
       (js_mul hour (fl (15 / 100))))
       (js_mul description (fl (15 / 100))))
       (js_mul merchant (fl (25 / 100))))
       (js_mul fingerprint (fl (1 / 10)))"

definition calculateRiskScore :: "(jsnum \<Rightarrow> jsnum) \<Rightarrow> (bytes \<Rightarrow> bytes) \<Rightarrow> risk_input \<Rightarrow> jsnum" where
  "calculateRiskScore log10 sha256 input =
     (let w = weighted (amountFactor log10 (ri_amount input))
                (hourFactor (ri_transactionHourUtc input))
                (descriptionFactor (ri_descriptionLength input))
                (hashToPercent sha256 (ri_merchantId input))
                (hashToPercent sha256 (ri_fingerprint input));
          work = simulateCpuBoundWork sha256 (ri_fingerprint input)
      in js_round (js_min (Fin 100) (js_max (Fin 0) w)))"

definition riskLevelFor :: "jsnum \<Rightarrow> risk_level" where
  "riskLevelFor score =
     (if js_less score (Fin 40) then Low else if js_less score (Fin 70) then Medium else High)"

definition riskScoreBatchTask ::
  "(jsnum \<Rightarrow> jsnum) \<Rightarrow> (bytes \<Rightarrow> bytes) \<Rightarrow> risk_input list \<Rightarrow> (jsnum \<times> risk_level) list" where
  "riskScoreBatchTask log10 sha256 batch =
     map (\<lambda>input. let score = calculateRiskScore log10 sha256 input in (score, riskLevelFor score)) batch"

section \<open>The order of numbers\<close>

fun js_le :: "jsnum \<Rightarrow> jsnum \<Rightarrow> bool" where
  "js_le NaN _ = False"
| "js_le _ NaN = False"
| "js_le NegInf _ = True"
| "js_le _ PosInf = True"
| "js_le (Fin x) (Fin y) = (x \<le> y)"
| "js_le _ _ = False"

lemma js_le_refl: "x \<noteq> NaN \<Longrightarrow> js_le x x"
  by (cases x) auto

lemma js_le_trans: "js_le x y \<Longrightarrow> js_le y z \<Longrightarrow> js_le x z"
  by (cases x; cases y; cases z) auto

lemma js_le_not_NaN: "js_le x y \<Longrightarrow> x \<noteq> NaN \<and> y \<noteq> NaN"
  by (cases x; cases y) auto

lemma js_le_between: "js_le (Fin a) x \<Longrightarrow> js_le x (Fin b) \<Longrightarrow> \<exists>r. x = Fin r \<and> a \<le> r \<and> r \<le> b"
  by (cases x) auto

lemma fl_alt:
  "fl x = (if \<bar>round_double x\<bar> < double_limit then Fin (round_double x)
           else if x < 0 then NegInf else PosInf)"
  using round_pos_nonneg [of x] round_pos_nonneg [of "- x"]
  by (auto simp: fl_def round_double_def double_limit_def)

lemma fl_mono_le: "x \<le> y \<Longrightarrow> js_le (fl x) (fl y)"
  using round_double_mono [of x y] round_double_mono [of y 0] round_double_mono [of 0 x]
  by (cases "x < 0"; cases "y < 0") (auto simp: fl_alt round_double_def [of 0] abs_if split: if_splits)

lemma js_le_fl_int: "of_int a \<le> x \<Longrightarrow> \<bar>a\<bar> \<le> 2 ^ 53 \<Longrightarrow> js_le (Fin (of_int a)) (fl x)"
  using fl_mono_le [of "of_int a" x] by (simp add: fl_of_int)

lemma js_le_int_fl: "x \<le> of_int b \<Longrightarrow> \<bar>b\<bar> \<le> 2 ^ 53 \<Longrightarrow> js_le (fl x) (Fin (of_int b))"
  using fl_mono_le [of x "of_int b"] by (simp add: fl_of_int)

lemma fl_not_NaN [simp]: "fl x \<noteq> NaN"
  by (simp add: fl_alt)

lemma js_le_inf [simp]: "js_le NegInf x \<longleftrightarrow> x \<noteq> NaN" "js_le x PosInf \<longleftrightarrow> x \<noteq> NaN"
  by (cases x; simp)+

lemma js_le_add: "js_le x y \<Longrightarrow> js_le u v \<Longrightarrow> is_finite_num u \<Longrightarrow> is_finite_num v \<Longrightarrow>
   js_le (js_add x u) (js_add y v)"
  by (cases x; cases y; cases u; cases v) (auto intro!: fl_mono_le add_mono)

lemma js_le_div: "js_le x y \<Longrightarrow> 0 < d \<Longrightarrow> js_le (js_div x (Fin d)) (js_div y (Fin d))"
  by (cases x; cases y)
    (auto intro!: fl_mono_le divide_right_mono simp: js_inf_def)

lemma js_le_mul: "js_le x y \<Longrightarrow> 0 < d \<Longrightarrow> js_le (js_mul x (Fin d)) (js_mul y (Fin d))"
  by (cases x; cases y)
    (auto intro!: fl_mono_le mult_right_mono simp: js_inf_def)

lemma js_le_min: "js_le x y \<Longrightarrow> js_le (js_min (Fin c) x) (js_min (Fin c) y)"
  by (cases x; cases y) (auto simp: js_min_def)

lemma js_le_max: "js_le x y \<Longrightarrow> js_le (js_max (Fin c) x) (js_max (Fin c) y)"
  by (cases x; cases y) (auto simp: js_max_def)

lemma js_le_round: "js_le x y \<Longrightarrow> js_le (js_round x) (js_round y)"
  by (cases x; cases y) (auto intro: floor_mono)

text \<open>Two numbers between 0 and \<open>n\<close>, in order.\<close>

definition le_upto :: "int \<Rightarrow> jsnum \<Rightarrow> jsnum \<Rightarrow> bool" where
  "le_upto n x y \<longleftrightarrow> (\<exists>a b. x = Fin a \<and> y = Fin b \<and> 0 \<le> a \<and> a \<le> b \<and> b \<le> of_int n)"

lemma le_upto_js_le: "le_upto n x y \<Longrightarrow> js_le x y"
  by (auto simp: le_upto_def)

lemma le_uptoI: "js_le (Fin 0) x \<Longrightarrow> js_le x y \<Longrightarrow> js_le y (Fin (of_int n)) \<Longrightarrow> le_upto n x y"
  by (cases x; cases y) (auto simp: le_upto_def)

lemma le_upto_fl:
  assumes "0 \<le> x" "x \<le> y" "y \<le> of_int n" "n \<le> 2 ^ 53"
  shows "le_upto n (fl x) (fl y)"
proof (rule le_uptoI)
  have "0 \<le> n" using assms(1,2,3) by linarith
  then show "js_le (fl y) (Fin (of_int n))" using assms by (intro js_le_int_fl) auto
  show "js_le (Fin 0) (fl x)" using assms(1) js_le_fl_int [of 0 x] by simp
qed (rule fl_mono_le [OF assms(2)])

lemma le_upto_add:
  "le_upto m x y \<Longrightarrow> le_upto n u v \<Longrightarrow> m + n \<le> 2 ^ 53 \<Longrightarrow> le_upto (m + n) (js_add x u) (js_add y v)"
  by (auto simp: le_upto_def [of m] le_upto_def [of n] intro!: le_upto_fl add_mono)

lemma le_upto_scale:
  assumes "le_upto n x y" "w = Fin c" "0 \<le> c" "c \<le> 1" "n \<le> 2 ^ 53"
  shows "le_upto n (js_mul x w) (js_mul y w)"
proof -
  from assms(1) obtain a b where "x = Fin a" "y = Fin b" "0 \<le> a" "a \<le> b" "b \<le> of_int n"
    by (auto simp: le_upto_def)
  moreover from this assms have "b * c \<le> of_int n * 1" by (intro mult_mono) auto
  ultimately show ?thesis using assms by (auto intro!: le_upto_fl mult_right_mono)
qed

section \<open>The factors\<close>

text \<open>What the code relies on of \<open>Math.log10\<close>: it is not negative from 1 on, it never
  decreases there, and it is a positive number at 50,000.\<close>

definition log10_ok :: "(jsnum \<Rightarrow> jsnum) \<Rightarrow> bool" where
  "log10_ok log10 \<longleftrightarrow>
     (\<exists>d > 0. log10 (Fin 50000) = Fin d) \<and>
     (\<forall>x y. js_le (Fin 1) x \<longrightarrow> js_le x y \<longrightarrow> js_le (Fin 0) (log10 x) \<and> js_le (log10 x) (log10 y))"

lemma weight_ranges:
  "\<exists>c. fl (35 / 100) = Fin c \<and> 0 \<le> c \<and> c \<le> 1" "\<exists>c. fl (15 / 100) = Fin c \<and> 0 \<le> c \<and> c \<le> 1"
  "\<exists>c. fl (25 / 100) = Fin c \<and> 0 \<le> c \<and> c \<le> 1" "\<exists>c. fl (1 / 10) = Fin c \<and> 0 \<le> c \<and> c \<le> 1"
  using fl_bounds [of 0 "35 / 100" 1] fl_bounds [of 0 "15 / 100" 1] fl_bounds [of 0 "25 / 100" 1]
    fl_bounds [of 0 "1 / 10" 1] by auto

lemma weighted_mono:
  assumes "le_upto 100 a a'" "le_upto 100 h h'" "le_upto 100 d d'" "le_upto 100 m m'" "le_upto 100 f f'"
  shows "le_upto 500 (weighted a h d m f) (weighted a' h' d' m' f')"
proof -
  have s: "le_upto 100 (js_mul x w) (js_mul y w)"
    if "le_upto 100 x y" "\<exists>c. w = Fin c \<and> 0 \<le> c \<and> c \<le> 1" for x y w
    using that le_upto_scale [of 100 x y w] by auto
  have "le_upto (100 + 100 + 100 + 100 + 100) (weighted a h d m f) (weighted a' h' d' m' f')"
    unfolding weighted_def using assms by (intro le_upto_add s weight_ranges) simp_all
  then show ?thesis by simp
qed

lemma amountFactor_mono:
  assumes "log10_ok log10" "0 \<le> x" "x \<le> y"
  shows "le_upto 100 (amountFactor log10 x) (amountFactor log10 y)"
proof (rule le_uptoI)
  from assms(1) obtain d where d: "0 < d" "log10 (Fin 50000) = Fin d" by (auto simp: log10_ok_def)
  have one: "js_le (Fin 1) (js_add (Fin x) (Fin 1))"
    using assms(2) js_le_fl_int [of 1 "x + 1"] by simp
  have xy: "js_le (js_add (Fin x) (Fin 1)) (js_add (Fin y) (Fin 1))"
    using assms(3) by (intro js_le_add) auto
  have l: "js_le (Fin 0) (log10 (js_add (Fin x) (Fin 1)))"
    "js_le (log10 (js_add (Fin x) (Fin 1))) (log10 (js_add (Fin y) (Fin 1)))"
    using assms(1) one xy by (auto simp: log10_ok_def)
  show "js_le (amountFactor log10 x) (amountFactor log10 y)"
    unfolding amountFactor_def d(2) by (intro js_le_min js_le_mul js_le_div l d) simp
  have "js_le (js_min (Fin 100) (js_mul (js_div (Fin 0) (Fin d)) (Fin 100))) (amountFactor log10 x)"
    unfolding amountFactor_def d(2) by (intro js_le_min js_le_mul js_le_div l d) simp
  with d(1) show "js_le (Fin 0) (amountFactor log10 x)" by (simp add: fl_def js_min_def)
  have "amountFactor log10 y \<noteq> NaN" using js_le_not_NaN [OF \<open>js_le (amountFactor log10 x) _\<close>] by simp
  then show "js_le (amountFactor log10 y) (Fin (of_int 100))"
    unfolding amountFactor_def
    by (cases "js_mul (js_div (log10 (js_add (Fin y) (Fin 1))) (log10 (Fin 50000))) (Fin 100)")
      (auto simp: js_min_def)
qed

lemma hourFactor_mono: "(js_less h' (Fin 5) \<or> \<not> js_less h (Fin 5)) \<Longrightarrow> le_upto 100 (hourFactor h) (hourFactor h')"
  by (auto simp: hourFactor_def le_upto_def)

lemma descriptionFactor_antimono:
  assumes "m \<le> n"
  shows "le_upto 100 (descriptionFactor n) (descriptionFactor m)"
proof -
  define z where "z k = js_mul (js_div (Fin (of_nat k)) (Fin 40)) (Fin 100)" for k :: nat
  have z: "js_le (z m) (z n)" unfolding z_def using assms by (intro js_le_mul js_le_div) auto
  have "js_le (js_mul (js_div (Fin 0) (Fin 40)) (Fin 100)) (z m)"
    unfolding z_def by (intro js_le_mul js_le_div) auto
  then have z0: "js_le (Fin 0) (z m)" by (simp add: fl_def)
  have s: "js_le (js_sub (Fin 100) v) (js_sub (Fin 100) u)" if "js_le u v" for u v
    using that by (cases u; cases v) (auto simp: js_sub_def intro: fl_mono_le)
  have t: "js_le (js_max (Fin 0) (js_sub (Fin 100) v)) (Fin 100)" if "js_le (Fin 0) v" for v
    using that js_le_int_fl [of "100 - r" 100 for r] 
    by (cases v) (auto simp: js_sub_def js_max_def)
  have u: "js_le (Fin 0) (js_max (Fin 0) (js_sub (Fin 100) v))" if "js_le (Fin 0) v" for v
    using that by (cases v) (auto simp: js_sub_def js_max_def fl_alt)
  show ?thesis
    unfolding descriptionFactor_def z_def [symmetric]
    using z z0 by (intro le_uptoI js_le_max s) (auto intro: t u js_le_trans)
qed

lemma readUInt32BE_range: "0 \<le> readUInt32BE bs \<and> readUInt32BE bs \<le> 0xffffffff"
proof -
  have g: "0 \<le> foldl (\<lambda>a b. 256 * a + uint b) 0 (cs :: bytes) \<and>
      foldl (\<lambda>a b. 256 * a + uint b) 0 cs < 256 ^ length cs" for cs
  proof (induction cs rule: rev_induct)
    case (snoc c cs)
    with uint_byte [of c] show ?case by simp
  qed simp
  have "(256 :: int) ^ length (take 4 bs) \<le> 256 ^ 4" by (intro power_increasing) simp_all
  with g [of "take 4 bs"] show ?thesis by (simp add: readUInt32BE_def)
qed

lemma hashToPercent_range: "le_upto 100 (hashToPercent sha256 v) (hashToPercent sha256 v)"
proof -
  define n where "n = readUInt32BE (sha256 (utf8_encode v))"
  have n: "(0 :: rat) \<le> of_int n" "(of_int n :: rat) \<le> of_int 0xffffffff"
    using readUInt32BE_range [of "sha256 (utf8_encode v)"] unfolding n_def by (simp_all only: of_int_le_iff of_int_0_le_iff)
  have q: "(0 :: rat) \<le> of_int n / 0xffffffff" "(of_int n :: rat) / 0xffffffff \<le> 1"
    using n by simp_all
  then obtain r where r: "fl (of_int n / 0xffffffff) = Fin r" "0 \<le> r" "r \<le> 1"
    using fl_bounds [of 0 "of_int n / 0xffffffff" 1] by auto
  then have "le_upto 100 (fl (r * 100)) (fl (r * 100))" by (intro le_upto_fl) auto
  with r(1) show ?thesis by (simp add: hashToPercent_def n_def [symmetric])
qed

lemma score_mono:
  assumes "le_upto 500 w w'"
  shows "\<exists>m n. js_round (js_min (Fin 100) (js_max (Fin 0) w)) = Fin (of_int m) \<and>
    js_round (js_min (Fin 100) (js_max (Fin 0) w')) = Fin (of_int n) \<and> 0 \<le> m \<and> m \<le> n \<and> n \<le> 100"
proof -
  from assms obtain a b where ab: "w = Fin a" "w' = Fin b" "0 \<le> a" "a \<le> b" by (auto simp: le_upto_def)
  have r: "js_round (js_min (Fin 100) (js_max (Fin 0) (Fin x))) = Fin (of_int \<lfloor>min 100 x + 1/2\<rfloor>)"
    if "0 \<le> x" for x
    using that by (auto simp: js_min_def js_max_def min_def)
  have "0 \<le> \<lfloor>min 100 a + 1/2\<rfloor>" using ab by (auto simp: min_def)
  moreover have "\<lfloor>min 100 a + 1/2\<rfloor> \<le> \<lfloor>min 100 b + 1/2\<rfloor>" using ab by (intro floor_mono) auto
  moreover have "\<lfloor>min 100 b + 1/2\<rfloor> \<le> 100" by (simp add: floor_le_iff min_def)
  ultimately show ?thesis using ab r [of a] r [of b] by auto
qed

lemma weighted_input_mono:
  assumes "log10_ok log10" "0 \<le> ri_amount i" "ri_amount i \<le> ri_amount j"
    and "js_less (ri_transactionHourUtc j) (Fin 5) \<or> \<not> js_less (ri_transactionHourUtc i) (Fin 5)"
    and "ri_descriptionLength j \<le> ri_descriptionLength i"
    and "ri_merchantId i = ri_merchantId j" "ri_fingerprint i = ri_fingerprint j"
  shows "\<exists>m n. calculateRiskScore log10 sha256 i = Fin (of_int m) \<and>
     calculateRiskScore log10 sha256 j = Fin (of_int n) \<and> 0 \<le> m \<and> m \<le> n \<and> n \<le> 100"
  unfolding calculateRiskScore_def Let_def assms(6,7)
  using assms(1-5)
  by (intro score_mono weighted_mono amountFactor_mono hourFactor_mono descriptionFactor_antimono
      hashToPercent_range)

lemma score_range:
  assumes "log10_ok log10" "0 \<le> ri_amount i"
  obtains n where "calculateRiskScore log10 sha256 i = Fin (of_int n)" "0 \<le> n" "n \<le> 100"
proof -
  from weighted_input_mono [OF assms, of i sha256] that show thesis by auto
qed

section \<open>An integer logarithm\<close>

text \<open>The number of powers of ten up to \<open>x\<close>: a concrete function with \<open>log10_ok\<close>.\<close>

definition floor_log10 :: "jsnum \<Rightarrow> jsnum" where
  "floor_log10 x =
     Fin (of_nat (length (List.filter (\<lambda>k. js_le (Fin (10 ^ k)) x) [1..<19])))"

lemma floor_log10_50000: "floor_log10 (Fin 50000) = Fin 4"
proof -
  have "List.filter (\<lambda>k. js_le (Fin (10 ^ k)) (Fin 50000)) [1..<19] = [1, 2, 3, 4]"
    by (simp add: upt_rec)
  then show ?thesis by (simp add: floor_log10_def)
qed

lemma floor_log10_ok: "log10_ok floor_log10"
  unfolding log10_ok_def
proof (intro conjI allI impI)
  show "\<exists>d > 0. floor_log10 (Fin 50000) = Fin d" using floor_log10_50000 by auto
next
  fix x y assume xy: "js_le x y"
  have "length (List.filter (\<lambda>k. js_le (Fin (10 ^ k)) x) ks) \<le>
      length (List.filter (\<lambda>k. js_le (Fin (10 ^ k)) y) ks)" for ks
    using js_le_trans [OF _ xy] by (induction ks) (auto simp: le_SucI)
  then show "js_le (floor_log10 x) (floor_log10 y)"
    by (simp add: floor_log10_def)
qed (simp add: floor_log10_def)

section \<open>Properties\<close>

text \<open>C40. The score of a transaction is an integer between 0 and 100, and the level written
  beside it is the documented band of that integer: low below 40, medium from 40 to 69, high
  from 70 on.\<close>

theorem risk_score_in_range:
  assumes "log10_ok log10" "0 < ri_amount input"
  shows "\<exists>n. riskScoreBatchTask log10 sha256 [input] = [(Fin (of_int n), riskLevelFor (Fin (of_int n)))] \<and>
     0 \<le> n \<and> n \<le> 100 \<and>
     riskLevelFor (Fin (of_int n)) = (if n < 40 then Low else if n < 70 then Medium else High)"
proof -
  from assms obtain n where n: "calculateRiskScore log10 sha256 input = Fin (of_int n)" "0 \<le> n" "n \<le> 100"
    by (elim score_range [of log10 input sha256]) simp_all
  have "(of_int n :: rat) < 40 \<longleftrightarrow> n < 40" "(of_int n :: rat) < 70 \<longleftrightarrow> n < 70"
    by (metis of_int_less_iff of_int_numeral)+
  with n show ?thesis by (auto simp: riskScoreBatchTask_def riskLevelFor_def Let_def)
qed

theorem risk_score_in_range_witness:
  "\<exists>n. riskScoreBatchTask floor_log10 (\<lambda>b. b)
      [\<lparr>ri_amount = 145, ri_descriptionLength = 8, ri_transactionHourUtc = Fin 3,
        ri_merchantId = js ''m1'', ri_fingerprint = js ''ff''\<rparr>] =
      [(Fin (of_int n), riskLevelFor (Fin (of_int n)))] \<and> 0 \<le> n \<and> n \<le> 100"
  using risk_score_in_range [OF floor_log10_ok,
      of "\<lparr>ri_amount = 145, ri_descriptionLength = 8, ri_transactionHourUtc = Fin 3,
        ri_merchantId = js ''m1'', ri_fingerprint = js ''ff''\<rparr>" "\<lambda>b. b"]
  by auto

text \<open>The order of the levels.\<close>

fun level_rank :: "risk_level \<Rightarrow> nat" where
  "level_rank Low = 0"
| "level_rank Medium = 1"
| "level_rank High = 2"

instantiation risk_level :: linorder
begin

definition less_eq_risk_level :: "risk_level \<Rightarrow> risk_level \<Rightarrow> bool" where
  "less_eq_risk_level a b \<longleftrightarrow> level_rank a \<le> level_rank b"

definition less_risk_level :: "risk_level \<Rightarrow> risk_level \<Rightarrow> bool" where
  "less_risk_level a b \<longleftrightarrow> level_rank a < level_rank b"

instance
proof
  fix a b :: risk_level
  show "a = b" if "a \<le> b" "b \<le> a" using that by (cases a; cases b) (simp_all add: less_eq_risk_level_def)
qed (auto simp: less_eq_risk_level_def less_risk_level_def)

end

lemma riskLevelFor_mono: "js_le x y \<Longrightarrow> riskLevelFor x \<le> riskLevelFor y"
  by (cases x; cases y) (auto simp: riskLevelFor_def less_eq_risk_level_def)

text \<open>The score is monotone in its signals: a larger amount, a shorter description or an
  hour before 05:00 never lowers the score of a transaction of the same merchant and
  fingerprint, nor its level.  The rounding of double arithmetic does not break the order.\<close>

theorem risk_score_monotone:
  assumes "log10_ok log10" "0 < ri_amount i" "ri_amount i \<le> ri_amount j"
    and "js_less (ri_transactionHourUtc j) (Fin 5) \<or> \<not> js_less (ri_transactionHourUtc i) (Fin 5)"
    and "ri_descriptionLength j \<le> ri_descriptionLength i"
    and "ri_merchantId i = ri_merchantId j" "ri_fingerprint i = ri_fingerprint j"
  shows "js_le (calculateRiskScore log10 sha256 i) (calculateRiskScore log10 sha256 j) \<and>
    riskLevelFor (calculateRiskScore log10 sha256 i) \<le> riskLevelFor (calculateRiskScore log10 sha256 j)"
  using weighted_input_mono [of log10 i j sha256] assms riskLevelFor_mono by auto

theorem risk_score_monotone_witness:
  "js_le
     (calculateRiskScore floor_log10 (\<lambda>b. b)
       \<lparr>ri_amount = 20, ri_descriptionLength = 30, ri_transactionHourUtc = Fin 14,
        ri_merchantId = js ''m1'', ri_fingerprint = js ''ff''\<rparr>)
     (calculateRiskScore floor_log10 (\<lambda>b. b)
       \<lparr>ri_amount = 2000, ri_descriptionLength = 0, ri_transactionHourUtc = Fin 2,
        ri_merchantId = js ''m1'', ri_fingerprint = js ''ff''\<rparr>)"
  by (rule risk_score_monotone [OF floor_log10_ok, THEN conjunct1]) simp_all

lemma amountFactor_saturates:
  assumes "log10_ok log10" "50000 \<le> x"
  shows "amountFactor log10 x = Fin 100"
proof -
  from assms(1) obtain d where d: "0 < d" "log10 (Fin 50000) = Fin d"
    and m: "\<And>x y. js_le (Fin 1) x \<Longrightarrow> js_le x y \<Longrightarrow> js_le (log10 x) (log10 y)"
    by (auto simp: log10_ok_def)
  have "js_le (Fin 50000) (js_add (Fin x) (Fin 1))"
    using assms(2) js_le_fl_int [of 50000 "x + 1"] by simp
  then have "js_le (Fin d) (log10 (js_add (Fin x) (Fin 1)))"
    using m [of "Fin 50000"] d(2) by simp
  then have "js_le (js_mul (js_div (Fin d) (Fin d)) (Fin 100))
      (js_mul (js_div (log10 (js_add (Fin x) (Fin 1))) (Fin d)) (Fin 100))"
    by (intro js_le_mul js_le_div d) simp_all
  then have "js_le (Fin 100) (js_mul (js_div (log10 (js_add (Fin x) (Fin 1))) (Fin d)) (Fin 100))"
    using d(1) fl_of_int [of 1] fl_of_int [of 100] by simp
  then show ?thesis
    unfolding amountFactor_def d(2)
    by (cases "js_mul (js_div (log10 (js_add (Fin x) (Fin 1))) (Fin d)) (Fin 100)")
      (auto simp: js_min_def)
qed

lemma descriptionFactor_saturates:
  assumes "40 \<le> n"
  shows "descriptionFactor n = Fin 0"
proof -
  have "js_le (js_mul (js_div (Fin 40) (Fin 40)) (Fin 100)) (js_mul (js_div (Fin (of_nat n)) (Fin 40)) (Fin 100))"
    using assms by (intro js_le_mul js_le_div) auto
  then have z: "js_le (Fin 100) (js_mul (js_div (Fin (of_nat n)) (Fin 40)) (Fin 100))"
    using fl_of_int [of 1] fl_of_int [of 100] by simp
  have "js_le (js_sub (Fin 100) v) (Fin 0)" if v: "js_le (Fin 100) v" for v
  proof (cases v)
    case (Fin r)
    with v have "js_le (fl (100 - r)) (fl 0)" by (intro fl_mono_le) simp
    with Fin show ?thesis by (simp add: js_sub_def fl_def [of 0])
  qed (use v in \<open>simp_all add: js_sub_def\<close>)
  from this [OF z] show ?thesis
    unfolding descriptionFactor_def
    by (cases "js_sub (Fin 100) (js_mul (js_div (Fin (of_nat n)) (Fin 40)) (Fin 100))")
      (auto simp: js_max_def)
qed

text \<open>Both tapering factors saturate where the documentation says: amounts of at least
  50,000 all contribute the maximum, descriptions of 40 and more code units contribute
  nothing.\<close>

theorem risk_factors_saturate:
  assumes "log10_ok log10" "50000 \<le> x" "40 \<le> n"
  shows "amountFactor log10 x = Fin 100 \<and> descriptionFactor n = Fin 0"
  using assms amountFactor_saturates descriptionFactor_saturates by simp

theorem risk_factors_saturate_witness:
  "amountFactor floor_log10 50001 = Fin 100 \<and> descriptionFactor 41 = Fin 0"
  by (rule risk_factors_saturate [OF floor_log10_ok]) simp_all

end
