(* ===== verification/Ndjson.thy ===== *)
theory Ndjson
  imports Js_String
begin

text \<open>
  \<open>src/shared/utils/ndjsonLines.ts\<close>: the splitting of a byte stream into lines.  The
  generator's local variables are a \<open>reader\<close>; \<open>drain\<close> is the inner \<open>while\<close>, \<open>feed\<close> the body of
  the \<open>for await\<close> loop, \<open>final_line\<close> what follows it.  A stream is the list of its chunks and
  whether it breaks after them, in which case the generator throws instead of ending.

  The reference is \<open>reference_lines\<close> over the newline-separated segments of the whole input.
  The lemmas show that the chunking does not matter as long as every segment is within
  \<open>MAX_LINE_BYTES\<close>, that offsets and line numbers never skip anything whatever the input, and
  that the buffer is bounded.
\<close>

record parsed_line =
  pl_lineNumber :: int
  pl_raw :: jsstring
  pl_byteOffsetAfter :: int
  pl_oversized :: bool

record reader =
  rd_buffer :: bytes
  rd_byteOffset :: int
  rd_lineNumber :: int

type_synonym byte_stream = "bytes list \<times> bool"

definition MAX_LINE_BYTES :: nat where
  "MAX_LINE_BYTES = 1000000"

abbreviation NEWLINE :: "8 word" where
  "NEWLINE \<equiv> 0x0a"

definition stripTrailingCr :: "bytes \<Rightarrow> bytes" where
  "stripTrailingCr buf = (if buf \<noteq> [] \<and> last buf = 0x0d then butlast buf else buf)"

function drain :: "reader \<Rightarrow> parsed_line list \<times> reader" where
  "drain r =
     (if NEWLINE \<in> set (rd_buffer r)
      then let lineBuf = takeWhile (\<lambda>b. b \<noteq> NEWLINE) (rd_buffer r);
               newlineIndex = length lineBuf;
               r' = \<lparr>rd_buffer = drop (newlineIndex + 1) (rd_buffer r),
                     rd_byteOffset = rd_byteOffset r + int newlineIndex + 1,
                     rd_lineNumber = rd_lineNumber r + 1\<rparr>;
               line = \<lparr>pl_lineNumber = rd_lineNumber r',
                       pl_raw = utf8_decode (stripTrailingCr lineBuf),
                       pl_byteOffsetAfter = rd_byteOffset r',
                       pl_oversized = False\<rparr>
           in (case drain r' of (ls, r'') \<Rightarrow> (line # ls, r''))
      else ([], r))"
  by pat_completeness auto
termination
  by (relation "measure (\<lambda>r. length (rd_buffer r))") (auto intro!: diff_less length_pos_if_in_set)

declare drain.simps [simp del]

definition flush_oversized :: "reader \<Rightarrow> parsed_line list \<times> reader" where
  "flush_oversized r =
     (if MAX_LINE_BYTES < length (rd_buffer r)
      then let r' = \<lparr>rd_buffer = [], rd_byteOffset = rd_byteOffset r + int (length (rd_buffer r)),
                     rd_lineNumber = rd_lineNumber r + 1\<rparr>
           in ([\<lparr>pl_lineNumber = rd_lineNumber r',
                 pl_raw = utf8_decode (take MAX_LINE_BYTES (rd_buffer r)),
                 pl_byteOffsetAfter = rd_byteOffset r',
                 pl_oversized = True\<rparr>], r')
      else ([], r))"

definition feed :: "reader \<Rightarrow> bytes \<Rightarrow> parsed_line list \<times> reader" where
  "feed r chunk =
     (case drain (r\<lparr>rd_buffer := rd_buffer r @ chunk\<rparr>) of
        (ls, r') \<Rightarrow> (case flush_oversized r' of (ls', r'') \<Rightarrow> (ls @ ls', r'')))"

fun feed_all :: "reader \<Rightarrow> bytes list \<Rightarrow> parsed_line list \<times> reader" where
  "feed_all r [] = ([], r)"
| "feed_all r (c # cs) =
     (case feed r c of (ls, r') \<Rightarrow> (case feed_all r' cs of (ls', r'') \<Rightarrow> (ls @ ls', r'')))"

definition final_line :: "reader \<Rightarrow> parsed_line list" where
  "final_line r =
     (if 0 < length (rd_buffer r)
      then [\<lparr>pl_lineNumber = rd_lineNumber r + 1,
             pl_raw = utf8_decode (stripTrailingCr (rd_buffer r)),
             pl_byteOffsetAfter = rd_byteOffset r + int (length (rd_buffer r)),
             pl_oversized = MAX_LINE_BYTES < length (rd_buffer r)\<rparr>]
      else [])"

definition start_reader :: "int \<Rightarrow> int \<Rightarrow> reader" where
  "start_reader startByteOffset startLineNumber =
     \<lparr>rd_buffer = [], rd_byteOffset = startByteOffset, rd_lineNumber = startLineNumber\<rparr>"

text \<open>The lines the generator yields, and whether it throws after them.\<close>

definition parseNdjsonLines :: "byte_stream \<Rightarrow> int \<Rightarrow> int \<Rightarrow> parsed_line list \<times> bool" where
  "parseNdjsonLines stream startByteOffset startLineNumber =
     (case stream of (chunks, breaks) \<Rightarrow>
        case feed_all (start_reader startByteOffset startLineNumber) chunks of
          (ls, r) \<Rightarrow> if breaks then (ls, True) else (ls @ final_line r, False))"

section \<open>The reference\<close>

fun segments :: "bytes \<Rightarrow> bytes list" where
  "segments [] = [[]]"
| "segments (b # bs) =
     (if b = NEWLINE then [] # segments bs
      else (case segments bs of [] \<Rightarrow> [[b]] | s # ss \<Rightarrow> (b # s) # ss))"

definition line_of :: "int \<Rightarrow> int \<Rightarrow> bytes \<Rightarrow> parsed_line" where
  "line_of off n s =
     \<lparr>pl_lineNumber = n, pl_raw = utf8_decode (stripTrailingCr s), pl_byteOffsetAfter = off,
      pl_oversized = False\<rparr>"

fun reference_lines :: "int \<Rightarrow> int \<Rightarrow> bytes list \<Rightarrow> parsed_line list" where
  "reference_lines off n [] = []"
| "reference_lines off n [s] =
     (if s = [] then [] else [line_of (off + int (length s)) (n + 1) s])"
| "reference_lines off n (s # s' # ss) =
     line_of (off + int (length s) + 1) (n + 1) s #
     reference_lines (off + int (length s) + 1) (n + 1) (s' # ss)"

lemma segments_nonempty [simp]: "segments bs \<noteq> []"
  by (cases bs) (auto split: list.split)

lemma segments_no_newline: "NEWLINE \<notin> set bs \<Longrightarrow> segments bs = [bs]"
  by (induction bs) auto

lemma segments_newline: "NEWLINE \<notin> set a \<Longrightarrow> segments (a @ NEWLINE # bs) = a # segments bs"
  by (induction a) auto

lemma split_first_line:
  assumes "NEWLINE \<in> set bs"
  obtains a c where "bs = a @ NEWLINE # c" "NEWLINE \<notin> set a" "takeWhile (\<lambda>b. b \<noteq> NEWLINE) bs = a"
    "drop (length a + 1) bs = c"
proof -
  from split_list_first [OF assms] obtain a c where "bs = a @ NEWLINE # c" "NEWLINE \<notin> set a" by blast
  then show thesis using that [of a c] by (simp add: takeWhile_append takeWhile_eq_all_conv)
qed

subsection \<open>Draining a buffer\<close>

abbreviation complete_lines :: "int \<Rightarrow> int \<Rightarrow> bytes \<Rightarrow> parsed_line list" where
  "complete_lines off n bs \<equiv> fst (drain \<lparr>rd_buffer = bs, rd_byteOffset = off, rd_lineNumber = n\<rparr>)"

lemma drain_no_newline: "NEWLINE \<notin> set (rd_buffer r) \<Longrightarrow> drain r = ([], r)"
  by (simp add: drain.simps)

lemma drain_newline:
  assumes "NEWLINE \<notin> set a"
  shows "drain \<lparr>rd_buffer = a @ NEWLINE # c, rd_byteOffset = off, rd_lineNumber = n\<rparr> =
    (case drain \<lparr>rd_buffer = c, rd_byteOffset = off + int (length a) + 1, rd_lineNumber = n + 1\<rparr> of
       (ls, r) \<Rightarrow> (line_of (off + int (length a) + 1) (n + 1) a # ls, r))"
  using assms
  by (subst drain.simps) (simp add: Let_def takeWhile_append takeWhile_eq_all_conv line_of_def)

lemma buffer_cases [case_names partial line]:
  assumes "NEWLINE \<notin> set bs \<Longrightarrow> P" "\<And>a c. bs = a @ NEWLINE # c \<Longrightarrow> NEWLINE \<notin> set a \<Longrightarrow> P"
  shows P
  using assms split_list_first [of NEWLINE bs] by blast

text \<open>Induction over a buffer, one line at a time.\<close>

lemma buffer_induct [case_names partial line]:
  assumes "\<And>bs. NEWLINE \<notin> set bs \<Longrightarrow> P bs"
    and "\<And>a c. NEWLINE \<notin> set a \<Longrightarrow> P c \<Longrightarrow> P (a @ NEWLINE # c)"
  shows "P bs"
proof (induction bs rule: measure_induct_rule [of length])
  case (less bs)
  show ?case
    by (cases bs rule: buffer_cases) (use assms less in auto)
qed

lemma drain_append:
  "drain \<lparr>rd_buffer = b @ c, rd_byteOffset = off, rd_lineNumber = n\<rparr> =
   (case drain \<lparr>rd_buffer = b, rd_byteOffset = off, rd_lineNumber = n\<rparr> of
      (ls, r) \<Rightarrow> (case drain (r\<lparr>rd_buffer := rd_buffer r @ c\<rparr>) of (ls', r') \<Rightarrow> (ls @ ls', r')))"
proof (induction b arbitrary: off n rule: buffer_induct)
  case (line a b)
  then show ?case by (simp add: drain_newline split: prod.splits)
qed (simp add: drain_no_newline)

text \<open>What is left in the buffer is the last segment.\<close>

lemma drain_rest:
  "rd_buffer (snd (drain \<lparr>rd_buffer = bs, rd_byteOffset = off, rd_lineNumber = n\<rparr>)) = last (segments bs)"
proof (induction bs arbitrary: off n rule: buffer_induct)
  case (line a c)
  then show ?case by (simp add: drain_newline segments_newline split: prod.splits) (metis snd_conv)
qed (simp add: drain_no_newline segments_no_newline)

lemma reference_lines_Cons:
  "ss \<noteq> [] \<Longrightarrow> reference_lines off n (s # ss) =
     line_of (off + int (length s) + 1) (n + 1) s # reference_lines (off + int (length s) + 1) (n + 1) ss"
  by (cases ss) auto

lemma drain_final_reference:
  assumes "list_all (\<lambda>s. length s \<le> MAX_LINE_BYTES) (segments bs)"
    and "drain \<lparr>rd_buffer = bs, rd_byteOffset = off, rd_lineNumber = n\<rparr> = (ls, r)"
  shows "ls @ final_line r = reference_lines off n (segments bs)"
  using assms
proof (induction bs arbitrary: off n ls r rule: buffer_induct)
  case (partial bs)
  then show ?case
    by (auto simp: drain_no_newline segments_no_newline final_line_def line_of_def)
next
  case (line a c)
  then show ?case
    by (auto simp: drain_newline segments_newline reference_lines_Cons split: prod.splits)
qed

subsection \<open>Chunking does not matter\<close>

lemma segments_append: "segments (b @ c) = butlast (segments b) @ segments (last (segments b) @ c)"
proof (induction b rule: buffer_induct)
  case (line a b)
  then show ?case by (simp add: segments_newline)
qed (simp add: segments_no_newline)

lemma last_segment_no_newline: "NEWLINE \<notin> set (last (segments b))"
  by (induction b rule: buffer_induct) (simp_all add: segments_no_newline segments_newline)

lemma last_segment_le:
  assumes "list_all (\<lambda>s. length s \<le> k) (segments (b @ c))"
  shows "length (last (segments b)) \<le> k"
proof -
  have "list_all (\<lambda>s. length s \<le> k) (segments (last (segments b) @ c))"
    using assms by (subst (asm) segments_append) simp
  then show ?thesis
  proof (cases c rule: buffer_cases)
    case (line a d)
    then show ?thesis
      using \<open>list_all _ (segments (last (segments b) @ c))\<close> last_segment_no_newline [of b]
        segments_newline [of "last (segments b) @ a" d] by simp
  qed (use last_segment_no_newline [of b] in \<open>simp add: segments_no_newline\<close>)
qed

lemma feed_all_drain:
  assumes "list_all (\<lambda>s. length s \<le> MAX_LINE_BYTES) (segments (rd_buffer r @ concat cs))"
    and "NEWLINE \<notin> set (rd_buffer r)"
  shows "feed_all r cs = drain (r\<lparr>rd_buffer := rd_buffer r @ concat cs\<rparr>)"
  using assms
proof (induction cs arbitrary: r)
  case Nil
  then show ?case by (simp add: drain_no_newline)
next
  case (Cons c cs)
  obtain b off n where r: "r = \<lparr>rd_buffer = b, rd_byteOffset = off, rd_lineNumber = n\<rparr>" by (cases r)
  obtain ls r' where d: "drain \<lparr>rd_buffer = b @ c, rd_byteOffset = off, rd_lineNumber = n\<rparr> = (ls, r')"
    by (metis surj_pair)
  have l: "rd_buffer r' = last (segments (b @ c))"
    using drain_rest [of "b @ c" off n] d by simp
  have s: "list_all (\<lambda>s. length s \<le> MAX_LINE_BYTES) (segments ((b @ c) @ concat cs))"
    using Cons.prems(1) r by simp
  have f: "feed r c = (ls, r')"
    using last_segment_le [OF s] d l r by (simp add: feed_def flush_oversized_def)
  have "feed_all r' cs = drain (r'\<lparr>rd_buffer := rd_buffer r' @ concat cs\<rparr>)"
  proof (rule Cons.IH)
    show "list_all (\<lambda>s. length s \<le> MAX_LINE_BYTES) (segments (rd_buffer r' @ concat cs))"
      using s unfolding l by (subst (asm) segments_append) simp
  qed (simp add: l last_segment_no_newline)
  then show ?case using drain_append [of "b @ c" "concat cs" off n] d f r by simp
qed

lemma parse_reference:
  assumes "list_all (\<lambda>s. length s \<le> MAX_LINE_BYTES) (segments (concat chunks))"
  shows "parseNdjsonLines (chunks, False) off n = (reference_lines off n (segments (concat chunks)), False)"
proof -
  obtain ls r where d:
    "drain \<lparr>rd_buffer = concat chunks, rd_byteOffset = off, rd_lineNumber = n\<rparr> = (ls, r)"
    by (metis surj_pair)
  then have "feed_all (start_reader off n) chunks = (ls, r)"
    using assms feed_all_drain [of "start_reader off n" chunks] by (simp add: start_reader_def)
  with drain_final_reference [OF assms d] show ?thesis by (simp add: parseNdjsonLines_def)
qed

section \<open>Offsets and line numbers\<close>

text \<open>The lines are numbered consecutively after \<open>n\<close> and end at increasing offsets, from
  \<open>off\<close> to \<open>off'\<close>.\<close>

primrec tracks :: "int \<Rightarrow> int \<Rightarrow> parsed_line list \<Rightarrow> int \<Rightarrow> int \<Rightarrow> bool" where
  "tracks off n [] off' n' \<longleftrightarrow> off = off' \<and> n = n'"
| "tracks off n (l # ls) off' n' \<longleftrightarrow>
     pl_lineNumber l = n + 1 \<and> off < pl_byteOffsetAfter l \<and>
     tracks (pl_byteOffsetAfter l) (n + 1) ls off' n'"

lemma tracks_append:
  "tracks off n ls off1 n1 \<Longrightarrow> tracks off1 n1 ls' off2 n2 \<Longrightarrow> tracks off n (ls @ ls') off2 n2"
  by (induction ls arbitrary: off n) auto

lemma tracks_append_iff:
  "tracks off n (ls @ ls') off' n' \<longleftrightarrow> (\<exists>off1 n1. tracks off n ls off1 n1 \<and> tracks off1 n1 ls' off' n')"
  by (induction ls arbitrary: off n) auto

lemma tracks_mono: "tracks off n ls off' n' \<Longrightarrow> off \<le> off' \<and> n' = n + int (length ls)"
  by (induction ls arbitrary: off n) fastforce+

lemma tracks_last:
  "tracks off n ls off' n' \<Longrightarrow> ls \<noteq> [] \<Longrightarrow>
   pl_byteOffsetAfter (last ls) = off' \<and> pl_lineNumber (last ls) = n' \<and> off < off' \<and> n < n'"
  by (induction ls arbitrary: off n) (auto dest: tracks_mono split: if_splits)

lemma tracks_nth:
  "tracks off n ls off' n' \<Longrightarrow> i < length ls \<Longrightarrow>
   pl_lineNumber (ls ! i) = n + int i + 1 \<and> off < pl_byteOffsetAfter (ls ! i)"
proof (induction ls arbitrary: off n i)
  case (Cons l ls)
  then show ?case by (cases i) (auto dest!: Cons.IH)
qed simp

lemma drain_tracks:
  "drain \<lparr>rd_buffer = bs, rd_byteOffset = off, rd_lineNumber = n\<rparr> = (ls, r) \<Longrightarrow>
   tracks off n ls (rd_byteOffset r) (rd_lineNumber r) \<and>
   rd_byteOffset r + int (length (rd_buffer r)) = off + int (length bs)"
proof (induction bs arbitrary: off n ls r rule: buffer_induct)
  case (line a c)
  then show ?case by (fastforce simp: drain_newline line_of_def split: prod.splits)
qed (auto simp: drain_no_newline)

lemma feed_tracks:
  assumes "feed r c = (ls, r')"
  shows "tracks (rd_byteOffset r) (rd_lineNumber r) ls (rd_byteOffset r') (rd_lineNumber r') \<and>
    rd_byteOffset r' + int (length (rd_buffer r')) =
      rd_byteOffset r + int (length (rd_buffer r)) + int (length c)"
proof -
  obtain b off n where r: "r = \<lparr>rd_buffer = b, rd_byteOffset = off, rd_lineNumber = n\<rparr>" by (cases r)
  obtain ls1 r1 where d: "drain \<lparr>rd_buffer = b @ c, rd_byteOffset = off, rd_lineNumber = n\<rparr> = (ls1, r1)"
    by (metis surj_pair)
  obtain ls2 where f: "flush_oversized r1 = (ls2, r')" "ls = ls1 @ ls2"
    using assms d r by (auto simp: feed_def split: prod.splits)
  have "tracks (rd_byteOffset r1) (rd_lineNumber r1) ls2 (rd_byteOffset r') (rd_lineNumber r') \<and>
      rd_byteOffset r' + int (length (rd_buffer r')) = rd_byteOffset r1 + int (length (rd_buffer r1))"
    using f(1) by (auto simp: flush_oversized_def Let_def split: if_splits)
  with drain_tracks [OF d] f(2) r show ?thesis by (auto intro: tracks_append)
qed

lemma feed_all_tracks:
  "feed_all r cs = (ls, r') \<Longrightarrow>
   tracks (rd_byteOffset r) (rd_lineNumber r) ls (rd_byteOffset r') (rd_lineNumber r') \<and>
   rd_byteOffset r' + int (length (rd_buffer r')) =
     rd_byteOffset r + int (length (rd_buffer r)) + int (length (concat cs))"
proof (induction cs arbitrary: r ls)
  case (Cons c cs)
  obtain ls1 r1 where f: "feed r c = (ls1, r1)" by (metis surj_pair)
  obtain ls2 where g: "feed_all r1 cs = (ls2, r')" "ls = ls1 @ ls2"
    using Cons.prems f by (auto split: prod.splits)
  from feed_tracks [OF f] Cons.IH [OF g(1)] g(2) show ?case by (auto intro: tracks_append)
qed auto

lemma parse_tracks:
  assumes "parseNdjsonLines (chunks, breaks) off n = (ls, b)"
  shows "b = breaks \<and>
    (\<exists>off'. off' \<le> off + int (length (concat chunks)) \<and>
       (\<not> breaks \<longrightarrow> off' = off + int (length (concat chunks))) \<and>
       tracks off n ls off' (n + int (length ls)))"
proof -
  obtain ls1 r where f: "feed_all (start_reader off n) chunks = (ls1, r)" by (metis surj_pair)
  from feed_all_tracks [OF this]
  have t: "tracks off n ls1 (rd_byteOffset r) (rd_lineNumber r)"
    "rd_byteOffset r + int (length (rd_buffer r)) = off + int (length (concat chunks))"
    by (simp_all add: start_reader_def)
  have "tracks (rd_byteOffset r) (rd_lineNumber r) (final_line r)
      (rd_byteOffset r + int (length (rd_buffer r))) (rd_lineNumber r + int (length (final_line r)))"
    by (simp add: final_line_def)
  from tracks_append [OF t(1) this] t assms f tracks_mono [OF t(1)] show ?thesis
    by (auto simp: parseNdjsonLines_def add.assoc split: if_splits intro!: exI [of _ "rd_byteOffset r"])
qed

section \<open>Resuming\<close>

lemma reference_tracks:
  assumes "list_all (\<lambda>s. length s \<le> MAX_LINE_BYTES) (segments bs)"
  shows "tracks off n (reference_lines off n (segments bs)) (off + int (length bs))
    (n + int (length (reference_lines off n (segments bs))))"
proof -
  have "parseNdjsonLines ([bs], False) off n = (reference_lines off n (segments bs), False)"
    using parse_reference [of "[bs]" off n] assms by simp
  from parse_tracks [OF this] show ?thesis by simp
qed

lemma drop_past_line: "drop (Suc (length a) + m) (a @ x # c) = drop m c"
  by (induction a) simp_all

lemma reference_resume:
  assumes "k < length (reference_lines off n (segments bs))"
    and "off' = pl_byteOffsetAfter (reference_lines off n (segments bs) ! k)"
    and "list_all (\<lambda>s. length s \<le> MAX_LINE_BYTES) (segments bs)"
  shows "reference_lines off' (n + int k + 1) (segments (drop (nat (off' - off)) bs)) =
      drop (Suc k) (reference_lines off n (segments bs)) \<and>
    list_all (\<lambda>s. length s \<le> MAX_LINE_BYTES) (segments (drop (nat (off' - off)) bs))"
  using assms
proof (induction bs arbitrary: off n k off' rule: buffer_induct)
  case (partial bs)
  then show ?case by (auto simp: segments_no_newline line_of_def split: if_splits)
next
  case (line a c)
  let ?off = "off + int (length a) + 1"
  let ?L = "reference_lines ?off (n + 1) (segments c)"
  have L: "reference_lines off n (segments (a @ NEWLINE # c)) = line_of ?off (n + 1) a # ?L"
    using line.hyps by (simp add: segments_newline reference_lines_Cons)
  have c: "list_all (\<lambda>s. length s \<le> MAX_LINE_BYTES) (segments c)"
    using line.prems(3) line.hyps by (simp add: segments_newline)
  show ?case
  proof (cases k)
    case 0
    with line.prems(2) L have "off' = ?off" by (simp add: line_of_def)
    then have "drop (nat (off' - off)) (a @ NEWLINE # c) = c" by (simp add: nat_add_distrib)
    with 0 c \<open>off' = ?off\<close> show ?thesis by (simp only: L) simp
  next
    case (Suc j)
    with line.prems L have j: "j < length ?L" "off' = pl_byteOffsetAfter (?L ! j)" by simp_all
    have "?off < off'" using tracks_nth [OF reference_tracks [OF c] j(1)] j(2) by simp
    then have "nat (off' - off) = Suc (length a) + nat (off' - ?off)" by linarith
    then have "drop (nat (off' - off)) (a @ NEWLINE # c) = drop (nat (off' - ?off)) c"
      by (simp only: drop_past_line)
    with line.IH [OF j c] Suc show ?thesis by (simp add: L algebra_simps)
  qed
qed

section \<open>The buffer is bounded\<close>

lemma feed_bounded:
  assumes "feed r c = (ls, r')"
  shows "length (rd_buffer r') \<le> MAX_LINE_BYTES \<and> NEWLINE \<notin> set (rd_buffer r')"
proof -
  obtain b off n where r: "r = \<lparr>rd_buffer = b, rd_byteOffset = off, rd_lineNumber = n\<rparr>" by (cases r)
  obtain ls1 r1 where d: "drain \<lparr>rd_buffer = b @ c, rd_byteOffset = off, rd_lineNumber = n\<rparr> = (ls1, r1)"
    by (metis surj_pair)
  have "NEWLINE \<notin> set (rd_buffer r1)"
    using drain_rest [of "b @ c" off n] d last_segment_no_newline [of "b @ c"] by simp
  with assms d r show ?thesis
    by (auto simp: feed_def flush_oversized_def Let_def split: prod.splits if_splits)
qed

lemma feed_all_bounded:
  "length (rd_buffer r) \<le> MAX_LINE_BYTES \<Longrightarrow> feed_all r cs = (ls, r') \<Longrightarrow>
   length (rd_buffer r') \<le> MAX_LINE_BYTES"
  by (induction cs arbitrary: r ls) (auto dest: feed_bounded split: prod.splits)

section \<open>Properties\<close>



text \<open>Nothing is skipped, on any input and in any chunks: the lines are numbered
  consecutively from the start line, their offsets increase strictly, and when the stream
  ends normally the last offset is the end of the input.  When it breaks, the generator
  throws and the offsets stop at or before the bytes received.\<close>

theorem ndjson_offsets_and_numbers:
  "\<exists>off'. tracks off n (fst (parseNdjsonLines (chunks, breaks) off n)) off'
       (n + int (length (fst (parseNdjsonLines (chunks, breaks) off n)))) \<and>
     snd (parseNdjsonLines (chunks, breaks) off n) = breaks \<and>
     off' \<le> off + int (length (concat chunks)) \<and>
     (off' = off + int (length (concat chunks)) \<or> breaks)"
  using parse_tracks [OF prod.collapse [symmetric], of chunks breaks off n] by auto



text \<open>Memory is bounded: between two chunks the generator never holds more than
  \<open>MAX_LINE_BYTES\<close> bytes, whatever the input.\<close>

theorem ndjson_buffer_bounded:
  "length (rd_buffer (snd (feed_all (start_reader off n) chunks))) \<le> MAX_LINE_BYTES"
  using feed_all_bounded [of "start_reader off n" chunks]
  by (cases "feed_all (start_reader off n) chunks") (simp add: start_reader_def)

text \<open>Over-long lines do depend on the chunks: the same bytes are one line, not flagged
  and above the limit, when they arrive in one chunk, and two lines, the first one flagged
  and cut to the limit, when they arrive in two.\<close>

theorem ndjson_oversized_depends_on_chunks:
  "\<exists>chunks chunks'. concat chunks = concat chunks' \<and>
     map pl_oversized (fst (parseNdjsonLines (chunks, False) 0 0)) = [False] \<and>
     map (\<lambda>l. MAX_LINE_BYTES < length (pl_raw l)) (fst (parseNdjsonLines (chunks, False) 0 0)) = [True] \<and>
     map pl_oversized (fst (parseNdjsonLines (chunks', False) 0 0)) = [True, False]"
proof (intro exI conjI)
  define a :: bytes where "a = replicate (MAX_LINE_BYTES + 1) 0x61"
  have n: "NEWLINE \<notin> set a" and l: "length a = MAX_LINE_BYTES + 1" by (simp_all add: a_def)
  have e: "drain \<lparr>rd_buffer = [], rd_byteOffset = off, rd_lineNumber = k\<rparr> =
      ([], \<lparr>rd_buffer = [], rd_byteOffset = off, rd_lineNumber = k\<rparr>)" for off k
    by (simp add: drain_no_newline)
  have d: "drain \<lparr>rd_buffer = a, rd_byteOffset = 0, rd_lineNumber = 0\<rparr> =
      ([], \<lparr>rd_buffer = a, rd_byteOffset = 0, rd_lineNumber = 0\<rparr>)"
    using n by (simp add: drain_no_newline)
  have f: "drain \<lparr>rd_buffer = [NEWLINE], rd_byteOffset = off, rd_lineNumber = k\<rparr> =
      ([line_of (off + 1) (k + 1) []], \<lparr>rd_buffer = [], rd_byteOffset = off + 1, rd_lineNumber = k + 1\<rparr>)" for off k
    using drain_newline [of "[]" "[]" off k] e by simp
  have g: "drain \<lparr>rd_buffer = a @ [NEWLINE], rd_byteOffset = 0, rd_lineNumber = 0\<rparr> =
      ([line_of (int (length a) + 1) 1 a],
       \<lparr>rd_buffer = [], rd_byteOffset = int (length a) + 1, rd_lineNumber = 1\<rparr>)"
    using drain_newline [OF n, of "[]" 0 0] e by simp
  have one: "parseNdjsonLines ([a @ [NEWLINE]], False) 0 0 = ([line_of (int (length a) + 1) 1 a], False)"
    using g by (simp add: parseNdjsonLines_def start_reader_def feed_def flush_oversized_def final_line_def)
  have last: "last a = 0x61" by (simp add: a_def last_replicate)
  have "utf8_decode a = map ucast a"
    by (rule utf8_decode_ascii) (simp add: a_def list_all_iff)
  with last l have "pl_raw (line_of off k a) = map ucast a" for off k
    by (simp add: line_of_def stripTrailingCr_def)
  with one l show "map pl_oversized (fst (parseNdjsonLines ([a @ [NEWLINE]], False) 0 0)) = [False]"
    "map (\<lambda>l. MAX_LINE_BYTES < length (pl_raw l))
      (fst (parseNdjsonLines ([a @ [NEWLINE]], False) 0 0)) = [True]"
    by (simp_all add: line_of_def)
  show "concat [a @ [NEWLINE]] = concat [a, [NEWLINE]]" by simp
  show "map pl_oversized (fst (parseNdjsonLines ([a, [NEWLINE]], False) 0 0)) = [True, False]"
    using d f l
    by (simp add: parseNdjsonLines_def start_reader_def feed_def flush_oversized_def final_line_def
        Let_def line_of_def)
qed

end
