(* ===== verification/Batch.thy ===== *)
theory Batch
  imports Risk Ndjson
begin

text \<open>
  \<open>validateAndScoreBatch\<close> of \<open>src/modules/imports/imports.processor.ts\<close>: a batch of lines becomes
  accepted transactions, rejected records and the count of non-empty lines.  The code fills
  \<open>accepted\<close> with a zero score, remembers in \<open>toScore\<close> where each entry sits, sends one request
  to the worker pool and writes the scores back by index; \<open>scan_lines\<close>, \<open>score_inputs\<close> and
  \<open>write_scores\<close> are these three phases.

  \<open>third_party\<close> collects the functions that are not under \<open>src/\<close> (or that ECMAScript leaves
  open): the legacy date parser, Zod's default messages, SHA-256, \<open>Math.log10\<close>, random UUIDs,
  the conversion of a number to \<open>Decimal(18,2)\<close> and of a value to \<open>jsonb\<close>, the object store's
  entity tag, its bucket and the byte ranges it serves, the collation of the database, the
  order of its groups and the text of a \<open>Decimal\<close>.

  The reference is \<open>classify\<close>, one line at a time; the lemmas show that the batch code is the
  map of \<open>classify\<close> over the lines, so that batches can be cut anywhere.
\<close>

record third_party =
  tp_legacy_date :: "jsstring \<Rightarrow> int option"
  tp_zod_message :: "zod_issue \<Rightarrow> string"
  tp_sha256 :: "bytes \<Rightarrow> bytes"
  tp_log10 :: "jsnum \<Rightarrow> jsnum"
  tp_uuid :: "nat \<Rightarrow> jsstring"
  tp_decimal :: "rat \<Rightarrow> exn + rat"
  tp_jsonb :: "json \<Rightarrow> exn + json"
  tp_etag :: "bytes \<Rightarrow> jsstring"
  tp_bucket :: jsstring
  tp_range :: "int \<Rightarrow> int \<Rightarrow> bool"   \<comment> \<open>is a range from this offset served, for this size\<close>
  tp_file_uuid :: "nat \<Rightarrow> jsstring"          \<comment> \<open>the results of \<open>randomUUID\<close>\<close>
  tp_collate :: "jsstring \<Rightarrow> nat list"         \<comment> \<open>the sort keys of the database's collation\<close>
  tp_group_order :: "jsstring list \<Rightarrow> jsstring list" \<comment> \<open>the order of the rows of a \<open>GROUP BY\<close>\<close>
  tp_decimal_text :: "rat \<Rightarrow> jsstring"         \<comment> \<open>\<open>Decimal.toString\<close>\<close>

definition BATCH_SIZE :: nat where
  "BATCH_SIZE = 500"

definition MAX_RAW_VALUE_CHARS :: nat where
  "MAX_RAW_VALUE_CHARS = 1000"

record accepted_input =
  ai_providerId :: jsstring
  ai_transactionId :: jsstring
  ai_accountId :: jsstring
  ai_merchantId :: jsstring
  ai_amount :: rat
  ai_currency :: jsstring
  ai_timestamp :: "int option"    \<comment> \<open>a \<open>Date\<close>, \<open>None\<close> where it is invalid\<close>
  ai_description :: "jsstring option"
  ai_fingerprint :: jsstring
  ai_riskScore :: jsnum
  ai_riskLevel :: risk_level

record rejected_input =
  rj_lineNumber :: int
  rj_reasonCode :: string
  rj_message :: string
  rj_rawValue :: json

record score_entry =
  se_acceptedIndex :: nat
  se_input :: risk_input

record batch_state =
  bs_accepted :: "accepted_input list"
  bs_rejected :: "rejected_input list"
  bs_processedCount :: nat
  bs_toScore :: "score_entry list"

definition capRawValue :: "json \<Rightarrow> json" where
  "capRawValue v = capJsonValue (Some v) MAX_RAW_VALUE_CHARS"

text \<open>\<open>timestamp.getUTCHours()\<close>.\<close>

definition utc_hours :: "int option \<Rightarrow> jsnum" where
  "utc_hours d = (case d of Some t \<Rightarrow> Fin (of_int (hour_from_time t)) | None \<Rightarrow> NaN)"

definition reject ::
  "batch_state \<Rightarrow> parsed_line \<Rightarrow> string \<Rightarrow> string \<Rightarrow> json \<Rightarrow> batch_state" where
  "reject b line code message raw =
     b\<lparr>bs_rejected := bs_rejected b @
        [\<lparr>rj_lineNumber = pl_lineNumber line, rj_reasonCode = code, rj_message = message,
          rj_rawValue = raw\<rparr>]\<rparr>"

definition risk_input_of :: "third_party \<Rightarrow> transaction \<Rightarrow> risk_input" where
  "risk_input_of tp t =
     \<lparr>ri_amount = t_amount t,
      ri_descriptionLength = (case t_description t of Some d \<Rightarrow> length d | None \<Rightarrow> 0),
      ri_transactionHourUtc = utc_hours (new_date (tp_legacy_date tp) (t_timestamp t)),
      ri_merchantId = t_merchantId t,
      ri_fingerprint = calculateFingerprint (tp_sha256 tp) t\<rparr>"

definition accepted_of :: "third_party \<Rightarrow> jsstring \<Rightarrow> transaction \<Rightarrow> accepted_input" where
  "accepted_of tp providerId t =
     \<lparr>ai_providerId = providerId, ai_transactionId = t_transactionId t, ai_accountId = t_accountId t,
      ai_merchantId = t_merchantId t, ai_amount = t_amount t, ai_currency = t_currency t,
      ai_timestamp = new_date (tp_legacy_date tp) (t_timestamp t),
      ai_description = t_description t, ai_fingerprint = calculateFingerprint (tp_sha256 tp) t,
      ai_riskScore = Fin 0, ai_riskLevel = Low\<rparr>"

text \<open>One iteration of the loop over the lines.\<close>

definition scan_line :: "third_party \<Rightarrow> jsstring \<Rightarrow> batch_state \<Rightarrow> parsed_line \<Rightarrow> exn + batch_state" where
  "scan_line tp providerId b0 line =
     (if js_trim (pl_raw line) = [] then Inr b0
      else let b = b0\<lparr>bs_processedCount := bs_processedCount b0 + 1\<rparr> in
        case json_parse (pl_raw line) of
          None \<Rightarrow>
            Inr (reject b line
              (if pl_oversized line then ''LINE_TOO_LONG'' else ''INVALID_JSON'')
              (if pl_oversized line then ''Line exceeds the maximum allowed length''
               else ''Line is not valid JSON'')
              (capRawValue (JStr (take MAX_RAW_VALUE_CHARS (pl_raw line)))))
        | Some (JObj raw) \<Rightarrow>
            (case normalizeRecord (tp_legacy_date tp) raw of
               Inl e \<Rightarrow> Inl e
             | Inr normalized \<Rightarrow>
                 (case transactionSchema_safeParse normalized of
                    Inl issues \<Rightarrow>
                      Inr (reject b line ''VALIDATION_FAILED'' (first_message (tp_zod_message tp) issues)
                        (capRawValue (JObj raw)))
                  | Inr t \<Rightarrow>
                      Inr (b\<lparr>bs_toScore := bs_toScore b @
                               [\<lparr>se_acceptedIndex = length (bs_accepted b), se_input = risk_input_of tp t\<rparr>],
                             bs_accepted := bs_accepted b @ [accepted_of tp providerId t]\<rparr>)))
        | Some v \<Rightarrow>
            Inr (reject b line ''INVALID_RECORD'' ''Record must be a JSON object'' (capRawValue v)))"

fun scan_lines ::
  "third_party \<Rightarrow> jsstring \<Rightarrow> batch_state \<Rightarrow> parsed_line list \<Rightarrow> exn + batch_state" where
  "scan_lines tp p b [] = Inr b"
| "scan_lines tp p b (l # ls) =
     (case scan_line tp p b l of Inl e \<Rightarrow> Inl e | Inr b' \<Rightarrow> scan_lines tp p b' ls)"

definition empty_batch :: batch_state where
  "empty_batch = \<lparr>bs_accepted = [], bs_rejected = [], bs_processedCount = 0, bs_toScore = []\<rparr>"

definition score_inputs :: "batch_state \<Rightarrow> risk_input list" where
  "score_inputs b = map se_input (bs_toScore b)"

text \<open>\<open>scores.forEach((result, i) => ...)\<close>.\<close>

fun write_scores ::
  "score_entry list \<Rightarrow> (jsnum \<times> risk_level) list \<Rightarrow> accepted_input list \<Rightarrow> accepted_input list" where
  "write_scores (e # es) ((score, level) # rs) accepted =
     write_scores es rs
       (accepted[se_acceptedIndex e :=
          (accepted ! se_acceptedIndex e)\<lparr>ai_riskScore := score, ai_riskLevel := level\<rparr>])"
| "write_scores _ _ accepted = accepted"

text \<open>The whole method; \<open>scoreBatch\<close> is the call of the worker pool.\<close>

definition validateAndScoreBatch ::
  "third_party \<Rightarrow> (risk_input list \<Rightarrow> ('w, exn, (jsnum \<times> risk_level) list) io) \<Rightarrow>
   parsed_line list \<Rightarrow> jsstring \<Rightarrow>
   ('w, exn, accepted_input list \<times> rejected_input list \<times> nat) io" where
  "validateAndScoreBatch tp scoreBatch lines providerId =
     bind_io (lift_io (scan_lines tp providerId empty_batch lines)) (\<lambda>b.
       if bs_toScore b \<noteq> []
       then bind_io (scoreBatch (score_inputs b)) (\<lambda>scores.
              return_io (write_scores (bs_toScore b) scores (bs_accepted b), bs_rejected b,
                         bs_processedCount b))
       else return_io (bs_accepted b, bs_rejected b, bs_processedCount b))"

section \<open>The reference: one line at a time\<close>

datatype line_class =
    Blank
  | Rejected rejected_input
  | Accepted transaction

definition classify :: "third_party \<Rightarrow> parsed_line \<Rightarrow> exn + line_class" where
  "classify tp line =
     (if js_trim (pl_raw line) = [] then Inr Blank
      else case json_parse (pl_raw line) of
          None \<Rightarrow>
            Inr (Rejected
              (if pl_oversized line
               then \<lparr>rj_lineNumber = pl_lineNumber line, rj_reasonCode = ''LINE_TOO_LONG'',
                     rj_message = ''Line exceeds the maximum allowed length'',
                     rj_rawValue = capRawValue (JStr (take 1000 (pl_raw line)))\<rparr>
               else \<lparr>rj_lineNumber = pl_lineNumber line, rj_reasonCode = ''INVALID_JSON'',
                     rj_message = ''Line is not valid JSON'',
                     rj_rawValue = capRawValue (JStr (take 1000 (pl_raw line)))\<rparr>))
        | Some (JObj raw) \<Rightarrow>
            (case normalizeRecord (tp_legacy_date tp) raw of
               Inl e \<Rightarrow> Inl e
             | Inr normalized \<Rightarrow>
                 (case transactionSchema_safeParse normalized of
                    Inl issues \<Rightarrow>
                      Inr (Rejected \<lparr>rj_lineNumber = pl_lineNumber line,
                        rj_reasonCode = ''VALIDATION_FAILED'',
                        rj_message = first_message (tp_zod_message tp) issues,
                        rj_rawValue = capRawValue (JObj raw)\<rparr>)
                  | Inr t \<Rightarrow> Inr (Accepted t)))
        | Some v \<Rightarrow>
            Inr (Rejected \<lparr>rj_lineNumber = pl_lineNumber line, rj_reasonCode = ''INVALID_RECORD'',
              rj_message = ''Record must be a JSON object'', rj_rawValue = capRawValue v\<rparr>))"

fun classify_all :: "third_party \<Rightarrow> parsed_line list \<Rightarrow> exn + line_class list" where
  "classify_all tp [] = Inr []"
| "classify_all tp (l # ls) =
     (case classify tp l of
        Inl e \<Rightarrow> Inl e
      | Inr c \<Rightarrow> (case classify_all tp ls of Inl e \<Rightarrow> Inl e | Inr cs \<Rightarrow> Inr (c # cs)))"

definition transactions_of :: "line_class list \<Rightarrow> transaction list" where
  "transactions_of cs = List.map_filter (\<lambda>c. case c of Accepted t \<Rightarrow> Some t | _ \<Rightarrow> None) cs"

definition rejections_of :: "line_class list \<Rightarrow> rejected_input list" where
  "rejections_of cs = List.map_filter (\<lambda>c. case c of Rejected r \<Rightarrow> Some r | _ \<Rightarrow> None) cs"

definition scored_by ::
  "(risk_input \<Rightarrow> jsnum \<times> risk_level) \<Rightarrow> third_party \<Rightarrow> jsstring \<Rightarrow> transaction \<Rightarrow> accepted_input" where
  "scored_by score tp p t =
     (accepted_of tp p t)\<lparr>ai_riskScore := fst (score (risk_input_of tp t)),
                          ai_riskLevel := snd (score (risk_input_of tp t))\<rparr>"

definition risk_of :: "third_party \<Rightarrow> risk_input \<Rightarrow> jsnum \<times> risk_level" where
  "risk_of tp i =
     (let score = calculateRiskScore (tp_log10 tp) (tp_sha256 tp) i in (score, riskLevelFor score))"

abbreviation scored :: "third_party \<Rightarrow> jsstring \<Rightarrow> transaction \<Rightarrow> accepted_input" where
  "scored tp \<equiv> scored_by (risk_of tp) tp"

lemma riskScoreBatchTask_map:
  "riskScoreBatchTask (tp_log10 tp) (tp_sha256 tp) xs = map (risk_of tp) xs"
  by (simp add: riskScoreBatchTask_def risk_of_def)

lemma line_class_selectors [simp]:
  "transactions_of [] = []" "rejections_of [] = []"
  "transactions_of (Blank # cs) = transactions_of cs" "rejections_of (Blank # cs) = rejections_of cs"
  "transactions_of (Rejected r # cs) = transactions_of cs"
  "rejections_of (Rejected r # cs) = r # rejections_of cs"
  "transactions_of (Accepted t # cs) = t # transactions_of cs"
  "rejections_of (Accepted t # cs) = rejections_of cs"
  by (simp_all add: transactions_of_def rejections_of_def List.map_filter_simps)

lemma line_class_append [simp]:
  "transactions_of (cs @ ds) = transactions_of cs @ transactions_of ds"
  "rejections_of (cs @ ds) = rejections_of cs @ rejections_of ds"
  by (simp_all add: transactions_of_def rejections_of_def List.map_filter_def)

lemma classify_all_append:
  "classify_all tp (ls @ ls') =
     (case classify_all tp ls of
        Inl e \<Rightarrow> Inl e
      | Inr cs \<Rightarrow> (case classify_all tp ls' of Inl e \<Rightarrow> Inl e | Inr ds \<Rightarrow> Inr (cs @ ds)))"
  by (induction ls) (auto split: sum.splits)

lemma classify_all_length: "classify_all tp ls = Inr cs \<Longrightarrow> length cs = length ls"
  by (induction ls arbitrary: cs) (auto split: sum.splits)

lemma classify_all_take:
  "classify_all tp ls = Inr cs \<Longrightarrow> classify_all tp (take k ls) = Inr (take k cs)"
proof (induction ls arbitrary: cs k)
  case (Cons l ls)
  then show ?case by (cases k) (auto split: sum.splits)
qed simp

lemma classify_all_drop:
  "classify_all tp ls = Inr cs \<Longrightarrow> classify_all tp (drop k ls) = Inr (drop k cs)"
proof (induction ls arbitrary: cs k)
  case (Cons l ls)
  then show ?case by (cases k) (auto split: sum.splits)
qed simp

section \<open>The batch code is the map of the reference\<close>

fun add_class :: "third_party \<Rightarrow> jsstring \<Rightarrow> batch_state \<Rightarrow> line_class \<Rightarrow> batch_state" where
  "add_class tp p b Blank = b"
| "add_class tp p b (Rejected r) =
     b\<lparr>bs_processedCount := bs_processedCount b + 1, bs_rejected := bs_rejected b @ [r]\<rparr>"
| "add_class tp p b (Accepted t) =
     b\<lparr>bs_processedCount := bs_processedCount b + 1,
       bs_toScore := bs_toScore b @
         [\<lparr>se_acceptedIndex = length (bs_accepted b), se_input = risk_input_of tp t\<rparr>],
       bs_accepted := bs_accepted b @ [accepted_of tp p t]\<rparr>"

lemma scan_line_classify:
  "scan_line tp p b l = (case classify tp l of Inl e \<Rightarrow> Inl e | Inr c \<Rightarrow> Inr (add_class tp p b c))"
  by (auto simp: scan_line_def classify_def Let_def reject_def MAX_RAW_VALUE_CHARS_def
      split: option.splits json.splits sum.splits)

lemma scan_lines_classify:
  "scan_lines tp p b ls =
     (case classify_all tp ls of Inl e \<Rightarrow> Inl e | Inr cs \<Rightarrow> Inr (foldl (add_class tp p) b cs))"
  by (induction ls arbitrary: b) (auto simp: scan_line_classify split: sum.splits)

fun entries :: "third_party \<Rightarrow> nat \<Rightarrow> transaction list \<Rightarrow> score_entry list" where
  "entries tp k [] = []"
| "entries tp k (t # ts) = \<lparr>se_acceptedIndex = k, se_input = risk_input_of tp t\<rparr> # entries tp (Suc k) ts"

lemma foldl_add_class:
  "foldl (add_class tp p) b cs =
     b\<lparr>bs_accepted := bs_accepted b @ map (accepted_of tp p) (transactions_of cs),
       bs_rejected := bs_rejected b @ rejections_of cs,
       bs_processedCount := bs_processedCount b + length (transactions_of cs) + length (rejections_of cs),
       bs_toScore := bs_toScore b @ entries tp (length (bs_accepted b)) (transactions_of cs)\<rparr>"
proof (induction cs arbitrary: b)
  case (Cons c cs)
  then show ?case by (cases c) simp_all
qed simp

lemma entries_inputs: "map se_input (entries tp k ts) = map (risk_input_of tp) ts"
  by (induction ts arbitrary: k) simp_all

lemma entries_Nil [simp]: "entries tp k ts = [] \<longleftrightarrow> ts = []"
  by (cases ts) simp_all

lemma write_scores_entries:
  "write_scores (entries tp (length xs) ts) (map (\<lambda>t. score (risk_input_of tp t)) ts)
     (xs @ map (accepted_of tp p) ts) = xs @ map (scored_by score tp p) ts"
proof (induction ts arbitrary: xs)
  case (Cons t ts)
  obtain s l where s: "score (risk_input_of tp t) = (s, l)" by (metis surj_pair)
  have "scored_by score tp p t = (accepted_of tp p t)\<lparr>ai_riskScore := s, ai_riskLevel := l\<rparr>"
    by (simp add: scored_by_def s)
  with Cons.IH [of "xs @ [scored_by score tp p t]"] s show ?case
    by (simp add: list_update_append nth_append)
qed simp

text \<open>What the batch code relies on of the port \<open>RiskScorer\<close>: results in the order of the
  inputs, one for each.\<close>

locale risk_scorer =
  fixes scoreBatch :: "risk_input list \<Rightarrow> ('w, exn, (jsnum \<times> risk_level) list) io"
    and score :: "risk_input \<Rightarrow> jsnum \<times> risk_level"
  assumes in_order: "scoreBatch xs w = (Inr rs, w') \<Longrightarrow> rs = map score xs"
begin

text \<open>The pool is asked at most once, about the accepted transactions in order.\<close>

lemma batch_eq:
  "validateAndScoreBatch tp scoreBatch lines p w =
     (case classify_all tp lines of
        Inl e \<Rightarrow> (Inl e, w)
      | Inr cs \<Rightarrow>
          if transactions_of cs = [] then (Inr ([], rejections_of cs, length (rejections_of cs)), w)
          else (case scoreBatch (map (risk_input_of tp) (transactions_of cs)) w of
              (Inl e, w') \<Rightarrow> (Inl e, w')
            | (Inr rs, w') \<Rightarrow>
                (Inr (map (scored_by score tp p) (transactions_of cs), rejections_of cs,
                      length (transactions_of cs) + length (rejections_of cs)), w')))"
proof (cases "classify_all tp lines")
  case (Inr cs)
  let ?ts = "transactions_of cs"
  have b: "scan_lines tp p empty_batch lines =
      Inr \<lparr>bs_accepted = map (accepted_of tp p) ?ts, bs_rejected = rejections_of cs,
           bs_processedCount = length ?ts + length (rejections_of cs), bs_toScore = entries tp 0 ?ts\<rparr>"
    by (simp add: scan_lines_classify Inr foldl_add_class empty_batch_def)
  have "rs = map (\<lambda>t. score (risk_input_of tp t)) ?ts"
    if "scoreBatch (map (risk_input_of tp) ?ts) w = (Inr rs, w')" for rs w'
    using in_order [OF that] by simp
  with b Inr show ?thesis
    using write_scores_entries [of tp "[]" ?ts score p]
    by (auto simp: validateAndScoreBatch_def bind_io_def score_inputs_def entries_inputs
        split: sum.splits prod.splits)
qed (simp add: validateAndScoreBatch_def bind_io_def scan_lines_classify)

lemma batch_result:
  assumes "validateAndScoreBatch tp scoreBatch lines p w = (Inr (acc, rej, n), w')"
  obtains cs where "classify_all tp lines = Inr cs"
    "acc = map (scored_by score tp p) (transactions_of cs)" "rej = rejections_of cs"
    "n = length acc + length rej"
  using assms by (auto simp: batch_eq split: sum.splits if_splits prod.splits intro: that)

end

section \<open>Properties\<close>

lemma classify_AcceptedD: "classify tp l = Inr (Accepted t) \<Longrightarrow> valid_transaction t"
  by (auto simp: classify_def Let_def split: if_splits option.splits json.splits sum.splits
      intro: normalized_valid)

lemma classify_all_Accepted:
  "classify_all tp ls = Inr cs \<Longrightarrow> t \<in> set (transactions_of cs) \<Longrightarrow> valid_transaction t"
proof (induction ls arbitrary: cs)
  case (Cons l ls)
  then obtain c ds where "classify tp l = Inr c" "classify_all tp ls = Inr ds" "cs = c # ds"
    by (auto split: sum.splits)
  with Cons show ?case by (cases c) (auto dest: classify_AcceptedD)
qed simp

definition REASON_CODES :: "string list" where
  "REASON_CODES = [''LINE_TOO_LONG'', ''INVALID_JSON'', ''INVALID_RECORD'', ''VALIDATION_FAILED'']"

definition stored_rejection_ok :: "parsed_line \<Rightarrow> rejected_input \<Rightarrow> bool" where
  "stored_rejection_ok l r \<longleftrightarrow>
     rj_lineNumber r = pl_lineNumber l \<and> rj_reasonCode r \<in> set REASON_CODES \<and>
     length (json_stringify (rj_rawValue r)) \<le> 6031"

lemma capRawValue_size: "length (json_stringify (capRawValue v)) \<le> 6031"
  using capJsonValue_size [of "Some v" 1000] by (simp add: capRawValue_def MAX_RAW_VALUE_CHARS_def)

lemma classify_RejectedD: "classify tp l = Inr (Rejected r) \<Longrightarrow> stored_rejection_ok l r"
  by (auto simp: classify_def Let_def stored_rejection_ok_def REASON_CODES_def capRawValue_size
      split: if_splits option.splits json.splits sum.splits)


definition no_third_party :: third_party where
  "no_third_party =
     \<lparr>tp_legacy_date = (\<lambda>_. None), tp_zod_message = (\<lambda>_. ''invalid''), tp_sha256 = (\<lambda>b. b),
      tp_log10 = floor_log10, tp_uuid = (\<lambda>n. decimal (int n)), tp_decimal = Inr, tp_jsonb = Inr,
      tp_etag = (\<lambda>_. js ''etag''), tp_bucket = js ''imports'',
      tp_range = (\<lambda>offset size. offset = 0 \<or> offset < size),
      tp_file_uuid = (\<lambda>n. js ''f'' @ decimal (int n)), tp_collate = map (\<lambda>c. nat (uint c)),
      tp_group_order = (\<lambda>cs. cs), tp_decimal_text = (\<lambda>d. decimal_int \<lfloor>d\<rfloor>)\<rparr>"

lemma no_third_party_simps [simp]:
  "tp_legacy_date no_third_party = (\<lambda>_. None)" "tp_uuid no_third_party = (\<lambda>n. decimal (int n))"
  "tp_decimal no_third_party = Inr" "tp_jsonb no_third_party = Inr"
  "tp_log10 no_third_party = floor_log10" "tp_etag no_third_party = (\<lambda>_. js ''etag'')"
  "tp_bucket no_third_party = js ''imports''"
  "tp_range no_third_party = (\<lambda>offset size. offset = 0 \<or> offset < size)"
  "tp_file_uuid no_third_party = (\<lambda>n. js ''f'' @ decimal (int n))"
  "tp_collate no_third_party = map (\<lambda>c. nat (uint c))" "tp_group_order no_third_party = (\<lambda>cs. cs)"
  by (simp_all add: no_third_party_def)


lemma classify_Inl_iff:
  "classify tp line = Inl e \<longleftrightarrow>
     js_trim (pl_raw line) \<noteq> [] \<and>
     (\<exists>raw. json_parse (pl_raw line) = Some (JObj raw) \<and> normalizeRecord (tp_legacy_date tp) raw = Inl e)"
  by (auto simp: classify_def split: option.splits json.splits sum.splits)

text \<open>The only way a line can throw, and with it fail the whole import, is a JSON object
  whose \<open>description\<close> is a number, a boolean or an object: normalization then calls \<open>slice\<close>
  on a value that has none.\<close>

theorem line_throws_iff:
  "classify tp line = Inl e \<longleftrightarrow>
     js_trim (pl_raw line) \<noteq> [] \<and> e = TypeError \<and>
     (\<exists>raw v. json_parse (pl_raw line) = Some (JObj raw) \<and>
        map_of raw (js ''description'') = Some v \<and>
        ((\<exists>b. v = JBool b) \<or> (\<exists>x. v = JNum x) \<or> (\<exists>ps. v = JObj ps)))"
  unfolding classify_Inl_iff normalizeRecord_throws_iff by blast

end
