(* ===== verification/Database.thy ===== *)
theory Database
  imports Batch
begin

text \<open>
  The tables of \<open>prisma/schema.prisma\<close> and the statements the repository runs on them.  A
  table is the list of its rows, in the order they were inserted; a statement or an
  interactive transaction is a function from the database to an error (nothing is changed:
  the rollback) or a result and the new database.  The constraints are those of the schema:
  the unique \<open>idempotencyKey\<close>, \<open>UploadedFile.importId\<close> and \<open>(providerId, transactionId)\<close>, the
  foreign keys to \<open>import\<close>, Prisma's error codes P2002, P2003 and P2025.

  \<open>commit_batch_tx\<close> is the body of \<open>commitBatchOnce\<close> in
  \<open>src/modules/imports/imports.repository.ts\<close>.  \<open>db_ok\<close> is the invariant of the database: its
  constraints, and counters that agree with the stored rows.
\<close>

section \<open>Rows\<close>

datatype import_status = Pending | Processing | Completed | Failed | Cancelling | Cancelled

record import_row =
  im_id :: jsstring
  im_idempotencyKey :: jsstring
  im_providerId :: jsstring
  im_status :: import_status
  im_processedCount :: int
  im_acceptedCount :: int
  im_rejectedCount :: int
  im_duplicateCount :: int
  im_checkpointOffset :: int
  im_checkpointLineNumber :: int
  im_cancelRequested :: bool
  im_failureReason :: "string option"
  im_createdAt :: int
  im_startedAt :: "int option"
  im_completedAt :: "int option"

record file_row =
  uf_id :: jsstring
  uf_importId :: jsstring
  uf_storageBucket :: jsstring
  uf_storageKey :: jsstring
  uf_sizeBytes :: int
  uf_checksum :: jsstring
  uf_originalFilename :: jsstring
  uf_mimeType :: jsstring
  uf_createdAt :: int

record transaction_row =
  tr_id :: jsstring
  tr_importId :: jsstring
  tr_providerId :: jsstring
  tr_transactionId :: jsstring
  tr_accountId :: jsstring
  tr_merchantId :: jsstring
  tr_amount :: rat
  tr_currency :: jsstring
  tr_timestamp :: int
  tr_description :: "jsstring option"
  tr_fingerprint :: jsstring
  tr_riskScore :: jsnum
  tr_riskLevel :: risk_level
  tr_createdAt :: int

record rejected_row =
  rr_id :: jsstring
  rr_importId :: jsstring
  rr_lineNumber :: int
  rr_reasonCode :: string
  rr_message :: string
  rr_rawValue :: json
  rr_createdAt :: int

text \<open>\<open>db_next\<close> numbers the generated identifiers: the \<open>n\<close>-th one is \<open>tp_uuid tp n\<close>.\<close>

record db =
  db_imports :: "import_row list"
  db_files :: "file_row list"
  db_transactions :: "transaction_row list"
  db_rejected :: "rejected_row list"
  db_next :: nat

type_synonym 'a tx = "db \<Rightarrow> exn + ('a \<times> db)"

section \<open>Statements\<close>

definition find_import :: "jsstring \<Rightarrow> db \<Rightarrow> import_row option" where
  "find_import i d = find (\<lambda>r. im_id r = i) (db_imports d)"

definition find_import_by_key :: "jsstring \<Rightarrow> db \<Rightarrow> import_row option" where
  "find_import_by_key k d = find (\<lambda>r. im_idempotencyKey r = k) (db_imports d)"

definition find_file :: "jsstring \<Rightarrow> db \<Rightarrow> file_row option" where
  "find_file i d = find (\<lambda>r. uf_importId r = i) (db_files d)"

text \<open>\<open>import.update({ where: { id }, data })\<close>.\<close>

definition update_import :: "jsstring \<Rightarrow> (import_row \<Rightarrow> import_row) \<Rightarrow> import_row tx" where
  "update_import i f d =
     (case find_import i d of
        None \<Rightarrow> Inl (PrismaKnown ''P2025'')
      | Some r \<Rightarrow>
          Inr (f r, d\<lparr>db_imports := map (\<lambda>r. if im_id r = i then f r else r) (db_imports d)\<rparr>))"

text \<open>\<open>import.create\<close>, with the defaults of the schema.\<close>

definition create_import :: "third_party \<Rightarrow> int \<Rightarrow> jsstring \<Rightarrow> jsstring \<Rightarrow> import_row tx" where
  "create_import tp now idempotencyKey providerId d =
     (if find_import_by_key idempotencyKey d \<noteq> None then Inl (PrismaKnown ''P2002'')
      else let r = \<lparr>im_id = tp_uuid tp (db_next d), im_idempotencyKey = idempotencyKey,
                    im_providerId = providerId, im_status = Pending, im_processedCount = 0,
                    im_acceptedCount = 0, im_rejectedCount = 0, im_duplicateCount = 0,
                    im_checkpointOffset = 0, im_checkpointLineNumber = 0,
                    im_cancelRequested = False, im_failureReason = None, im_createdAt = now,
                    im_startedAt = None, im_completedAt = None\<rparr>
           in Inr (r, d\<lparr>db_imports := db_imports d @ [r], db_next := db_next d + 1\<rparr>))"

text \<open>\<open>uploadedFile.create\<close>.\<close>

definition create_file :: "third_party \<Rightarrow> file_row \<Rightarrow> unit tx" where
  "create_file tp f d =
     (if find_file (uf_importId f) d \<noteq> None then Inl (PrismaKnown ''P2002'')
      else if find_import (uf_importId f) d = None then Inl (PrismaKnown ''P2003'')
      else Inr ((), d\<lparr>db_files := db_files d @ [f\<lparr>uf_id := tp_uuid tp (db_next d)\<rparr>],
                      db_next := db_next d + 1\<rparr>))"

definition transaction_key :: "transaction_row \<Rightarrow> jsstring \<times> jsstring" where
  "transaction_key r = (tr_providerId r, tr_transactionId r)"

text \<open>\<open>createMany({ skipDuplicates: true })\<close>: the rows in order, leaving out each one whose key
  is taken, by an older row or by an earlier one of the same statement.\<close>

fun insert_skip :: "transaction_row list \<Rightarrow> transaction_row list \<Rightarrow> transaction_row list \<times> nat" where
  "insert_skip table [] = (table, 0)"
| "insert_skip table (r # rs) =
     (if transaction_key r \<in> transaction_key ` set table then insert_skip table rs
      else (case insert_skip (table @ [r]) rs of (table', n) \<Rightarrow> (table', n + 1)))"

definition transaction_row_of ::
  "third_party \<Rightarrow> int \<Rightarrow> jsstring \<Rightarrow> nat \<Rightarrow> accepted_input \<Rightarrow> exn + transaction_row" where
  "transaction_row_of tp now importId k t =
     (case ai_timestamp t of
        None \<Rightarrow> Inl PrismaOther
      | Some time \<Rightarrow>
          (case tp_decimal tp (ai_amount t) of
             Inl e \<Rightarrow> Inl e
           | Inr amount \<Rightarrow>
               Inr \<lparr>tr_id = tp_uuid tp k, tr_importId = importId, tr_providerId = ai_providerId t,
                    tr_transactionId = ai_transactionId t, tr_accountId = ai_accountId t,
                    tr_merchantId = ai_merchantId t, tr_amount = amount, tr_currency = ai_currency t,
                    tr_timestamp = time, tr_description = ai_description t,
                    tr_fingerprint = ai_fingerprint t, tr_riskScore = ai_riskScore t,
                    tr_riskLevel = ai_riskLevel t, tr_createdAt = now\<rparr>))"

fun transaction_rows ::
  "third_party \<Rightarrow> int \<Rightarrow> jsstring \<Rightarrow> nat \<Rightarrow> accepted_input list \<Rightarrow> exn + transaction_row list" where
  "transaction_rows tp now importId k [] = Inr []"
| "transaction_rows tp now importId k (t # ts) =
     (case transaction_row_of tp now importId k t of
        Inl e \<Rightarrow> Inl e
      | Inr r \<Rightarrow> (case transaction_rows tp now importId (k + 1) ts of
                     Inl e \<Rightarrow> Inl e | Inr rs \<Rightarrow> Inr (r # rs)))"

definition create_many_transactions ::
  "third_party \<Rightarrow> int \<Rightarrow> jsstring \<Rightarrow> accepted_input list \<Rightarrow> nat tx" where
  "create_many_transactions tp now importId ts d =
     (case transaction_rows tp now importId (db_next d) ts of
        Inl e \<Rightarrow> Inl e
      | Inr rs \<Rightarrow>
          (case insert_skip (db_transactions d) rs of
             (table, n) \<Rightarrow> Inr (n, d\<lparr>db_transactions := table, db_next := db_next d + length rs\<rparr>)))"

fun rejected_rows ::
  "third_party \<Rightarrow> int \<Rightarrow> jsstring \<Rightarrow> nat \<Rightarrow> rejected_input list \<Rightarrow> exn + rejected_row list" where
  "rejected_rows tp now importId k [] = Inr []"
| "rejected_rows tp now importId k (r # rs) =
     (case tp_jsonb tp (rj_rawValue r) of
        Inl e \<Rightarrow> Inl e
      | Inr raw \<Rightarrow>
          (case rejected_rows tp now importId (k + 1) rs of
             Inl e \<Rightarrow> Inl e
           | Inr rows \<Rightarrow>
               Inr (\<lparr>rr_id = tp_uuid tp k, rr_importId = importId, rr_lineNumber = rj_lineNumber r,
                     rr_reasonCode = rj_reasonCode r, rr_message = rj_message r, rr_rawValue = raw,
                     rr_createdAt = now\<rparr> # rows)))"

definition create_many_rejected ::
  "third_party \<Rightarrow> int \<Rightarrow> jsstring \<Rightarrow> rejected_input list \<Rightarrow> unit tx" where
  "create_many_rejected tp now importId rs d =
     (case rejected_rows tp now importId (db_next d) rs of
        Inl e \<Rightarrow> Inl e
      | Inr rows \<Rightarrow>
          Inr ((), d\<lparr>db_rejected := db_rejected d @ rows, db_next := db_next d + length rows\<rparr>))"

section \<open>The batch transaction\<close>

record commit_input =
  ci_acceptedTransactions :: "accepted_input list"
  ci_rejectedRecords :: "rejected_input list"
  ci_processedDelta :: nat
  ci_checkpointOffset :: int
  ci_checkpointLineNumber :: int

record commit_result =
  cr_acceptedCount :: int
  cr_duplicateCount :: int

definition advance_import :: "commit_input \<Rightarrow> int \<Rightarrow> import_row \<Rightarrow> import_row" where
  "advance_import input acceptedCount r =
     r\<lparr>im_processedCount := im_processedCount r + int (ci_processedDelta input),
       im_acceptedCount := im_acceptedCount r + acceptedCount,
       im_rejectedCount := im_rejectedCount r + int (length (ci_rejectedRecords input)),
       im_duplicateCount := im_duplicateCount r +
         (int (length (ci_acceptedTransactions input)) - acceptedCount),
       im_checkpointOffset := ci_checkpointOffset input,
       im_checkpointLineNumber := ci_checkpointLineNumber input\<rparr>"

definition commit_batch_tx ::
  "third_party \<Rightarrow> int \<Rightarrow> jsstring \<Rightarrow> commit_input \<Rightarrow> commit_result tx" where
  "commit_batch_tx tp now importId input d =
     (case find_import importId d of
        None \<Rightarrow> Inl (PrismaKnown ''P2025'')
      | Some current \<Rightarrow>
          if ci_checkpointLineNumber input \<le> im_checkpointLineNumber current
          then Inr (\<lparr>cr_acceptedCount = 0, cr_duplicateCount = 0\<rparr>, d)
          else
            (case (if ci_acceptedTransactions input = [] then Inr (0, d)
                   else create_many_transactions tp now importId (ci_acceptedTransactions input) d) of
               Inl e \<Rightarrow> Inl e
             | Inr (n, d1) \<Rightarrow>
                 (case (if ci_rejectedRecords input = [] then Inr ((), d1)
                        else create_many_rejected tp now importId (ci_rejectedRecords input) d1) of
                    Inl e \<Rightarrow> Inl e
                  | Inr (_, d2) \<Rightarrow>
                      (case update_import importId (advance_import input (int n)) d2 of
                         Inl e \<Rightarrow> Inl e
                       | Inr (_, d3) \<Rightarrow>
                           Inr (\<lparr>cr_acceptedCount = int n,
                                 cr_duplicateCount = int (length (ci_acceptedTransactions input)) - int n\<rparr>,
                                d3)))))"

section \<open>The invariant\<close>

definition transactions_of_import :: "jsstring \<Rightarrow> db \<Rightarrow> transaction_row list" where
  "transactions_of_import i d = List.filter (\<lambda>t. tr_importId t = i) (db_transactions d)"

definition rejected_of_import :: "jsstring \<Rightarrow> db \<Rightarrow> rejected_row list" where
  "rejected_of_import i d = List.filter (\<lambda>t. rr_importId t = i) (db_rejected d)"

definition keys_ok :: "db \<Rightarrow> bool" where
  "keys_ok d \<longleftrightarrow>
     distinct (map im_id (db_imports d)) \<and> distinct (map im_idempotencyKey (db_imports d)) \<and>
     distinct (map uf_importId (db_files d)) \<and> distinct (map transaction_key (db_transactions d))"

definition references_ok :: "db \<Rightarrow> bool" where
  "references_ok d \<longleftrightarrow>
     list_all (\<lambda>t. tr_importId t \<in> im_id ` set (db_imports d)) (db_transactions d) \<and>
     list_all (\<lambda>r. rr_importId r \<in> im_id ` set (db_imports d)) (db_rejected d) \<and>
     list_all (\<lambda>f. uf_importId f \<in> im_id ` set (db_imports d)) (db_files d)"

text \<open>The counters of an import are the numbers of its stored rows, and add up.\<close>

definition counters_ok :: "db \<Rightarrow> import_row \<Rightarrow> bool" where
  "counters_ok d r \<longleftrightarrow>
     im_acceptedCount r = int (length (transactions_of_import (im_id r) d)) \<and>
     im_rejectedCount r = int (length (rejected_of_import (im_id r) d)) \<and>
     im_processedCount r = im_acceptedCount r + im_rejectedCount r + im_duplicateCount r \<and>
     0 \<le> im_duplicateCount r"

text \<open>Identifiers are drawn from the generated ones.\<close>

definition ids_drawn :: "third_party \<Rightarrow> db \<Rightarrow> bool" where
  "ids_drawn tp d \<longleftrightarrow> list_all (\<lambda>r. im_id r \<in> tp_uuid tp ` {..<db_next d}) (db_imports d)"

definition db_ok :: "third_party \<Rightarrow> db \<Rightarrow> bool" where
  "db_ok tp d \<longleftrightarrow> keys_ok d \<and> references_ok d \<and> list_all (counters_ok d) (db_imports d) \<and> ids_drawn tp d"

definition empty_db :: db where
  "empty_db = \<lparr>db_imports = [], db_files = [], db_transactions = [], db_rejected = [], db_next = 0\<rparr>"

lemma empty_db_ok: "db_ok tp empty_db"
  by (simp add: db_ok_def keys_ok_def references_ok_def ids_drawn_def empty_db_def)

section \<open>Lemmas on the statements\<close>

lemma find_import_SomeD: "find_import i d = Some r \<Longrightarrow> r \<in> set (db_imports d) \<and> im_id r = i"
  unfolding find_import_def by (rule find_Some_set)

lemma find_import_None_iff: "find_import i d = None \<longleftrightarrow> i \<notin> im_id ` set (db_imports d)"
  by (auto simp: find_import_def find_None_all)

lemma find_import_by_key_None_iff:
  "find_import_by_key k d = None \<longleftrightarrow> k \<notin> im_idempotencyKey ` set (db_imports d)"
  by (auto simp: find_import_by_key_def find_None_all)

lemma find_file_None_iff: "find_file i d = None \<longleftrightarrow> i \<notin> uf_importId ` set (db_files d)"
  by (auto simp: find_file_def find_None_all)

lemma find_import_in:
  assumes "distinct (map im_id (db_imports d))" "r \<in> set (db_imports d)"
  shows "find_import (im_id r) d = Some r"
proof (cases "find_import (im_id r) d")
  case None
  with assms(2) show ?thesis by (simp add: find_import_None_iff)
next
  case (Some s)
  with find_import_SomeD [OF Some] assms show ?thesis by (auto simp: distinct_map dest: inj_onD)
qed

lemma find_map_id:
  "(\<And>r. im_id (f r) = im_id r) \<Longrightarrow>
   find (\<lambda>r. im_id r = j) (map (\<lambda>r. if im_id r = i then f r else r) rs) =
   map_option (\<lambda>r. if im_id r = i then f r else r) (find (\<lambda>r. im_id r = j) rs)"
  by (induction rs) auto

lemma update_import_InrE:
  assumes "update_import i f d = Inr (r, d')"
  obtains r0 where "find_import i d = Some r0" "r = f r0"
    "d' = d\<lparr>db_imports := map (\<lambda>r. if im_id r = i then f r else r) (db_imports d)\<rparr>"
  using assms by (auto simp: update_import_def split: option.splits)

lemma find_import_update:
  assumes "update_import i f d = Inr (r, d')" "\<And>r. im_id (f r) = im_id r"
  shows "find_import j d' = (if j = i then Some r else find_import j d)"
  using assms(1)
proof (rule update_import_InrE)
  fix r0
  assume r0: "find_import i d = Some r0" "r = f r0"
    "d' = d\<lparr>db_imports := map (\<lambda>r. if im_id r = i then f r else r) (db_imports d)\<rparr>"
  have "find_import j d' = map_option (\<lambda>r. if im_id r = i then f r else r) (find_import j d)"
    using find_map_id [OF assms(2)] by (simp add: find_import_def r0(3))
  with r0 find_import_SomeD [OF r0(1)] show ?thesis
    by (cases "find_import j d") (auto dest: find_import_SomeD)
qed

subsection \<open>Inserting transactions\<close>

text \<open>The rows \<open>insert_skip\<close> really adds.\<close>

definition inserted :: "transaction_row list \<Rightarrow> transaction_row list \<Rightarrow> transaction_row list" where
  "inserted table rs = drop (length table) (fst (insert_skip table rs))"

lemma insert_skip_spec:
  "insert_skip table rs = (table', n) \<Longrightarrow>
   table' = table @ inserted table rs \<and> n = length (inserted table rs) \<and>
   set (inserted table rs) \<subseteq> set rs \<and>
   transaction_key ` set table' = transaction_key ` set table \<union> transaction_key ` set rs \<and>
   (distinct (map transaction_key table) \<longrightarrow> distinct (map transaction_key table'))"
proof (induction table rs arbitrary: table' n rule: insert_skip.induct)
  case (1 table)
  then show ?case by (simp add: inserted_def)
next
  case (2 table r rs)
  show ?case
  proof (cases "transaction_key r \<in> transaction_key ` set table")
    case True
    then have e: "inserted table (r # rs) = inserted table rs" by (simp add: inserted_def)
    have m: "insert_skip table rs = (table', n)" using 2(3) True by simp
    have k: "transaction_key ` set table \<union> transaction_key ` set (r # rs) =
        transaction_key ` set table \<union> transaction_key ` set rs"
      using True by (simp add: insert_absorb)
    from 2(1) [OF True m] set_subset_Cons [of rs r] show ?thesis unfolding e k by blast
  next
    case False
    with 2(3) obtain m where m: "insert_skip (table @ [r]) rs = (table', m)" "n = m + 1"
      by (auto split: prod.splits)
    from 2(2) [OF False m(1)] have ih: "table' = (table @ [r]) @ inserted (table @ [r]) rs"
      "m = length (inserted (table @ [r]) rs)" "set (inserted (table @ [r]) rs) \<subseteq> set rs"
      "transaction_key ` set table' = transaction_key ` set (table @ [r]) \<union> transaction_key ` set rs"
      "distinct (map transaction_key (table @ [r])) \<longrightarrow> distinct (map transaction_key table')"
      by blast+
    have "fst (insert_skip table (r # rs)) = table'" using 2(3) by simp
    then have e: "inserted table (r # rs) = r # inserted (table @ [r]) rs"
      using ih(1) by (simp add: inserted_def [of table])
    show ?thesis unfolding e using ih m(2) False by auto
  qed
qed

lemma inserted_length: "length (inserted table rs) \<le> length rs"
proof (induction table rs rule: insert_skip.induct)
  case (2 table r rs)
  obtain t n where m: "insert_skip (table @ [r]) rs = (t, n)" by (metis surj_pair)
  with insert_skip_spec [OF m] 2 show ?case
    by (cases "transaction_key r \<in> transaction_key ` set table") (auto simp: inserted_def)
qed (simp add: inserted_def)

lemma insert_skip_append:
  "insert_skip table (xs @ ys) =
     (case insert_skip table xs of (t, n) \<Rightarrow> (case insert_skip t ys of (t', m) \<Rightarrow> (t', n + m)))"
  by (induction table xs rule: insert_skip.induct) (auto split: prod.splits)

lemma transaction_rows_import:
  "transaction_rows tp now i k ts = Inr rs \<Longrightarrow> list_all (\<lambda>r. tr_importId r = i) rs"
  by (induction ts arbitrary: k rs) (auto simp: transaction_row_of_def split: sum.splits option.splits)

lemma transaction_rows_length: "transaction_rows tp now i k ts = Inr rs \<Longrightarrow> length rs = length ts"
  by (induction ts arbitrary: k rs) (auto split: sum.splits)

lemma transaction_rows_keys:
  "transaction_rows tp now i k ts = Inr rs \<Longrightarrow>
   map transaction_key rs = map (\<lambda>t. (ai_providerId t, ai_transactionId t)) ts"
  by (induction ts arbitrary: k rs)
    (auto simp: transaction_row_of_def transaction_key_def split: sum.splits option.splits)

lemma rejected_rows_import:
  "rejected_rows tp now i k rs = Inr rows \<Longrightarrow> list_all (\<lambda>r. rr_importId r = i) rows \<and> length rows = length rs"
  by (induction rs arbitrary: k rows) (auto split: sum.splits)

subsection \<open>What the batch transaction does\<close>

lemma transaction_rows_Nil [simp]: "create_many_transactions tp now i [] d = Inr (0, d)"
  by (simp add: create_many_transactions_def)

lemma rejected_rows_Nil [simp]: "create_many_rejected tp now i [] d = Inr ((), d)"
  by (simp add: create_many_rejected_def)

text \<open>Either the checkpoint is already there and nothing changes, or the rows are appended and
  the counters and the checkpoint move with them.\<close>

lemma commit_batch_txE:
  assumes "commit_batch_tx tp now i input d = Inr (res, d')"
  obtains (repeated) cur where "find_import i d = Some cur"
      "ci_checkpointLineNumber input \<le> im_checkpointLineNumber cur"
      "res = \<lparr>cr_acceptedCount = 0, cr_duplicateCount = 0\<rparr>" "d' = d"
  | (committed) cur rs rows where "find_import i d = Some cur"
      "im_checkpointLineNumber cur < ci_checkpointLineNumber input"
      "transaction_rows tp now i (db_next d) (ci_acceptedTransactions input) = Inr rs"
      "rejected_rows tp now i (db_next d + length rs) (ci_rejectedRecords input) = Inr rows"
      "res = \<lparr>cr_acceptedCount = int (length (inserted (db_transactions d) rs)),
              cr_duplicateCount = int (length rs) - int (length (inserted (db_transactions d) rs))\<rparr>"
      "db_transactions d' = db_transactions d @ inserted (db_transactions d) rs"
      "db_rejected d' = db_rejected d @ rows" "db_files d' = db_files d"
      "db_imports d' = map (\<lambda>r. if im_id r = i
         then advance_import input (int (length (inserted (db_transactions d) rs))) r else r) (db_imports d)"
      "db_next d' = db_next d + length rs + length rows"
proof -
  from assms obtain cur where cur: "find_import i d = Some cur"
    by (auto simp: commit_batch_tx_def split: option.splits)
  show thesis
  proof (cases "ci_checkpointLineNumber input \<le> im_checkpointLineNumber cur")
    case True
    with assms cur show thesis by (intro repeated [OF cur]) (simp_all add: commit_batch_tx_def)
  next
    case False
    have a: "(if ci_acceptedTransactions input = [] then Inr (0, d)
        else create_many_transactions tp now i (ci_acceptedTransactions input) d) =
      create_many_transactions tp now i (ci_acceptedTransactions input) d" by simp
    have b: "(if ci_rejectedRecords input = [] then Inr ((), e)
        else create_many_rejected tp now i (ci_rejectedRecords input) e) =
      create_many_rejected tp now i (ci_rejectedRecords input) e" for e by simp
    from assms cur False obtain n d1 d2 r3 where
      c: "create_many_transactions tp now i (ci_acceptedTransactions input) d = Inr (n, d1)"
        "create_many_rejected tp now i (ci_rejectedRecords input) d1 = Inr ((), d2)"
        "update_import i (advance_import input (int n)) d2 = Inr (r3, d')"
        "res = \<lparr>cr_acceptedCount = int n,
           cr_duplicateCount = int (length (ci_acceptedTransactions input)) - int n\<rparr>"
      unfolding commit_batch_tx_def a b by (auto split: sum.splits)
    from c(1) obtain rs table where rs:
      "transaction_rows tp now i (db_next d) (ci_acceptedTransactions input) = Inr rs"
      "insert_skip (db_transactions d) rs = (table, n)"
      "d1 = d\<lparr>db_transactions := table, db_next := db_next d + length rs\<rparr>"
      by (auto simp: create_many_transactions_def split: sum.splits prod.splits)
    from c(2) obtain rows where rows:
      "rejected_rows tp now i (db_next d + length rs) (ci_rejectedRecords input) = Inr rows"
      "d2 = d1\<lparr>db_rejected := db_rejected d1 @ rows, db_next := db_next d1 + length rows\<rparr>"
      by (auto simp: create_many_rejected_def rs(3) split: sum.splits)
    note ins = insert_skip_spec [OF rs(2)] and len = transaction_rows_length [OF rs(1)]
    from c(3) have "d' = d2\<lparr>db_imports := map (\<lambda>r. if im_id r = i then advance_import input (int n) r else r)
        (db_imports d2)\<rparr>"
      by (rule update_import_InrE)
    with False cur rs rows c(4) ins len show thesis
      by (intro committed [OF cur _ rs(1) rows(1)]) simp_all
  qed
qed

text \<open>The transaction commits when every row can be stored.\<close>

lemma commit_batch_tx_returns:
  assumes "find_import i d = Some cur"
    and "im_checkpointLineNumber cur < ci_checkpointLineNumber input"
    and "transaction_rows tp now i (db_next d) (ci_acceptedTransactions input) = Inr rs"
    and "rejected_rows tp now i (db_next d + length rs) (ci_rejectedRecords input) = Inr rows"
  shows "\<exists>res d'. commit_batch_tx tp now i input d = Inr (res, d')"
proof -
  obtain table n where s: "insert_skip (db_transactions d) rs = (table, n)" by (metis surj_pair)
  let ?d1 = "d\<lparr>db_transactions := table, db_next := db_next d + length rs\<rparr>"
  have a: "(if ci_acceptedTransactions input = [] then Inr (0, d)
      else create_many_transactions tp now i (ci_acceptedTransactions input) d) = Inr (n, ?d1)"
    using s assms(3) by (auto simp: create_many_transactions_def)
  let ?d2 = "?d1\<lparr>db_rejected := db_rejected d @ rows, db_next := db_next ?d1 + length rows\<rparr>"
  have b: "(if ci_rejectedRecords input = [] then Inr ((), ?d1)
      else create_many_rejected tp now i (ci_rejectedRecords input) ?d1) = Inr ((), ?d2)"
    using assms(4) by (auto simp: create_many_rejected_def)
  have "find_import i ?d2 = Some cur" using assms(1) by (simp add: find_import_def)
  then have c: "\<exists>r d3. update_import i (advance_import input (int n)) ?d2 = Inr (r, d3)"
    by (simp add: update_import_def)
  show ?thesis
    using assms(1,2) c unfolding commit_batch_tx_def by (auto simp: a b simp del: commit_input.simps)
qed

section \<open>Every statement keeps the invariant\<close>

text \<open>An update that leaves identity and counters alone.\<close>

definition status_only :: "(import_row \<Rightarrow> import_row) \<Rightarrow> bool" where
  "status_only f \<longleftrightarrow>
     (\<forall>r. im_id (f r) = im_id r \<and> im_idempotencyKey (f r) = im_idempotencyKey r \<and>
          im_processedCount (f r) = im_processedCount r \<and> im_acceptedCount (f r) = im_acceptedCount r \<and>
          im_rejectedCount (f r) = im_rejectedCount r \<and> im_duplicateCount (f r) = im_duplicateCount r)"

lemma map_if_same:
  "(\<And>r. g (f r) = g r) \<Longrightarrow> map (g \<circ> (\<lambda>r. if P r then f r else r)) rs = map g rs"
  by (induction rs) auto

lemma db_ok_update:
  assumes "db_ok tp d" "update_import i f d = Inr (r, d')" "status_only f"
  shows "db_ok tp d'"
  using assms(2)
proof (rule update_import_InrE)
  assume d': "d' = d\<lparr>db_imports := map (\<lambda>r. if im_id r = i then f r else r) (db_imports d)\<rparr>"
  have f: "im_id (f r) = im_id r" "im_idempotencyKey (f r) = im_idempotencyKey r" for r
    using assms(3) by (simp_all add: status_only_def)
  have "counters_ok d' (f r)" if "counters_ok d r" for r
    using that assms(3)
    by (simp add: counters_ok_def status_only_def d' transactions_of_import_def rejected_of_import_def)
  moreover have "counters_ok d' r = counters_ok d r" for r
    by (simp add: counters_ok_def d' transactions_of_import_def rejected_of_import_def)
  ultimately have c: "list_all (counters_ok d') (db_imports d')"
    using assms(1) by (auto simp: db_ok_def list_all_iff d')
  have ids: "map im_id (db_imports d') = map im_id (db_imports d)"
    "map im_idempotencyKey (db_imports d') = map im_idempotencyKey (db_imports d)"
    by (simp_all add: d' map_if_same f)
  then have "im_id ` set (db_imports d') = im_id ` set (db_imports d)" by (metis set_map)
  with ids have "keys_ok d'" "references_ok d'"
    using assms(1) by (simp_all add: db_ok_def keys_ok_def references_ok_def d' map_if_same f)
  moreover have "ids_drawn tp d'"
    using assms(1) by (auto simp: db_ok_def ids_drawn_def list_all_iff d' f)
  ultimately show ?thesis using c by (simp add: db_ok_def)
qed

lemma db_ok_create_import:
  assumes "db_ok tp d" "create_import tp now k p d = Inr (r, d')" "inj (tp_uuid tp)"
  shows "db_ok tp d'"
proof -
  from assms(2) have k: "k \<notin> im_idempotencyKey ` set (db_imports d)"
    and r: "im_id r = tp_uuid tp (db_next d)" "im_idempotencyKey r = k"
      "im_acceptedCount r = 0" "im_rejectedCount r = 0" "im_processedCount r = 0" "im_duplicateCount r = 0"
    and d': "d' = d\<lparr>db_imports := db_imports d @ [r], db_next := db_next d + 1\<rparr>"
    by (auto simp: create_import_def Let_def find_import_by_key_None_iff split: if_splits)
  have "tp_uuid tp (db_next d) \<notin> tp_uuid tp ` {..<db_next d}"
    using assms(3) by (auto dest: injD)
  then have new: "im_id r \<notin> im_id ` set (db_imports d)"
    using assms(1) by (auto simp: db_ok_def ids_drawn_def list_all_iff r(1))
  have refs: "\<forall>t\<in>set (db_transactions d). tr_importId t \<in> im_id ` set (db_imports d)"
    "\<forall>t\<in>set (db_rejected d). rr_importId t \<in> im_id ` set (db_imports d)"
    using assms(1) by (simp_all add: db_ok_def references_ok_def list_all_iff)
  have "transactions_of_import (im_id r) d = []" "rejected_of_import (im_id r) d = []"
    unfolding transactions_of_import_def rejected_of_import_def filter_empty_conv
    using refs new by metis+
  then have "counters_ok d' r"
    by (simp add: counters_ok_def r d' transactions_of_import_def rejected_of_import_def)
  moreover have "counters_ok d' s = counters_ok d s" for s
    by (simp add: counters_ok_def d' transactions_of_import_def rejected_of_import_def)
  ultimately show ?thesis
    using assms(1) new k r
    by (auto simp: db_ok_def keys_ok_def references_ok_def ids_drawn_def d' list_all_iff lessThan_Suc)
qed

lemma db_ok_create_file:
  assumes "db_ok tp d" "create_file tp f d = Inr ((), d')"
  shows "db_ok tp d'"
proof -
  from assms(2) have new: "uf_importId f \<notin> uf_importId ` set (db_files d)"
    "uf_importId f \<in> im_id ` set (db_imports d)"
    and d': "d' = d\<lparr>db_files := db_files d @ [f\<lparr>uf_id := tp_uuid tp (db_next d)\<rparr>], db_next := db_next d + 1\<rparr>"
    by (auto simp: create_file_def find_file_None_iff find_import_None_iff split: if_splits)
  have "counters_ok d' s = counters_ok d s" for s
    by (simp add: counters_ok_def d' transactions_of_import_def rejected_of_import_def)
  then show ?thesis
    using assms(1) new
    by (auto simp: db_ok_def keys_ok_def references_ok_def ids_drawn_def d' list_all_iff lessThan_Suc)
qed

text \<open>A batch whose delta counts its entries.\<close>

definition batch_ok :: "commit_input \<Rightarrow> bool" where
  "batch_ok input \<longleftrightarrow>
     ci_processedDelta input = length (ci_acceptedTransactions input) + length (ci_rejectedRecords input)"

lemma filter_import_rows:
  "list_all (\<lambda>r. g r = i) rows \<Longrightarrow> List.filter (\<lambda>r. g r = j) rows = (if j = i then rows else [])"
  by (induction rows) auto

lemma db_ok_commit:
  assumes "db_ok tp d" "commit_batch_tx tp now i input d = Inr (res, d')" "batch_ok input"
  shows "db_ok tp d'"
  using assms(2)
proof (cases rule: commit_batch_txE)
  case repeated
  with assms(1) show ?thesis by simp
next
  case (committed cur rs rows)
  let ?new = "inserted (db_transactions d) rs"
  let ?f = "advance_import input (int (length ?new))"
  obtain table n where s: "insert_skip (db_transactions d) rs = (table, n)" by (metis surj_pair)
  note spec = insert_skip_spec [OF s] and len = transaction_rows_length [OF committed(3)]
  have new_i: "list_all (\<lambda>r. tr_importId r = i) ?new"
    using spec transaction_rows_import [OF committed(3)] by (auto simp: list_all_iff)
  note rows_i = rejected_rows_import [OF committed(4)]
  have fr: "im_id (?f r) = im_id r" "im_idempotencyKey (?f r) = im_idempotencyKey r" for r
    by (simp_all add: advance_import_def)
  have t: "transactions_of_import j d' = transactions_of_import j d @ (if j = i then ?new else [])" for j
    by (simp add: transactions_of_import_def committed(6) filter_import_rows [OF new_i])
  have r: "rejected_of_import j d' = rejected_of_import j d @ (if j = i then rows else [])" for j
    using filter_import_rows [of rr_importId i rows j] rows_i
    by (simp add: rejected_of_import_def committed(7))
  have le: "length ?new \<le> length rs" by (rule inserted_length)
  have "counters_ok d' (?f x)" if "counters_ok d x" "im_id x = i" for x
    using that assms(3) le len rows_i
    by (simp add: counters_ok_def t r fr batch_ok_def advance_import_def)
  moreover have "counters_ok d' x" if "counters_ok d x" "im_id x \<noteq> i" for x
    using that by (simp add: counters_ok_def t r)
  ultimately have c: "list_all (counters_ok d') (db_imports d')"
    using assms(1) by (auto simp: db_ok_def list_all_iff committed(9))
  have keys: "map im_id (db_imports d') = map im_id (db_imports d)"
    "map im_idempotencyKey (db_imports d') = map im_idempotencyKey (db_imports d)"
    by (simp_all add: committed(9) map_if_same fr)
  then have ids: "im_id ` set (db_imports d') = im_id ` set (db_imports d)" by (metis set_map)
  have "i \<in> im_id ` set (db_imports d)" using find_import_SomeD [OF committed(1)] by auto
  then have "references_ok d'"
    using assms(1) new_i rows_i
    by (auto simp: db_ok_def references_ok_def ids committed(6-8) list_all_iff)
  moreover have "distinct (map transaction_key (db_transactions d'))"
    unfolding committed(6) using spec assms(1) by (metis db_ok_def keys_ok_def)
  then have "keys_ok d'"
    using assms(1) by (simp only: db_ok_def keys_ok_def keys committed(8))
  moreover have "ids_drawn tp d'"
    using assms(1) by (fastforce simp: db_ok_def ids_drawn_def list_all_iff committed(9,10) fr)
  ultimately show ?thesis using c by (simp add: db_ok_def)
qed

section \<open>Properties\<close>

lemma committed_checkpoint:
  assumes "commit_batch_tx tp now i input d = Inr (res, d')"
  obtains cur where "find_import i d' = Some cur"
    "ci_checkpointLineNumber input \<le> im_checkpointLineNumber cur"
  using assms
proof (cases rule: commit_batch_txE)
  case (repeated cur)
  then show ?thesis by (intro that) simp_all
next
  case (committed cur rs rows)
  let ?f = "advance_import input (int (length (inserted (db_transactions d) rs)))"
  have "find_import i d' = map_option (\<lambda>r. if im_id r = i then ?f r else r) (find_import i d)"
    unfolding find_import_def committed(9) by (rule find_map_id) (simp add: advance_import_def)
  with committed(1) find_import_SomeD [OF committed(1)] have "find_import i d' = Some (?f cur)" by simp
  then show ?thesis by (rule that) (simp add: advance_import_def)
qed

lemma commit_repeat:
  assumes "commit_batch_tx tp now i input d = Inr (res, d')"
  shows "commit_batch_tx tp now' i input d' = Inr (\<lparr>cr_acceptedCount = 0, cr_duplicateCount = 0\<rparr>, d')"
  using assms by (elim committed_checkpoint) (simp add: commit_batch_tx_def)

text \<open>C27. Committing a batch again after it has been committed is a no-op: whatever the first
  run stored, a second run of the same transaction returns zero counts and leaves every
  table as it is.  This is what makes a retry after a lost acknowledgement safe.\<close>

theorem commit_batch_idempotent:
  assumes "commit_batch_tx tp now importId input d = Inr (res, d')"
  shows "commit_batch_tx tp now' importId input d' =
    Inr (\<lparr>cr_acceptedCount = 0, cr_duplicateCount = 0\<rparr>, d')"
  by (rule commit_repeat [OF assms])

definition sample_accepted :: "jsstring \<Rightarrow> rat \<Rightarrow> accepted_input" where
  "sample_accepted i x = scored no_third_party (js ''p'') (sample_transaction i (js ''a1'') x)"

definition one_import_row :: import_row where
  "one_import_row =
     \<lparr>im_id = js ''0'', im_idempotencyKey = js ''key'', im_providerId = js ''p'', im_status = Pending,
      im_processedCount = 0, im_acceptedCount = 0, im_rejectedCount = 0, im_duplicateCount = 0,
      im_checkpointOffset = 0, im_checkpointLineNumber = 0, im_cancelRequested = False,
      im_failureReason = None, im_createdAt = 5, im_startedAt = None, im_completedAt = None\<rparr>"

definition one_import_db :: db where
  "one_import_db = empty_db\<lparr>db_imports := [one_import_row], db_next := 1\<rparr>"

lemma decimal_0: "decimal 0 = js ''0''"
  by code_simp

lemma one_import_db_created:
  "create_import no_third_party 5 (js ''key'') (js ''p'') empty_db = Inr (one_import_row, one_import_db)"
  by (simp add: create_import_def find_import_by_key_def empty_db_def one_import_db_def
      one_import_row_def decimal_0 Let_def)

lemma one_import_db_simps [simp]:
  "find_import (js ''0'') one_import_db = Some one_import_row"
  "db_transactions one_import_db = []" "db_rejected one_import_db = []" "keys_ok one_import_db"
  "im_checkpointLineNumber one_import_row = 0" "im_checkpointOffset one_import_row = 0"
  by (simp_all add: one_import_db_def find_import_def one_import_row_def empty_db_def keys_ok_def)

theorem commit_batch_idempotent_witness:
  "\<exists>res d'. commit_batch_tx no_third_party 9 (js ''0'')
       \<lparr>ci_acceptedTransactions = [], ci_rejectedRecords = [], ci_processedDelta = 0,
        ci_checkpointOffset = 2, ci_checkpointLineNumber = 1\<rparr> one_import_db = Inr (res, d') \<and>
     commit_batch_tx no_third_party 11 (js ''0'')
       \<lparr>ci_acceptedTransactions = [], ci_rejectedRecords = [], ci_processedDelta = 0,
        ci_checkpointOffset = 2, ci_checkpointLineNumber = 1\<rparr> d' =
       Inr (\<lparr>cr_acceptedCount = 0, cr_duplicateCount = 0\<rparr>, d')"
proof -
  let ?i = "\<lparr>ci_acceptedTransactions = [], ci_rejectedRecords = [], ci_processedDelta = 0,
    ci_checkpointOffset = 2, ci_checkpointLineNumber = 1\<rparr>"
  have "\<exists>res d'. commit_batch_tx no_third_party 9 (js ''0'') ?i one_import_db = Inr (res, d')"
    by (simp add: commit_batch_tx_def update_import_def)
  then show ?thesis using commit_batch_idempotent by blast
qed

text \<open>C26. The first write wins, across all imports of a provider: a committed batch never
  changes or removes a stored transaction, what it adds has keys that were free, and after it
  every accepted record of the batch has its key stored, so each key is stored exactly
  once.\<close>

theorem commit_batch_first_write_wins:
  assumes "commit_batch_tx tp now importId input d = Inr (res, d')" "keys_ok d"
    and "find_import importId d = Some cur"
    and "im_checkpointLineNumber cur < ci_checkpointLineNumber input"
  shows "\<exists>new. db_transactions d' = db_transactions d @ new \<and>
    distinct (map transaction_key (db_transactions d')) \<and>
    cr_acceptedCount res = int (length new) \<and>
    cr_acceptedCount res + cr_duplicateCount res = int (length (ci_acceptedTransactions input)) \<and>
    transaction_key ` set (db_transactions d') = transaction_key ` set (db_transactions d) \<union>
      (\<lambda>t. (ai_providerId t, ai_transactionId t)) ` set (ci_acceptedTransactions input)"
  using assms(1)
proof (cases rule: commit_batch_txE)
  case (repeated cur)
  with assms(3,4) have False by simp
  then show ?thesis ..
next
  case (committed cur rs rows)
  obtain table n where s: "insert_skip (db_transactions d) rs = (table, n)" by (metis surj_pair)
  note spec = insert_skip_spec [OF s]
  have keys: "transaction_key ` set rs =
      (\<lambda>t. (ai_providerId t, ai_transactionId t)) ` set (ci_acceptedTransactions input)"
    using arg_cong [OF transaction_rows_keys [OF committed(3)], of set] by (simp only: set_map)
  have d': "db_transactions d' = table" using spec committed(6) by simp
  have "distinct (map transaction_key (db_transactions d))" using assms(2) by (simp add: keys_ok_def)
  with spec have distinct: "distinct (map transaction_key (db_transactions d'))" unfolding d' by blast
  have union: "transaction_key ` set (db_transactions d') = transaction_key ` set (db_transactions d) \<union>
      (\<lambda>t. (ai_providerId t, ai_transactionId t)) ` set (ci_acceptedTransactions input)"
    unfolding d' keys [symmetric] using spec by blast
  show ?thesis
    using committed(5,6) distinct union transaction_rows_length [OF committed(3)]
    by (intro exI [of _ "inserted (db_transactions d) rs"] conjI) simp_all
qed


theorem commit_batch_first_write_wins_witness:
  "\<exists>res d'. commit_batch_tx no_third_party 9 (js ''0'')
       \<lparr>ci_acceptedTransactions = [sample_accepted (js ''t1'') 10, sample_accepted (js ''t1'') 12],
        ci_rejectedRecords = [], ci_processedDelta = 2, ci_checkpointOffset = 9,
        ci_checkpointLineNumber = 2\<rparr> one_import_db = Inr (res, d') \<and>
     length (db_transactions d') = 1 \<and> cr_acceptedCount res = 1 \<and> cr_duplicateCount res = 1"
proof -
  let ?i = "\<lparr>ci_acceptedTransactions = [sample_accepted (js ''t1'') 10, sample_accepted (js ''t1'') 12],
    ci_rejectedRecords = [], ci_processedDelta = 2, ci_checkpointOffset = 9, ci_checkpointLineNumber = 2\<rparr>"
  have t: "ai_timestamp (sample_accepted x a) = Some 0" for x a
    by (simp add: sample_accepted_def scored_by_def accepted_of_def sample_transaction_def
        new_date_round_trip time_value_ok_def)
  have "\<exists>res d'. commit_batch_tx no_third_party 9 (js ''0'') ?i one_import_db = Inr (res, d')"
    using t
    by (intro commit_batch_tx_returns [OF one_import_db_simps(1)])
      (simp_all add: transaction_row_of_def)
  then obtain res d' where c: "commit_batch_tx no_third_party 9 (js ''0'') ?i one_import_db = Inr (res, d')"
    by blast
  from commit_batch_first_write_wins [OF c one_import_db_simps(4,1)] obtain new where
    n: "db_transactions d' = new" "distinct (map transaction_key new)"
    "transaction_key ` set new = (\<lambda>t. (ai_providerId t, ai_transactionId t)) `
       {sample_accepted (js ''t1'') 10, sample_accepted (js ''t1'') 12}"
    "cr_acceptedCount res = int (length new)" "cr_acceptedCount res + cr_duplicateCount res = 2"
    by auto
  have "transaction_key ` set new = {(js ''p'', js ''t1'')}"
    unfolding n(3) by (simp add: sample_accepted_def scored_by_def accepted_of_def sample_transaction_def)
  then have "card (set (map transaction_key new)) = 1" by simp
  then have "length new = 1" using distinct_card [OF n(2)] by simp
  with n c show ?thesis by (intro exI [of _ res] exI [of _ d']) simp
qed

section \<open>The transaction table as a map\<close>

text \<open>The abstract view of the table: for each key the stored transaction.\<close>

definition key_map :: "transaction_row list \<Rightarrow> jsstring \<times> jsstring \<Rightarrow> transaction_row option" where
  "key_map rows = map_of (map (\<lambda>r. (transaction_key r, r)) rows)"

lemma key_map_simps [simp]:
  "key_map [] = Map.empty" "key_map (r # rs) = (key_map rs)(transaction_key r \<mapsto> r)"
  "key_map (rs @ ts) = key_map ts ++ key_map rs"
  by (simp_all add: key_map_def)

lemma dom_key_map [simp]: "dom (key_map rows) = transaction_key ` set rows"
  by (simp add: key_map_def dom_map_of_conv_image_fst image_image)

lemma insert_skip_refines: "key_map (fst (insert_skip table rs)) = key_map rs ++ key_map table"
proof (induction table rs rule: insert_skip.induct)
  case (2 table r rs)
  show ?case
  proof (cases "transaction_key r \<in> transaction_key ` set table")
    case True
    then obtain v where "key_map table (transaction_key r) = Some v"
      using dom_key_map [of table] by (metis domD)
    then have e: "(key_map rs)(transaction_key r \<mapsto> r) ++ key_map table = key_map rs ++ key_map table"
      by (simp add: map_add_def fun_eq_iff split: option.split)
    have "key_map (fst (insert_skip table (r # rs))) = key_map rs ++ key_map table" using 2 True by simp
    then show ?thesis unfolding key_map_simps(2) e .
  next
    case False
    then have "key_map table (transaction_key r) = None"
      using dom_key_map [of table] by (metis domIff)
    then have e: "(key_map rs)(transaction_key r \<mapsto> r) ++ key_map table = key_map rs ++ key_map (table @ [r])"
      by (simp add: map_add_def fun_eq_iff split: option.split)
    have "key_map (fst (insert_skip table (r # rs))) = key_map rs ++ key_map (table @ [r])"
      using 2 False by (simp add: split_def)
    then show ?thesis unfolding key_map_simps(2) e .
  qed
qed simp

text \<open>C12. Committing a batch refines one update of the abstract map from keys to transactions,
  \<open>new ++ old\<close>, in which the stored entries have priority and, among the new ones, the
  first; a repeated batch refines no update.\<close>

theorem commit_refines_map:
  assumes "commit_batch_tx tp now i input d = Inr (res, d')"
    and "find_import i d = Some cur"
    and "transaction_rows tp now i (db_next d) (ci_acceptedTransactions input) = Inr rs"
  shows "key_map (db_transactions d') =
    (if ci_checkpointLineNumber input \<le> im_checkpointLineNumber cur then key_map (db_transactions d)
     else key_map rs ++ key_map (db_transactions d))"
  using assms(1)
proof (cases rule: commit_batch_txE)
  case (repeated cur')
  with assms(2) show ?thesis by simp
next
  case (committed cur' rs' rows)
  have "rs' = rs" using committed(3) assms(3) by simp
  moreover have "fst (insert_skip (db_transactions d) rs) = db_transactions d @ inserted (db_transactions d) rs"
    by (metis insert_skip_spec prod.collapse)
  ultimately have "key_map (db_transactions d') = key_map rs ++ key_map (db_transactions d)"
    using committed(6) insert_skip_refines [of "db_transactions d" rs] by metis
  with committed(1,2) assms(2) show ?thesis by simp
qed

theorem commit_refines_map_witness:
  "\<exists>res d' rs. commit_batch_tx no_third_party 9 (js ''0'')
       \<lparr>ci_acceptedTransactions = [sample_accepted (js ''t1'') 10, sample_accepted (js ''t1'') 12],
        ci_rejectedRecords = [], ci_processedDelta = 2, ci_checkpointOffset = 9,
        ci_checkpointLineNumber = 2\<rparr> one_import_db = Inr (res, d') \<and>
     key_map (db_transactions d') = key_map rs \<and> length rs = 2"
proof -
  let ?i = "\<lparr>ci_acceptedTransactions = [sample_accepted (js ''t1'') 10, sample_accepted (js ''t1'') 12],
    ci_rejectedRecords = [], ci_processedDelta = 2, ci_checkpointOffset = 9, ci_checkpointLineNumber = 2\<rparr>"
  have t: "ai_timestamp (sample_accepted x a) = Some 0" for x a
    by (simp add: sample_accepted_def scored_by_def accepted_of_def sample_transaction_def
        new_date_round_trip time_value_ok_def)
  have "\<exists>res d'. commit_batch_tx no_third_party 9 (js ''0'') ?i one_import_db = Inr (res, d')"
    using t
    by (intro commit_batch_tx_returns [OF one_import_db_simps(1)])
      (simp_all add: transaction_row_of_def)
  then obtain res d' where c: "commit_batch_tx no_third_party 9 (js ''0'') ?i one_import_db = Inr (res, d')"
    by blast
  obtain rs where r: "transaction_rows no_third_party 9 (js ''0'') (db_next one_import_db)
      (ci_acceptedTransactions ?i) = Inr rs"
    using t by (auto simp: transaction_row_of_def)
  have l: "length rs = 2" using transaction_rows_length [OF r] by simp
  have "im_checkpointLineNumber one_import_row = 0" "db_transactions one_import_db = []"
    by (simp_all add: one_import_row_def one_import_db_def empty_db_def)
  with commit_refines_map [OF c one_import_db_simps(1) r] have "key_map (db_transactions d') = key_map rs" by simp
  with c l show ?thesis by blast
qed

end
