(* ===== verification/World.thy ===== *)
theory World
  imports Database
begin

text \<open>
  The process and its surroundings: the database, the object store, the job queue, the
  shutdown signal (\<open>src/shared/state/ShutdownSignal.ts\<close>), the metrics
  (\<open>src/shared/adapters/promMetricsRecorder.ts\<close>), the clock, and the schedule of what happens
  around the code.

  Every \<open>await\<close> on an external system takes the next \<open>tick\<close> of the schedule: the actions of
  other requests and workers that happen first, the time that passes, and whether the call
  fails, before or after its effect (a lost acknowledgement).  A property that holds for every
  schedule holds for every interleaving of atomic statements with the rest of the system.

  The ports of \<open>src/shared/ports\<close> are implemented by the adapters \<open>MinioFileStorage\<close>,
  \<open>PiscinaRiskScorer\<close> and \<open>BullMqJobQueue\<close>, modelled here.  The locale \<open>environment\<close> has the
  reasoning about schedules: an assertion on the database that the actions of the others
  keep is kept by every call that keeps it.
\<close>

section \<open>The world\<close>

text \<open>What other requests and workers do: cancel, create or mark an import, attach a file to one,
  commit a batch, ask this worker to shut down.\<close>

datatype env_action =
    Cancel_Import jsstring
  | Create_Import jsstring jsstring
  | Attach_File file_row
  | Mark_Import jsstring import_status
  | Commit_Batch jsstring commit_input
  | Request_Shutdown

datatype fault = No_Fault | Fail_Before exn | Fail_After exn

record tick =
  tk_elapsed :: nat
  tk_actions :: "env_action list"
  tk_fault :: fault
  tk_chunks :: "nat list"           \<comment> \<open>sizes of the chunks a read delivers\<close>
  tk_break :: "nat option"          \<comment> \<open>after how many bytes the read breaks\<close>
  tk_random :: rat                  \<comment> \<open>what \<open>Math.random()\<close> returns\<close>

record world =
  w_db :: db
  w_objects :: "(jsstring \<times> bytes) list"
  w_queue :: "jsstring list"
  w_shuttingDown :: bool
  w_now :: int
  w_generated :: nat
  w_counters :: "string \<times> (string \<times> string) list \<Rightarrow> int"
  w_gauges :: "string \<Rightarrow> int"
  w_histograms :: "(string \<times> (string \<times> string) list) list"
  w_delays :: "int list"
  w_schedule :: "tick list"

definition quiet_tick :: tick where
  "quiet_tick =
     \<lparr>tk_elapsed = 0, tk_actions = [], tk_fault = No_Fault, tk_chunks = [], tk_break = None,
      tk_random = 0\<rparr>"

section \<open>The schedule\<close>

text \<open>The update of \<open>requestCancellation\<close>.\<close>

definition cancelling :: "import_row \<Rightarrow> import_row" where
  "cancelling r = r\<lparr>im_cancelRequested := True, im_status := Cancelling\<rparr>"

definition run_tx :: "'a tx \<Rightarrow> db \<Rightarrow> db" where
  "run_tx t d = (case t d of Inl _ \<Rightarrow> d | Inr (_, d') \<Rightarrow> d')"

fun action_db :: "third_party \<Rightarrow> int \<Rightarrow> env_action \<Rightarrow> db \<Rightarrow> db" where
  "action_db tp now (Cancel_Import i) d = run_tx (update_import i cancelling) d"
| "action_db tp now (Create_Import k p) d = run_tx (create_import tp now k p) d"
| "action_db tp now (Attach_File f) d = run_tx (create_file tp f) d"
| "action_db tp now (Mark_Import i s) d = run_tx (update_import i (\<lambda>r. r\<lparr>im_status := s\<rparr>)) d"
| "action_db tp now (Commit_Batch i input) d = run_tx (commit_batch_tx tp now i input) d"
| "action_db tp now Request_Shutdown d = d"

definition apply_action :: "third_party \<Rightarrow> env_action \<Rightarrow> world \<Rightarrow> world" where
  "apply_action tp a w =
     w\<lparr>w_db := action_db tp (w_now w) a (w_db w),
       w_shuttingDown := (w_shuttingDown w \<or> a = Request_Shutdown)\<rparr>"

definition next_tick :: "third_party \<Rightarrow> world \<Rightarrow> tick \<times> world" where
  "next_tick tp w =
     (case w_schedule w of
        [] \<Rightarrow> (quiet_tick, w)
      | t # ts \<Rightarrow>
          (t, fold (apply_action tp) (tk_actions t)
                (w\<lparr>w_schedule := ts, w_now := w_now w + int (tk_elapsed t)\<rparr>)))"

definition call ::
  "third_party \<Rightarrow> (tick \<Rightarrow> world \<Rightarrow> (exn + 'a) \<times> world) \<Rightarrow> (world, exn, 'a) io" where
  "call tp f w =
     (case next_tick tp w of
        (t, w') \<Rightarrow>
          (case tk_fault t of
             No_Fault \<Rightarrow> f t w'
           | Fail_Before e \<Rightarrow> (Inl e, w')
           | Fail_After e \<Rightarrow> (Inl e, snd (f t w'))))"

text \<open>A statement or transaction, and a query.\<close>

definition db_call :: "third_party \<Rightarrow> (int \<Rightarrow> 'a tx) \<Rightarrow> (world, exn, 'a) io" where
  "db_call tp g =
     call tp (\<lambda>t w. case g (w_now w) (w_db w) of
       Inl e \<Rightarrow> (Inl e, w) | Inr (x, d) \<Rightarrow> (Inr x, w\<lparr>w_db := d\<rparr>))"

definition db_query :: "third_party \<Rightarrow> (db \<Rightarrow> 'a) \<Rightarrow> (world, exn, 'a) io" where
  "db_query tp f = call tp (\<lambda>t w. (Inr (f (w_db w)), w))"

section \<open>Adapters\<close>

record stored_file_info =
  sf_bucket :: jsstring
  sf_key :: jsstring
  sf_sizeBytes :: int
  sf_checksum :: jsstring

text \<open>\<open>MinioFileStorage.store\<close>: the chunks of the upload, counted and written as one object.\<close>

definition minio_store :: "third_party \<Rightarrow> jsstring \<Rightarrow> bytes list \<Rightarrow> (world, exn, stored_file_info) io" where
  "minio_store tp key stream =
     call tp (\<lambda>t w.
       (Inr \<lparr>sf_bucket = tp_bucket tp, sf_key = key, sf_sizeBytes = int (sum_list (map length stream)),
             sf_checksum = tp_etag tp (concat stream)\<rparr>,
        w\<lparr>w_objects := (key, concat stream) # w_objects w\<rparr>))"

fun split_chunks :: "nat list \<Rightarrow> bytes \<Rightarrow> bytes list" where
  "split_chunks ns [] = []"
| "split_chunks [] bs = [bs]"
| "split_chunks (n # ns) bs = take n bs # split_chunks ns (drop n bs)"

lemma concat_split_chunks [simp]: "concat (split_chunks ns bs) = bs"
  by (induction ns bs rule: split_chunks.induct) simp_all

definition delivered :: "tick \<Rightarrow> bytes \<Rightarrow> byte_stream" where
  "delivered t bs =
     (case tk_break t of
        None \<Rightarrow> (split_chunks (tk_chunks t) bs, False)
      | Some k \<Rightarrow> (split_chunks (tk_chunks t) (take k bs), True))"

text \<open>\<open>MinioFileStorage.read\<close>.\<close>

definition minio_read :: "third_party \<Rightarrow> jsstring \<Rightarrow> int \<Rightarrow> (world, exn, byte_stream) io" where
  "minio_read tp key startOffset =
     call tp (\<lambda>t w.
       case map_of (w_objects w) key of
         None \<Rightarrow> (Inl StorageError, w)
       | Some bs \<Rightarrow>
           if tp_range tp startOffset (int (length bs))
           then (Inr (delivered t (drop (nat startOffset) bs)), w)
           else (Inl StorageError, w))"

text \<open>\<open>PiscinaRiskScorer.scoreBatch\<close>.\<close>

definition piscina_scoreBatch ::
  "third_party \<Rightarrow> risk_input list \<Rightarrow> (world, exn, (jsnum \<times> risk_level) list) io" where
  "piscina_scoreBatch tp inputs =
     call tp (\<lambda>t w. (Inr (riskScoreBatchTask (tp_log10 tp) (tp_sha256 tp) inputs), w))"

text \<open>\<open>BullMqJobQueue.enqueueImportProcessing\<close>.\<close>

definition enqueueImportProcessing :: "third_party \<Rightarrow> jsstring \<Rightarrow> (world, exn, unit) io" where
  "enqueueImportProcessing tp importId =
     call tp (\<lambda>t w. (Inr (), w\<lparr>w_queue := w_queue w @ [importId]\<rparr>))"

text \<open>\<open>UuidIdGenerator.generate\<close>.\<close>

definition generate :: "third_party \<Rightarrow> (world, exn, jsstring) io" where
  "generate tp =
     bind_io (read_io w_generated) (\<lambda>n.
       then_io (update_io (\<lambda>w. w\<lparr>w_generated := n + 1\<rparr>)) (return_io (tp_file_uuid tp n)))"

definition isShuttingDown :: "(world, exn, bool) io" where
  "isShuttingDown = read_io w_shuttingDown"

definition requestShutdown :: "(world, exn, unit) io" where
  "requestShutdown = update_io (\<lambda>w. w\<lparr>w_shuttingDown := True\<rparr>)"

definition incrementCounter :: "string \<Rightarrow> (string \<times> string) list \<Rightarrow> int \<Rightarrow> (world, exn, unit) io" where
  "incrementCounter name labels v =
     update_io (\<lambda>w. w\<lparr>w_counters := (w_counters w)((name, labels) := w_counters w (name, labels) + v)\<rparr>)"

definition incrementGauge :: "string \<Rightarrow> (world, exn, unit) io" where
  "incrementGauge name = update_io (\<lambda>w. w\<lparr>w_gauges := (w_gauges w)(name := w_gauges w name + 1)\<rparr>)"

definition decrementGauge :: "string \<Rightarrow> (world, exn, unit) io" where
  "decrementGauge name = update_io (\<lambda>w. w\<lparr>w_gauges := (w_gauges w)(name := w_gauges w name - 1)\<rparr>)"

definition observeHistogram :: "string \<Rightarrow> (string \<times> string) list \<Rightarrow> (world, exn, unit) io" where
  "observeHistogram name labels =
     update_io (\<lambda>w. w\<lparr>w_histograms := w_histograms w @ [(name, labels)]\<rparr>)"

text \<open>\<open>Math.random()\<close>, at least 0 and below 1, and \<open>setTimeout\<close>.\<close>

definition math_random :: "(world, exn, rat) io" where
  "math_random = read_io (\<lambda>w. case w_schedule w of [] \<Rightarrow> 0 | t # _ \<Rightarrow> frac (tk_random t))"

definition sleep :: "third_party \<Rightarrow> int \<Rightarrow> (world, exn, unit) io" where
  "sleep tp ms w =
     (case next_tick tp w of
        (t, w') \<Rightarrow> (Inr (), w'\<lparr>w_now := w_now w' + ms, w_delays := w_delays w' @ [ms]\<rparr>))"

section \<open>The worker pool keeps its contract\<close>

lemma piscina_in_order:
  "piscina_scoreBatch tp xs w = (Inr rs, w') \<Longrightarrow> rs = map (risk_of tp) xs"
  by (auto simp: piscina_scoreBatch_def call_def riskScoreBatchTask_map split: prod.splits fault.splits)

interpretation piscina: risk_scorer "piscina_scoreBatch tp" "risk_of tp" for tp
  by unfold_locales (rule piscina_in_order)

section \<open>Assertions that the others keep\<close>

text \<open>
  The actions the others may take are those with \<open>allowed\<close>; \<open>P\<close> is an assertion on the
  database and the stored objects that they keep, whatever the time.  \<open>holds\<close> is the
  assertion on the world: \<open>P\<close> now, and only allowed actions to come.
\<close>

locale environment =
  fixes tp :: third_party and allowed :: "env_action \<Rightarrow> bool"
    and P :: "db \<Rightarrow> (jsstring \<times> bytes) list \<Rightarrow> bool"
  assumes stable: "allowed a \<Longrightarrow> P d obs \<Longrightarrow> P (action_db tp now a d) obs"
begin

definition holds :: "world \<Rightarrow> bool" where
  "holds w \<longleftrightarrow>
     P (w_db w) (w_objects w) \<and> list_all (\<lambda>t. list_all allowed (tk_actions t)) (w_schedule w)"

lemma holds_action: "allowed a \<Longrightarrow> holds w \<Longrightarrow> holds (apply_action tp a w)"
  by (simp add: holds_def apply_action_def stable)

lemma holds_actions: "list_all allowed as \<Longrightarrow> holds w \<Longrightarrow> holds (fold (apply_action tp) as w)"
  by (induction as arbitrary: w) (simp_all add: holds_action)

lemma holds_tick:
  assumes "holds w" "next_tick tp w = (t, w')"
  shows "holds w'"
proof (cases "w_schedule w")
  case Nil
  with assms show ?thesis by (simp add: next_tick_def)
next
  case (Cons u us)
  let ?v = "w\<lparr>w_schedule := us, w_now := w_now w + int (tk_elapsed u)\<rparr>"
  have "holds ?v" "list_all allowed (tk_actions u)" using assms(1) Cons by (simp_all add: holds_def)
  then have "holds (fold (apply_action tp) (tk_actions u) ?v)" by (intro holds_actions)
  moreover have "fold (apply_action tp) (tk_actions u) ?v = w'"
    using assms(2) Cons by (auto simp: next_tick_def)
  ultimately show ?thesis by (simp only:)
qed

text \<open>A call keeps the assertion when its effect does.\<close>

lemma triple_call:
  assumes "\<And>t w x w'. holds w \<Longrightarrow> f t w = (Inr x, w') \<Longrightarrow> Q x w'"
    and "\<And>t w. holds w \<Longrightarrow> E (snd (f t w))" and "\<And>w. holds w \<Longrightarrow> E w"
  shows "triple holds (call tp f) Q (\<lambda>_. E)"
proof (rule tripleI)
  fix w x w1 assume w: "holds w" "call tp f w = (Inr x, w1)"
  obtain t w' where n: "next_tick tp w = (t, w')" by (metis surj_pair)
  with w have "holds w'" "f t w' = (Inr x, w1)"
    by (auto simp: call_def intro: holds_tick split: fault.splits)
  with assms(1) show "Q x w1" by blast
next
  fix w e w1 assume w: "holds w" "call tp f w = (Inl e, w1)"
  obtain t w' where n: "next_tick tp w = (t, w')" by (metis surj_pair)
  with w have "holds w'" by (auto intro: holds_tick)
  then have "E w'" "E (snd (f t w'))" using assms(2,3) by blast+
  with w n show "E w1" by (auto simp: call_def split: fault.splits)
qed

lemma keeps_call:
  assumes "\<And>t w. holds w \<Longrightarrow> holds (snd (f t w))"
  shows "keeps holds (call tp f)"
proof -
  have "holds w'" if "holds w" "f t w = (Inr x, w')" for t w x w'
    using assms [OF that(1), of t] that(2) by simp
  then show ?thesis
    unfolding triple_keeps [symmetric] using assms by (intro triple_call)
qed

lemma keeps_db_call:
  assumes "\<And>now d obs x d'. P d obs \<Longrightarrow> g now d = Inr (x, d') \<Longrightarrow> P d' obs"
  shows "keeps holds (db_call tp g)"
  unfolding db_call_def
  by (rule keeps_call) (use assms in \<open>auto simp: holds_def split: sum.splits\<close>)

lemma keeps_db_query: "keeps holds (db_query tp f)"
  unfolding db_query_def by (rule keeps_call) simp

lemma triple_db_query:
  assumes "\<And>d obs. P d obs \<Longrightarrow> Q (f d)"
  shows "triple holds (db_query tp f) (\<lambda>x w. Q x \<and> holds w) (\<lambda>_. holds)"
  unfolding db_query_def
  by (rule triple_call) (use assms in \<open>auto simp: holds_def\<close>)

lemma keeps_minio_store:
  assumes "\<And>d obs. P d obs \<Longrightarrow> P d ((key, concat stream) # obs)"
  shows "keeps holds (minio_store tp key stream)"
  unfolding minio_store_def by (rule keeps_call) (use assms in \<open>auto simp: holds_def\<close>)

lemma keeps_adapters:
  "keeps holds (minio_read tp key off)"
  "keeps holds (piscina_scoreBatch tp inputs)" "keeps holds (enqueueImportProcessing tp i)"
  unfolding minio_read_def piscina_scoreBatch_def enqueueImportProcessing_def
  by (rule keeps_call; auto simp: holds_def split: option.splits)+

lemma keeps_process:
  "keeps holds isShuttingDown" "keeps holds requestShutdown"
  "keeps holds (incrementCounter name labels v)" "keeps holds (incrementGauge name)"
  "keeps holds (decrementGauge name)" "keeps holds (observeHistogram name labels)"
  "keeps holds math_random" "keeps holds (generate tp)"
  unfolding isShuttingDown_def generate_def bind_io_def then_io_def requestShutdown_def incrementCounter_def incrementGauge_def
    decrementGauge_def observeHistogram_def math_random_def keeps_def
  by (simp_all add: holds_def)

lemma keeps_sleep: "keeps holds (sleep tp ms)"
proof (rule keepsI)
  fix w assume "holds w"
  obtain t w' where n: "next_tick tp w = (t, w')" by (metis surj_pair)
  from holds_tick [OF \<open>holds w\<close> n] show "holds (snd (sleep tp ms w))" by (simp add: sleep_def n holds_def)
qed

lemmas keeps_world = keeps_db_query keeps_adapters keeps_process keeps_sleep

end

subsection \<open>The invariant of the database under every schedule\<close>

text \<open>Other workers commit batches whose delta counts their entries.\<close>

fun consistent_action :: "env_action \<Rightarrow> bool" where
  "consistent_action (Commit_Batch i input) = batch_ok input"
| "consistent_action _ = True"

definition db_consistent :: "third_party \<Rightarrow> db \<Rightarrow> bool" where
  "db_consistent tp d \<longleftrightarrow> (inj (tp_uuid tp) \<longrightarrow> db_ok tp d)"

lemma status_only_intros [simp]:
  "status_only cancelling" "status_only (\<lambda>r. r\<lparr>im_status := s\<rparr>)"
  by (simp_all add: status_only_def cancelling_def)

lemma db_ok_action:
  assumes "consistent_action a" "db_ok tp d" "inj (tp_uuid tp)"
  shows "db_ok tp (action_db tp now a d)"
  using assms
  by (cases a) (auto simp: run_tx_def split: sum.splits
      intro: db_ok_update db_ok_create_import db_ok_create_file db_ok_commit)

interpretation consistent: environment tp consistent_action "\<lambda>d obs. db_consistent tp d" for tp
  by unfold_locales (auto simp: db_consistent_def intro: db_ok_action)

section \<open>A world left alone\<close>

lemma quiet_next_tick: "w_schedule w = [] \<Longrightarrow> next_tick tp w = (quiet_tick, w)"
  by (simp add: next_tick_def)

lemma quiet_call: "w_schedule w = [] \<Longrightarrow> call tp f w = f quiet_tick w"
  by (simp add: call_def quiet_next_tick) (simp add: quiet_tick_def)

lemma quiet_db_query [simp]: "w_schedule w = [] \<Longrightarrow> db_query tp f w = (Inr (f (w_db w)), w)"
  by (simp add: db_query_def quiet_call)

lemma quiet_db_call:
  "w_schedule w = [] \<Longrightarrow> db_call tp g w =
     (case g (w_now w) (w_db w) of Inl e \<Rightarrow> (Inl e, w) | Inr (x, d) \<Rightarrow> (Inr x, w\<lparr>w_db := d\<rparr>))"
  by (simp add: db_call_def quiet_call)

section \<open>One call\<close>

text \<open>The others change the database and the shutdown flag only.\<close>

lemma next_tick_same:
  assumes "next_tick tp w = (t, w')"
  shows "w_objects w' = w_objects w" "w_queue w' = w_queue w" "w_generated w' = w_generated w"
    "w_counters w' = w_counters w" "w_gauges w' = w_gauges w" "w_histograms w' = w_histograms w"
    "w_delays w' = w_delays w"
proof -
  have "w_objects (fold (apply_action tp) as v) = w_objects v \<and> w_queue (fold (apply_action tp) as v) = w_queue v \<and>
      w_generated (fold (apply_action tp) as v) = w_generated v \<and>
      w_counters (fold (apply_action tp) as v) = w_counters v \<and>
      w_gauges (fold (apply_action tp) as v) = w_gauges v \<and>
      w_histograms (fold (apply_action tp) as v) = w_histograms v \<and>
      w_delays (fold (apply_action tp) as v) = w_delays v" for as v
    by (induction as arbitrary: v) (simp_all add: apply_action_def)
  then show "w_objects w' = w_objects w" "w_queue w' = w_queue w" "w_generated w' = w_generated w"
    "w_counters w' = w_counters w" "w_gauges w' = w_gauges w" "w_histograms w' = w_histograms w"
    "w_delays w' = w_delays w"
    using assms by (auto simp: next_tick_def split: list.splits)
qed

lemma call_InrE:
  assumes "call tp f w = (Inr x, w')"
  obtains t w1 where "next_tick tp w = (t, w1)" "f t w1 = (Inr x, w')"
  using assms by (auto simp: call_def split: prod.splits fault.splits)

lemma call_InlE:
  assumes "call tp f w = (Inl e, w')"
  obtains t w1 where "next_tick tp w = (t, w1)" "w' = w1 \<or> w' = snd (f t w1)"
  using assms by (auto simp: call_def split: prod.splits fault.splits)

lemma db_call_InrE:
  assumes "db_call tp g w = (Inr x, w')"
  obtains t w1 d where "next_tick tp w = (t, w1)" "g (w_now w1) (w_db w1) = Inr (x, d)" "w' = w1\<lparr>w_db := d\<rparr>"
  using assms unfolding db_call_def by (elim call_InrE) (auto split: sum.splits)

lemma db_query_InrE:
  assumes "db_query tp f w = (Inr x, w')"
  obtains t where "next_tick tp w = (t, w')" "x = f (w_db w')"
  using assms unfolding db_query_def by (elim call_InrE) auto

text \<open>An assertion that the tick and the effect keep.\<close>

lemma keeps_call_tick:
  assumes "\<And>w t w1. I w \<Longrightarrow> next_tick tp w = (t, w1) \<Longrightarrow> I w1" "\<And>t w. I w \<Longrightarrow> I (snd (f t w))"
  shows "keeps I (call tp f)"
proof (rule keepsI)
  fix w assume "I w"
  obtain t w1 where n: "next_tick tp w = (t, w1)" by (metis surj_pair)
  with assms \<open>I w\<close> have "I w1" "I (snd (f t w1))" by blast+
  with n show "I (snd (call tp f w))" by (auto simp: call_def split: fault.split)
qed

text \<open>Storage and queue as they were.\<close>

definition same_effects :: "world \<Rightarrow> world \<Rightarrow> bool" where
  "same_effects w w' \<longleftrightarrow> w_objects w' = w_objects w \<and> w_queue w' = w_queue w"

lemma same_effects_refl [simp]: "same_effects w w"
  by (simp add: same_effects_def)

lemma same_effects_tick: "same_effects v w \<Longrightarrow> next_tick tp w = (t, w1) \<Longrightarrow> same_effects v w1"
  by (simp add: same_effects_def next_tick_same)

lemma same_effects_db [simp]: "same_effects v (w\<lparr>w_db := d\<rparr>) \<longleftrightarrow> same_effects v w"
  by (simp add: same_effects_def)

lemma same_effects_db_calls: "keeps (same_effects v) (db_call tp g)" "keeps (same_effects v) (db_query tp f)"
  unfolding db_call_def db_query_def
  by (rule keeps_call_tick; auto split: sum.split intro: same_effects_tick)+

end
