(* ===== verification/Retry.thy ===== *)
theory Retry
  imports World
begin

text \<open>
  \<open>src/shared/adapters/exponentialBackoffRetryPolicy.ts\<close>: an operation is tried up to
  \<open>maxAttempts\<close> times, with a growing, jittered delay between two attempts.  \<open>retry_from\<close> is the
  \<open>for (;;)\<close> loop from a given attempt on; it ends because an attempt that is not below
  \<open>maxAttempts\<close> never waits for another.

  \<open>retry_port\<close> is what the repository relies on: an assertion that is kept while waiting, and
  that a failing attempt keeps, is still there when the policy gives up, and a success is the
  success of one attempt.
\<close>

record retry_config =
  rc_maxAttempts :: nat
  rc_baseDelayMs :: rat
  rc_maxDelayMs :: rat

text \<open>\<open>setTimeout\<close> turns a delay that is not a positive 31-bit number into 1.\<close>

definition timer_ms :: "jsnum \<Rightarrow> int" where
  "timer_ms d = (case d of Fin r \<Rightarrow> if 1 \<le> r \<and> r < 2 ^ 31 then \<lfloor>r\<rfloor> else 1 | _ \<Rightarrow> 1)"

definition computeDelayMs :: "retry_config \<Rightarrow> nat \<Rightarrow> rat \<Rightarrow> jsnum" where
  "computeDelayMs cfg attempt random =
     (let exponential = js_mul (Fin (rc_baseDelayMs cfg)) (fl (2 ^ (attempt - 1)));
          capped = js_min exponential (Fin (rc_maxDelayMs cfg));
          jitter = js_mul (js_mul (Fin random) capped) (Fin (1/2))
      in js_round (js_add (js_mul capped (Fin (1/2))) jitter))"

function retry_from ::
  "third_party \<Rightarrow> retry_config \<Rightarrow> string \<Rightarrow> (world, exn, 'a) io \<Rightarrow> (exn \<Rightarrow> bool) \<Rightarrow>
   (world, exn, bool) io option \<Rightarrow> nat \<Rightarrow> (world, exn, 'a) io" where
  "retry_from tp cfg operationName fn isRetryable shouldAbort attempt =
     catch_io fn (\<lambda>err.
       if \<not> isRetryable err \<or> \<not> attempt < rc_maxAttempts cfg
       then then_io (incrementCounter ''retry_exhausted_total'' [(''operation'', operationName)] 1)
              (throw_io err)
       else bind_io (case shouldAbort of None \<Rightarrow> return_io False | Some m \<Rightarrow> m) (\<lambda>abort.
         if abort
         then then_io (incrementCounter ''retry_aborted_total'' [(''operation'', operationName)] 1)
                (throw_io (RetryAborted operationName))
         else bind_io math_random (\<lambda>random.
           then_io (incrementCounter ''retry_attempts_total'' [(''operation'', operationName)] 1)
             (then_io (sleep tp (timer_ms (computeDelayMs cfg attempt random)))
               (retry_from tp cfg operationName fn isRetryable shouldAbort (attempt + 1))))))"
  by pat_completeness auto
termination
  by (relation "measure (\<lambda>(tp, cfg, _, _, _, _, attempt). rc_maxAttempts cfg - attempt)") auto

declare retry_from.simps [simp del]

definition retry_execute ::
  "third_party \<Rightarrow> retry_config \<Rightarrow> string \<Rightarrow> (world, exn, 'a) io \<Rightarrow> (exn \<Rightarrow> bool) \<Rightarrow>
   (world, exn, bool) io option \<Rightarrow> (world, exn, 'a) io" where
  "retry_execute tp cfg operationName fn isRetryable shouldAbort =
     retry_from tp cfg operationName fn isRetryable shouldAbort 1"

section \<open>The contract of the port\<close>

text \<open>An assertion that waiting and counting keep.\<close>

definition idle :: "third_party \<Rightarrow> (world \<Rightarrow> bool) \<Rightarrow> bool" where
  "idle tp I \<longleftrightarrow> (\<forall>ms. keeps I (sleep tp ms)) \<and> (\<forall>name labels v. keeps I (incrementCounter name labels v))"

locale retry_port =
  fixes tp :: third_party
    and execute :: "string \<Rightarrow> (world, exn, 'a) io \<Rightarrow> (exn \<Rightarrow> bool) \<Rightarrow> (world, exn, bool) io option \<Rightarrow>
      (world, exn, 'a) io"
  assumes attempts: "idle tp I \<Longrightarrow> triple I fn Q (\<lambda>_. I) \<Longrightarrow> triple I (execute op fn r None) Q (\<lambda>_. I)"
    and first_success: "fn w = (Inr x, w') \<Longrightarrow> execute op fn r a w = (Inr x, w')"
begin

lemma keeps_execute: "idle tp I \<Longrightarrow> keeps I fn \<Longrightarrow> keeps I (execute op fn r None)"
  unfolding triple_keeps [symmetric] by (rule attempts)

end

lemma retry_from_attempts:
  assumes "idle tp I" "triple I fn Q (\<lambda>_. I)"
  shows "triple I (retry_from tp cfg op fn r None attempt) Q (\<lambda>_. I)"
  using assms
proof (induction tp cfg op fn r "None :: (world, exn, bool) io option" attempt rule: retry_from.induct)
  case (1 tp cfg op fn r attempt)
  have k: "keeps I (incrementCounter name labels v)" "keeps I (sleep tp ms)" "keeps I math_random"
    for name labels v ms
    using 1(2) by (auto simp: idle_def math_random_def intro: keeps_read)
  show ?case
  proof (subst retry_from.simps, rule triple_catch [OF 1(3)], rule triple_if)
    fix e assume "\<not> r e \<or> \<not> attempt < rc_maxAttempts cfg"
    show "triple I (then_io (incrementCounter ''retry_exhausted_total'' [(''operation'', op)] 1) (throw_io e)) Q (\<lambda>_. I)"
      by (rule triple_then [where R = I]) (simp_all add: triple_keeps k, simp add: triple_def)
  next
    fix e assume c: "\<not> (\<not> r e \<or> \<not> attempt < rc_maxAttempts cfg)"
    let ?again = "bind_io math_random (\<lambda>random.
      then_io (incrementCounter ''retry_attempts_total'' [(''operation'', op)] 1)
        (then_io (sleep tp (timer_ms (computeDelayMs cfg attempt random)))
          (retry_from tp cfg op fn r None (attempt + 1))))"
    have "triple I ?again Q (\<lambda>_. I)"
    proof (rule triple_bind [where R = "\<lambda>_. I"])
      fix random
      show "triple I (then_io (incrementCounter ''retry_attempts_total'' [(''operation'', op)] 1)
          (then_io (sleep tp (timer_ms (computeDelayMs cfg attempt random)))
            (retry_from tp cfg op fn r None (attempt + 1)))) Q (\<lambda>_. I)"
      proof (intro triple_then [where R = I])
        show "triple I (retry_from tp cfg op fn r None (attempt + 1)) Q (\<lambda>_. I)"
          using c 1(2,3) by (intro 1(1) [of e False]) simp_all
      qed (simp_all add: triple_keeps k)
    qed (simp add: triple_keeps k)
    then show "triple I (bind_io (case None of None \<Rightarrow> return_io False | Some m \<Rightarrow> m) (\<lambda>abort.
        if abort
        then then_io (incrementCounter ''retry_aborted_total'' [(''operation'', op)] 1)
               (throw_io (RetryAborted op))
        else ?again)) Q (\<lambda>_. I)"
      by (simp add: bind_io_def [of "return_io False"])
  qed
qed

interpretation backoff: retry_port tp "retry_execute tp cfg" for tp cfg
proof
  show "triple I (retry_execute tp cfg op fn r None) Q (\<lambda>_. I)"
    if "idle tp I" "triple I fn Q (\<lambda>_. I)" for I op fn r Q
    unfolding retry_execute_def using that by (rule retry_from_attempts)
  show "retry_execute tp cfg op fn r a w = (Inr x, w')" if "fn w = (Inr x, w')" for op fn r a w x w'
    unfolding retry_execute_def by (subst retry_from.simps) (simp add: that)
qed

context environment
begin

lemma idle_holds: "idle tp holds"
  by (simp add: idle_def keeps_world)

end

section \<open>Delays\<close>

lemma js_mul_commute: "js_mul x y = js_mul y x"
  by (cases x; cases y) (auto simp: mult.commute)

text \<open>Before the jitter: the exponential value, capped.\<close>

lemma capped_delay:
  assumes "1 \<le> b" "b \<le> 2 ^ 29" "1 \<le> m" "m \<le> 2 ^ 29"
  shows "js_min (js_mul (Fin (of_int (2 * b))) (fl (2 ^ k))) (Fin (of_int (2 * m))) =
    Fin (of_int (2 * min (b * 2 ^ k) m))"
proof (cases "b * 2 ^ k \<le> m")
  case True
  have "1 * 2 ^ k \<le> b * (2 :: int) ^ k" using assms(1) by (intro mult_right_mono) simp_all
  then have "2 ^ k \<le> m" using True by linarith
  moreover have "m \<le> 2 ^ 53" using assms(4) by simp
  ultimately have "(2 :: int) ^ k \<le> 2 ^ 53" by linarith
  then have p: "fl (2 ^ k) = Fin (of_int (2 ^ k))" using fl_of_int [of "2 ^ k"] by simp
  have "fl (of_int (2 * b) * of_int (2 ^ k)) = Fin (of_int (2 * (b * 2 ^ k)))"
    using fl_of_int [of "2 * (b * 2 ^ k)"] True assms by (simp add: mult.assoc)
  moreover have "(of_int (2 * (b * 2 ^ k)) :: rat) \<le> of_int (2 * m)"
    using True by (simp only: of_int_le_iff)
  ultimately show ?thesis using True unfolding p by (simp add: js_min_def)
next
  case False
  have "js_le (Fin (of_int (2 * m))) (js_mul (Fin (of_int (2 * b))) (fl (2 ^ k)))"
  proof (cases "(2 :: int) ^ k \<le> 2 ^ 53")
    case True
    then have p: "fl (2 ^ k) = Fin (of_int (2 ^ k))" using fl_of_int [of "2 ^ k"] by simp
    have "(of_int (2 * m) :: rat) \<le> of_int (2 * (b * 2 ^ k))" using False by (simp only: of_int_le_iff)
    then show ?thesis unfolding p using js_le_fl_int [of "2 * m" "of_int (2 * (b * 2 ^ k))"] assms by (simp add: mult.assoc)
  next
    case big: False
    have "(of_int (2 ^ 53) :: rat) \<le> of_int (2 ^ k)"
      using big by (simp only: of_int_le_iff)
    then have "js_le (Fin (of_int (2 ^ 53))) (fl (of_int (2 ^ k)))"
      by (rule js_le_fl_int) simp
    then have x: "js_le (js_mul (Fin (of_int (2 ^ 53))) (Fin (of_int (2 * b))))
        (js_mul (fl (of_int (2 ^ k))) (Fin (of_int (2 * b))))"
      using assms(1) by (intro js_le_mul) simp_all
    have "2 * m \<le> 2 ^ 53 * (2 * b)" using assms by simp
    then have "(of_int (2 * m) :: rat) \<le> of_int (2 ^ 53 * (2 * b))" by (simp only: of_int_le_iff)
    moreover have "\<bar>2 * m\<bar> \<le> 2 ^ 53" using assms by simp
    ultimately have "js_le (Fin (of_int (2 * m))) (fl (of_int (2 ^ 53 * (2 * b))))"
      by (rule js_le_fl_int)
    then have y: "js_le (Fin (of_int (2 * m))) (js_mul (Fin (of_int (2 ^ 53))) (Fin (of_int (2 * b))))"
      by simp
    have "(of_int (2 ^ k) :: rat) = 2 ^ k" by simp
    then show ?thesis
      using js_le_trans [OF y x] js_mul_commute [of "Fin (of_int (2 * b))" "fl (2 ^ k)"] by (simp only:)
  qed
  moreover have "min (b * 2 ^ k) m = m" using False by simp
  moreover have "js_min x (Fin y) = Fin y" if "js_le (Fin y) x" for x y
    using that by (cases x) (auto simp: js_min_def)
  ultimately show ?thesis by simp
qed

lemma jittered_delay:
  assumes "1 \<le> c" "c \<le> 2 ^ 29" "0 \<le> r" "r < 1"
  shows "\<exists>n. js_round (js_add (js_mul (Fin (of_int (2 * c))) (Fin (1/2)))
      (js_mul (js_mul (Fin r) (Fin (of_int (2 * c)))) (Fin (1/2)))) = Fin (of_int n) \<and> c \<le> n \<and> n \<le> 2 * c"
proof -
  have half: "fl (of_int c) = Fin (of_int c)" using assms by (intro fl_of_int) simp
  have C: "(0 :: rat) \<le> of_int (2 * c)" using assms(1) by simp
  have "r * of_int (2 * c) \<le> 1 * of_int (2 * c)" using assms C by (intro mult_right_mono) simp_all
  then obtain x where x: "fl (r * of_int (2 * c)) = Fin x" "0 \<le> x" "x \<le> of_int (2 * c)"
    using fl_bounds [of 0 "r * of_int (2 * c)" "2 * c"] assms C by auto
  then obtain y where y: "fl (x * (1/2)) = Fin y" "0 \<le> y" "y \<le> of_int c"
    using fl_bounds [of 0 "x * (1/2)" c] assms by auto
  then obtain z where z: "fl (of_int c + y) = Fin z" "of_int c \<le> z" "z \<le> of_int (2 * c)"
    using fl_bounds [of c "of_int c + y" "2 * c"] assms by auto
  have "c \<le> \<lfloor>z + 1/2\<rfloor>" using z(2) by (simp add: le_floor_iff)
  moreover have "\<lfloor>z + 1/2\<rfloor> \<le> 2 * c" using z(3) by (simp add: floor_le_iff)
  ultimately show ?thesis using half x(1) y(1) z(1) by (intro exI [of _ "\<lfloor>z + 1/2\<rfloor>"]) simp
qed

text \<open>With even settings the delay before attempt \<open>k + 1\<close> is between half the capped
  exponential value and the whole of it.\<close>

definition half_cap :: "int \<Rightarrow> int \<Rightarrow> nat \<Rightarrow> int" where
  "half_cap b m k = min (b * 2 ^ (k - 1)) m"

lemma delay_bounds:
  assumes "rc_baseDelayMs cfg = of_int (2 * b)" "rc_maxDelayMs cfg = of_int (2 * m)"
    and "1 \<le> b" "b \<le> 2 ^ 29" "1 \<le> m" "m \<le> 2 ^ 29" "0 \<le> r" "r < 1"
  shows "half_cap b m k \<le> timer_ms (computeDelayMs cfg k r) \<and>
    timer_ms (computeDelayMs cfg k r) \<le> 2 * half_cap b m k"
proof -
  let ?c = "half_cap b m k"
  have "1 * 1 \<le> b * 2 ^ (k - 1)" using assms(3) by (intro mult_mono) simp_all
  then have c: "1 \<le> ?c" "?c \<le> 2 ^ 29" using assms by (simp_all add: half_cap_def)
  from jittered_delay [OF c assms(7,8)] obtain n where
    n: "computeDelayMs cfg k r = Fin (of_int n)" "?c \<le> n" "n \<le> 2 * ?c"
    unfolding computeDelayMs_def Let_def assms(1,2) capped_delay [OF assms(3-6)] half_cap_def by auto
  have "(1 :: rat) \<le> of_int n" "(of_int n :: rat) < 2 ^ 31"
    using n c of_int_less_iff [of n "2 ^ 31", where ?'a = rat] by (simp_all del: of_int_less_iff)
  with n show ?thesis by (simp add: timer_ms_def)
qed

section \<open>Bounded retries\<close>

lemma w_delays_tick: "next_tick tp w = (t, w') \<Longrightarrow> w_delays w' = w_delays w"
proof -
  have "w_delays (fold (apply_action tp) as v) = w_delays v" for as v
    by (induction as arbitrary: v) (simp_all add: apply_action_def)
  then show "next_tick tp w = (t, w') \<Longrightarrow> w_delays w' = w_delays w"
    by (auto simp: next_tick_def split: list.splits)
qed

text \<open>The delays of a run that starts at an attempt: one per retry, in order.\<close>

lemma retry_from_delays:
  assumes "\<And>w. w_delays (snd (fn w)) = w_delays w"
  shows "\<exists>rs. w_delays (snd (retry_from tp cfg op fn isR None attempt w)) =
      w_delays w @ map (\<lambda>j. timer_ms (computeDelayMs cfg (attempt + j) (rs ! j))) [0..<length rs] \<and>
    length rs \<le> rc_maxAttempts cfg - attempt \<and> list_all (\<lambda>r. 0 \<le> r \<and> r < 1) rs"
  using assms
proof (induction tp cfg op fn isR "None :: (world, exn, bool) io option" attempt arbitrary: w
    rule: retry_from.induct)
  case (1 tp cfg op fn isR attempt)
  show ?case
  proof (cases "fn w" rule: prod.exhaust)
    case (Pair res w1)
    have w1: "w_delays w1 = w_delays w" using 1(2) [of w] Pair by simp
    show ?thesis
    proof (cases res)
      case (Inr x)
      with Pair w1 show ?thesis by (subst retry_from.simps) (auto intro: exI [of _ "[]"])
    next
      case (Inl e)
      note f = Pair [unfolded Inl]
      show ?thesis
      proof (cases "isR e \<and> attempt < rc_maxAttempts cfg")
        case False
        with f w1 show ?thesis
          by (subst retry_from.simps)
            (auto simp: incrementCounter_def then_io_def bind_io_def intro: exI [of _ "[]"])
      next
        case True
        define r where "r = (case w_schedule w1 of [] \<Rightarrow> 0 | t # _ \<Rightarrow> frac (tk_random t))"
        have r: "0 \<le> r" "r < 1" by (simp_all add: r_def frac_ge_0 frac_lt_1 split: list.split)
        let ?ms = "timer_ms (computeDelayMs cfg attempt r)"
        define w2 where "w2 = snd (incrementCounter ''retry_attempts_total'' [(''operation'', op)] 1 w1)"
        obtain t w3 where t: "next_tick tp w2 = (t, w3)" by (metis surj_pair)
        define w4 where "w4 = w3\<lparr>w_now := w_now w3 + ?ms, w_delays := w_delays w3 @ [?ms]\<rparr>"
        have run: "retry_from tp cfg op fn isR None attempt w =
            retry_from tp cfg op fn isR None (attempt + 1) w4"
          using f True t
          by (subst retry_from.simps)
            (simp add: bind_io_def then_io_def incrementCounter_def math_random_def sleep_def w2_def w4_def
              r_def [symmetric])
        have d4: "w_delays w4 = w_delays w @ [?ms]"
          using w_delays_tick [OF t] w1 by (simp add: w4_def w2_def incrementCounter_def)
        from 1(1) [of e False w4] True 1(2) obtain rs where rs:
          "w_delays (snd (retry_from tp cfg op fn isR None (attempt + 1) w4)) =
             w_delays w4 @ map (\<lambda>j. timer_ms (computeDelayMs cfg (attempt + 1 + j) (rs ! j))) [0..<length rs]"
          "length rs \<le> rc_maxAttempts cfg - (attempt + 1)" "list_all (\<lambda>r. 0 \<le> r \<and> r < 1) rs"
          by auto
        have "[0..<length (r # rs)] = 0 # map Suc [0..<length rs]"
          by (simp add: upt_conv_Cons map_Suc_upt del: upt_Suc)
        then have "map (\<lambda>j. timer_ms (computeDelayMs cfg (attempt + j) ((r # rs) ! j))) [0..<length (r # rs)] =
            ?ms # map (\<lambda>j. timer_ms (computeDelayMs cfg (attempt + 1 + j) (rs ! j))) [0..<length rs]"
          by simp
        with rs r d4 True show ?thesis unfolding run by (intro exI [of _ "r # rs"]) auto
      qed
    qed
  qed
qed

section \<open>Properties\<close>

lemma nth_append_map_upt: "j < n \<Longrightarrow> (xs @ map f [0..<n]) ! (length xs + j) = f j"
  by simp

text \<open>C38. A retried operation waits at most \<open>maxAttempts - 1\<close> times, so it is tried at most
  \<open>maxAttempts\<close> times, and the wait after attempt \<open>k\<close> lies between one half and the whole of
  \<open>min(baseDelayMs * 2^(k-1), maxDelayMs)\<close>, whatever the jitter: no wait is near zero, none
  exceeds the cap.  (Even settings up to \<open>2 ^ 30\<close>, as the defaults 100 and 2000.)\<close>

theorem retry_waits_bounded:
  assumes "\<And>w. w_delays (snd (fn w)) = w_delays w"
    and "rc_baseDelayMs cfg = of_int (2 * b)" "1 \<le> b" "b \<le> 2 ^ 29"
    and "rc_maxDelayMs cfg = of_int (2 * m)" "1 \<le> m" "m \<le> 2 ^ 29"
  shows "\<exists>ds. w_delays (snd (retry_execute tp cfg op fn isRetryable None w)) = w_delays w @ ds \<and>
    length ds \<le> rc_maxAttempts cfg - 1 \<and>
    list_all2 (\<lambda>d k. min (b * 2 ^ k) m \<le> d \<and> d \<le> 2 * min (b * 2 ^ k) m) ds [0..<length ds]"
proof -
  from retry_from_delays [OF assms(1), where tp = tp and cfg = cfg and op = op and isR = isRetryable
      and attempt = 1 and w = w] obtain rs where rs:
    "w_delays (snd (retry_execute tp cfg op fn isRetryable None w)) =
       w_delays w @ map (\<lambda>j. timer_ms (computeDelayMs cfg (1 + j) (rs ! j))) [0..<length rs]"
    "length rs \<le> rc_maxAttempts cfg - 1" "list_all (\<lambda>r. 0 \<le> r \<and> r < 1) rs"
    unfolding retry_execute_def by blast
  let ?ds = "map (\<lambda>j. timer_ms (computeDelayMs cfg (1 + j) (rs ! j))) [0..<length rs]"
  have "half_cap b m (Suc k) \<le> timer_ms (computeDelayMs cfg (Suc k) (rs ! k)) \<and>
      timer_ms (computeDelayMs cfg (Suc k) (rs ! k)) \<le> 2 * half_cap b m (Suc k)" if "k < length rs" for k
    using that rs(3) by (intro delay_bounds [OF assms(2,5,3,4,6,7)]) (simp_all add: list_all_length)
  then have "list_all2 (\<lambda>d k. min (b * 2 ^ k) m \<le> d \<and> d \<le> 2 * min (b * 2 ^ k) m) ?ds [0..<length ?ds]"
    by (simp add: list_all2_conv_all_nth half_cap_def)
  with rs(1,2) show ?thesis by (intro exI [of _ ?ds]) simp
qed

definition default_retry :: retry_config where
  "default_retry = \<lparr>rc_maxAttempts = 4, rc_baseDelayMs = 100, rc_maxDelayMs = 2000\<rparr>"

theorem retry_waits_bounded_witness:
  "\<forall>w. \<exists>ds. w_delays (snd (retry_execute no_third_party default_retry ''op'' (throw_io PrismaInit :: (world, exn, unit) io)
       (\<lambda>_. True) None w)) = w_delays w @ ds \<and> length ds \<le> 3 \<and>
     list_all2 (\<lambda>d k. min (50 * 2 ^ k) 1000 \<le> d \<and> d \<le> 2 * min (50 * 2 ^ k) 1000) ds [0..<length ds]"
proof
  fix w
  show "\<exists>ds. w_delays (snd (retry_execute no_third_party default_retry ''op'' (throw_io PrismaInit :: (world, exn, unit) io)
       (\<lambda>_. True) None w)) = w_delays w @ ds \<and> length ds \<le> 3 \<and>
     list_all2 (\<lambda>d k. min (50 * 2 ^ k) 1000 \<le> d \<and> d \<le> 2 * min (50 * 2 ^ k) 1000) ds [0..<length ds]"
    using retry_waits_bounded [of "throw_io PrismaInit :: (world, exn, unit) io" default_retry 50 1000
        no_third_party "''op''" "\<lambda>_. True" w]
    by (simp add: default_retry_def)
qed

end
