(* ===== verification/Cursor.thy ===== *)
theory Cursor
  imports Iso_Date
begin

text \<open>
  \<open>src/shared/utils/cursor.ts\<close>, and \<open>Number(text)\<close>, which \<open>decodeRejectionCursor\<close> applies to the
  first part of a cursor.  The lemmas show that a cursor decodes to its parts when no text
  part contains the separator.
\<close>

datatype cursor_part = Text_Part jsstring | Int_Part int

fun part_text :: "cursor_part \<Rightarrow> jsstring" where
  "part_text (Text_Part s) = s"
| "part_text (Int_Part n) = decimal_int n"

definition encodeCursor :: "cursor_part list \<Rightarrow> jsstring" where
  "encodeCursor parts = base64url_encode (utf8_encode (join_with 58 (map part_text parts)))"

definition decodeCursor :: "jsstring \<Rightarrow> jsstring list" where
  "decodeCursor cursor = split_on 58 (utf8_decode (base64url_decode cursor))"

section \<open>Number(text)\<close>

definition is_sign :: "code_unit \<Rightarrow> bool" where
  "is_sign c \<longleftrightarrow> c = 43 \<or> c = 45"

text \<open>An exponent part, or nothing.\<close>

definition number_exponent :: "jsstring \<Rightarrow> int option" where
  "number_exponent s =
     (if s = [] then Some 0
      else if hd s \<in> {101, 69} then
        (let r = tl s; ds = (if r \<noteq> [] \<and> is_sign (hd r) then tl r else r)
         in if ds \<noteq> [] \<and> list_all is_digit ds
            then Some (if r \<noteq> ds \<and> hd r = 45 then - digits_value ds else digits_value ds) else None)
      else None)"

text \<open>\<open>StrUnsignedDecimalLiteral\<close>.\<close>

definition unsigned_number :: "jsstring \<Rightarrow> jsnum" where
  "unsigned_number s =
     (if s = js ''Infinity'' then PosInf
      else
        (let whole = takeWhile is_digit s; r = dropWhile is_digit s;
             point = (r \<noteq> [] \<and> hd r = 46);
             frac = (if point then takeWhile is_digit (tl r) else []);
             rest = (if point then dropWhile is_digit (tl r) else r)
         in if whole = [] \<and> frac = [] then NaN
            else (case number_exponent rest of
                    None \<Rightarrow> NaN
                  | Some e \<Rightarrow> fl (of_int (digits_value (whole @ frac)) * 10 powi (e - int (length frac))))))"

definition radix_value :: "int \<Rightarrow> jsstring \<Rightarrow> jsnum" where
  "radix_value b s =
     (let value = (\<lambda>c. if is_digit c then digit_value c
                       else if 97 \<le> c \<and> c \<le> 102 then uint c - 87
                       else if 65 \<le> c \<and> c \<le> 70 then uint c - 55 else 99)
      in if s \<noteq> [] \<and> list_all (\<lambda>c. value c < b) s
         then fl (of_int (foldl (\<lambda>a c. b * a + value c) 0 s)) else NaN)"

definition js_to_number :: "jsstring \<Rightarrow> jsnum" where
  "js_to_number text =
     (let s = js_trim text; p = take 2 s in
      if s = [] then Fin 0
      else if p = js ''0x'' \<or> p = js ''0X'' then radix_value 16 (drop 2 s)
      else if p = js ''0o'' \<or> p = js ''0O'' then radix_value 8 (drop 2 s)
      else if p = js ''0b'' \<or> p = js ''0B'' then radix_value 2 (drop 2 s)
      else if hd s = 45 then js_neg (unsigned_number (tl s))
      else if hd s = 43 then unsigned_number (tl s)
      else unsigned_number s)"

section \<open>Round trips\<close>

lemma join_ascii: "list_all (list_all is_ascii) xs \<Longrightarrow> list_all is_ascii (join_with 58 xs)"
  by (induction "58 :: code_unit" xs rule: join_with.induct) (auto simp: is_ascii_def)

lemma cursor_round_trip_texts:
  assumes "parts \<noteq> []"
    and "list_all (\<lambda>p. list_all is_ascii (part_text p) \<and> 58 \<notin> set (part_text p)) parts"
  shows "decodeCursor (encodeCursor parts) = map part_text parts"
proof -
  have "list_all is_ascii (join_with 58 (map part_text parts))"
    using assms(2) by (intro join_ascii) (simp add: list_all_iff)
  then have "utf8_decode (utf8_encode (join_with 58 (map part_text parts))) = join_with 58 (map part_text parts)"
    by (rule utf8_round_trip_ascii)
  then show ?thesis
    using assms by (simp add: encodeCursor_def decodeCursor_def base64url_round_trip)
      (intro split_join, auto simp: list_all_iff)
qed

lemma digit_ascii: "is_digit c \<Longrightarrow> is_ascii c \<and> c \<noteq> 58 \<and> \<not> is_js_space c"
  by (auto simp: is_digit_def is_ascii_def is_js_space_def word_le_def word_less_def)

lemma decimal_int_part:
  assumes "0 \<le> n"
  shows "list_all is_ascii (part_text (Int_Part n)) \<and> 58 \<notin> set (part_text (Int_Part n))"
  using decimal_nonneg_digits [OF assms] digit_ascii assms
  by (auto simp: decimal_int_def list_all_iff)

lemma js_trim_digits: "list_all is_digit s \<Longrightarrow> js_trim s = s"
proof -
  assume s: "list_all is_digit s"
  have "dropWhile is_js_space x = x" if "set x \<subseteq> set s" for x
    using that s digit_ascii by (cases x) (auto simp: list_all_iff)
  then show ?thesis by (simp add: js_trim_def)
qed

lemma js_to_number_decimal:
  assumes "0 \<le> n" "n \<le> 2 ^ 53"
  shows "js_to_number (decimal n) = Fin (of_int n)"
proof -
  have d: "list_all is_digit (decimal n)" "decimal n \<noteq> []" using decimal_nonneg_digits [OF assms(1)] by simp_all
  have no: "c \<notin> set (decimal n)" if "\<not> is_digit c" for c
    using d(1) that by (auto simp: list_all_iff)
  have "take 2 (decimal n) \<noteq> js [CHR ''0'', x]" if "\<not> is_digit (of_char x)" for x
  proof
    assume "take 2 (decimal n) = js [CHR ''0'', x]"
    then have "of_char x \<in> set (take 2 (decimal n))" by (simp add: js_simps)
    with no [OF that] show False by (auto dest: in_set_takeD)
  qed
  then have p: "take 2 (decimal n) \<notin> {js ''0x'', js ''0X'', js ''0o'', js ''0O'', js ''0b'', js ''0B''}"
    by (simp add: is_digit_def)
  have "\<not> is_digit 45" "\<not> is_digit 43" by (simp_all add: is_digit_def)
  then have h: "hd (decimal n) \<noteq> 45" "hd (decimal n) \<noteq> 43"
    using no hd_in_set [OF d(2)] by metis+
  have "of_char (CHR ''I'') \<in> set (js ''Infinity'')" by (simp add: js_simps)
  moreover have "\<not> is_digit (of_char (CHR ''I''))" by (simp add: is_digit_def)
  ultimately have i: "decimal n \<noteq> js ''Infinity''" using no by metis
  have w: "takeWhile is_digit (decimal n) = decimal n" "dropWhile is_digit (decimal n) = []"
    using d(1) by (auto simp: takeWhile_eq_all_conv dropWhile_eq_Nil_conv list_all_iff)
  have "unsigned_number (decimal n) = Fin (of_int n)"
    using i d(2) fl_of_int [of n] assms
    by (simp add: unsigned_number_def number_exponent_def Let_def w [unfolded list_all_iff] digits_value_decimal
        del: takeWhile_eq_all_conv)
  then show ?thesis
    using p h d by (simp add: js_to_number_def js_trim_digits Let_def)
qed

section \<open>Properties\<close>

text \<open>C39. A cursor decodes to exactly the parts it was made of, when every part is ASCII and
  none contains the separator: a line number and a UUID come back as they were.\<close>

theorem cursor_round_trip:
  assumes "0 \<le> n" "n \<le> 2 ^ 53" "list_all is_ascii i" "58 \<notin> set i"
  shows "decodeCursor (encodeCursor [Int_Part n, Text_Part i]) = [decimal n, i] \<and>
    js_to_number (decimal n) = Fin (of_int n)"
  using cursor_round_trip_texts [of "[Int_Part n, Text_Part i]"] decimal_int_part [OF assms(1)] assms
    js_to_number_decimal [OF assms(1,2)]
  by (simp add: decimal_int_def)

theorem cursor_round_trip_witness:
  "decodeCursor (encodeCursor [Int_Part 120, Text_Part (js ''3f-a0'')]) = [js ''120'', js ''3f-a0'']"
proof -
  have "decimal 120 = js ''120''" by code_simp
  with cursor_round_trip [of 120 "js ''3f-a0''"] show ?thesis by (simp add: js_simps is_ascii_def)
qed

end
