(* ===== verification/Repository.thy ===== *)
theory Repository
  imports Retry Cursor "HOL-Library.Product_Lexorder" "HOL-Library.List_Lexorder"
    "HOL-Library.Multiset"
begin

text \<open>
  \<open>PrismaImportRepository\<close> of \<open>src/modules/imports/imports.repository.ts\<close>: each method is a
  sequence of statements on the database of \<open>Database\<close>, each statement one tick of the
  schedule.  \<open>new Date()\<close> is read before the statement is sent.

  The lemmas give the triples of the methods in an environment, the page that
  \<open>getRejections\<close> returns for a cursor, and the groups of \<open>getSummary\<close>.  The properties are
  the completeness of cursor pagination under concurrent commits and the agreement of the
  summary with the counters.
\<close>

section \<open>Errors\<close>

definition UNIQUE_CONSTRAINT_VIOLATION :: string where
  "UNIQUE_CONSTRAINT_VIOLATION = ''P2002''"

definition RETRYABLE_PRISMA_ERROR_CODES :: "string list" where
  "RETRYABLE_PRISMA_ERROR_CODES =
     [''P1001'', ''P1002'', ''P1008'', ''P1017'', ''P2024'', ''P2028'', ''P2034'']"

fun isRetryableDbError :: "exn \<Rightarrow> bool" where
  "isRetryableDbError (PrismaKnown code) \<longleftrightarrow> code \<in> set RETRYABLE_PRISMA_ERROR_CODES"
| "isRetryableDbError PrismaInit \<longleftrightarrow> True"
| "isRetryableDbError _ \<longleftrightarrow> False"

section \<open>Imports and files\<close>

definition createPendingImport ::
  "third_party \<Rightarrow> jsstring \<Rightarrow> jsstring \<Rightarrow> (world, exn, import_row option) io" where
  "createPendingImport tp idempotencyKey providerId =
     catch_io
       (bind_io (db_call tp (\<lambda>now. create_import tp now idempotencyKey providerId)) (\<lambda>r. return_io (Some r)))
       (\<lambda>err. if err = PrismaKnown UNIQUE_CONSTRAINT_VIOLATION then return_io None else throw_io err)"

definition findByIdempotencyKey :: "third_party \<Rightarrow> jsstring \<Rightarrow> (world, exn, import_row option) io" where
  "findByIdempotencyKey tp k = db_query tp (find_import_by_key k)"

definition findById :: "third_party \<Rightarrow> jsstring \<Rightarrow> (world, exn, import_row option) io" where
  "findById tp i = db_query tp (find_import i)"

record attach_file_input =
  af_storageBucket :: jsstring
  af_storageKey :: jsstring
  af_sizeBytes :: int
  af_checksum :: jsstring
  af_originalFilename :: jsstring
  af_mimeType :: jsstring

text \<open>The row, but for its generated \<open>id\<close>.\<close>

definition file_row_of :: "jsstring \<Rightarrow> attach_file_input \<Rightarrow> int \<Rightarrow> file_row" where
  "file_row_of importId f now =
     \<lparr>uf_id = [], uf_importId = importId, uf_storageBucket = af_storageBucket f,
      uf_storageKey = af_storageKey f, uf_sizeBytes = af_sizeBytes f, uf_checksum = af_checksum f,
      uf_originalFilename = af_originalFilename f, uf_mimeType = af_mimeType f, uf_createdAt = now\<rparr>"

definition attachUploadedFile ::
  "third_party \<Rightarrow> jsstring \<Rightarrow> attach_file_input \<Rightarrow> (world, exn, unit) io" where
  "attachUploadedFile tp importId f =
     db_call tp (\<lambda>now. create_file tp (file_row_of importId f now))"

definition getUploadedFile :: "third_party \<Rightarrow> jsstring \<Rightarrow> (world, exn, file_row option) io" where
  "getUploadedFile tp importId = db_query tp (find_file importId)"

definition requestCancellation :: "third_party \<Rightarrow> jsstring \<Rightarrow> (world, exn, import_row option) io" where
  "requestCancellation tp i =
     bind_io (db_query tp (find_import i)) (\<lambda>existing.
       case existing of
         None \<Rightarrow> return_io None
       | Some r \<Rightarrow>
           if im_status r \<noteq> Pending \<and> im_status r \<noteq> Processing then return_io (Some r)
           else bind_io (db_call tp (\<lambda>_. update_import i cancelling)) (\<lambda>r'. return_io (Some r')))"

section \<open>Transitions of the worker\<close>

text \<open>The data of the four updates.\<close>

definition processing_at :: "int \<Rightarrow> import_row \<Rightarrow> import_row" where
  "processing_at now r = r\<lparr>im_status := Processing, im_startedAt := Some now\<rparr>"

definition completed_at :: "int \<Rightarrow> import_row \<Rightarrow> import_row" where
  "completed_at now r = r\<lparr>im_status := Completed, im_completedAt := Some now\<rparr>"

definition failed_at :: "int \<Rightarrow> string \<Rightarrow> import_row \<Rightarrow> import_row" where
  "failed_at now reason r =
     r\<lparr>im_status := Failed, im_completedAt := Some now, im_failureReason := Some reason\<rparr>"

definition cancelled_at :: "int \<Rightarrow> import_row \<Rightarrow> import_row" where
  "cancelled_at now r = r\<lparr>im_status := Cancelled, im_completedAt := Some now\<rparr>"

definition update_now :: "third_party \<Rightarrow> jsstring \<Rightarrow> (int \<Rightarrow> import_row \<Rightarrow> import_row) \<Rightarrow>
    (world, exn, import_row) io" where
  "update_now tp i f = bind_io (read_io w_now) (\<lambda>now. db_call tp (\<lambda>_. update_import i (f now)))"

definition markProcessing :: "third_party \<Rightarrow> jsstring \<Rightarrow> (world, exn, import_row option) io" where
  "markProcessing tp i =
     catch_io (bind_io (update_now tp i processing_at) (\<lambda>r. return_io (Some r)))
       (\<lambda>err. if err = PrismaKnown ''P2025'' then return_io None else throw_io err)"

definition markCompleted :: "third_party \<Rightarrow> jsstring \<Rightarrow> (world, exn, unit) io" where
  "markCompleted tp i = then_io (update_now tp i completed_at) (return_io ())"

definition markFailed :: "third_party \<Rightarrow> jsstring \<Rightarrow> string \<Rightarrow> (world, exn, unit) io" where
  "markFailed tp i reason = then_io (update_now tp i (\<lambda>now. failed_at now reason)) (return_io ())"

definition markCancelled :: "third_party \<Rightarrow> jsstring \<Rightarrow> (world, exn, unit) io" where
  "markCancelled tp i = then_io (update_now tp i cancelled_at) (return_io ())"

definition commitBatchOnce :: "third_party \<Rightarrow> jsstring \<Rightarrow> commit_input \<Rightarrow> (world, exn, commit_result) io" where
  "commitBatchOnce tp importId input = db_call tp (\<lambda>now. commit_batch_tx tp now importId input)"

definition commitBatch ::
  "third_party \<Rightarrow> retry_config \<Rightarrow> jsstring \<Rightarrow> commit_input \<Rightarrow> (world, exn, commit_result) io" where
  "commitBatch tp cfg importId input =
     retry_execute tp cfg ''commitBatch'' (commitBatchOnce tp importId input) isRetryableDbError None"

section \<open>The summary\<close>

record currency_summary =
  cs_currency :: jsstring
  cs_transactionCount :: nat
  cs_totalAmount :: jsstring

record risk_counts =
  rc_low :: nat
  rc_medium :: nat
  rc_high :: nat

record import_summary =
  su_accepted :: int
  su_rejected :: int
  su_duplicates :: int
  su_byCurrency :: "currency_summary list"
  su_byRiskLevel :: risk_counts

text \<open>\<open>groupBy\<close>: one group for each value that occurs, with its rows.\<close>

definition currency_groups :: "third_party \<Rightarrow> jsstring \<Rightarrow> db \<Rightarrow> (jsstring \<times> transaction_row list) list" where
  "currency_groups tp i d =
     (let rows = transactions_of_import i d
      in map (\<lambda>c. (c, List.filter (\<lambda>t. tr_currency t = c) rows))
           (tp_group_order tp (remdups (map tr_currency rows))))"

definition risk_groups :: "jsstring \<Rightarrow> db \<Rightarrow> (risk_level \<times> nat) list" where
  "risk_groups i d =
     (let rows = transactions_of_import i d
      in map (\<lambda>l. (l, length (List.filter (\<lambda>t. tr_riskLevel t = l) rows)))
           (remdups (map tr_riskLevel rows)))"

text \<open>\<open>_sum\<close>, which is null for no rows.\<close>

definition sum_amount :: "transaction_row list \<Rightarrow> rat option" where
  "sum_amount rows = (if rows = [] then None else Some (sum_list (map tr_amount rows)))"

definition currency_summary_of :: "third_party \<Rightarrow> jsstring \<times> transaction_row list \<Rightarrow> currency_summary" where
  "currency_summary_of tp g =
     \<lparr>cs_currency = fst g, cs_transactionCount = length (snd g),
      cs_totalAmount = (case sum_amount (snd g) of Some x \<Rightarrow> tp_decimal_text tp x | None \<Rightarrow> js ''0'')\<rparr>"

fun set_count :: "risk_counts \<Rightarrow> risk_level \<times> nat \<Rightarrow> risk_counts" where
  "set_count c (Low, n) = c\<lparr>rc_low := n\<rparr>"
| "set_count c (Medium, n) = c\<lparr>rc_medium := n\<rparr>"
| "set_count c (High, n) = c\<lparr>rc_high := n\<rparr>"

definition getSummary :: "third_party \<Rightarrow> jsstring \<Rightarrow> (world, exn, import_summary) io" where
  "getSummary tp i =
     bind_io (db_call tp (\<lambda>_ d. case find_import i d of
                None \<Rightarrow> Inl (PrismaKnown ''P2025'') | Some r \<Rightarrow> Inr (r, d))) (\<lambda>importRow.
     bind_io (db_query tp (currency_groups tp i)) (\<lambda>byCurrency.
     bind_io (db_query tp (risk_groups i)) (\<lambda>byRiskLevel.
       return_io
         \<lparr>su_accepted = im_acceptedCount importRow, su_rejected = im_rejectedCount importRow,
          su_duplicates = im_duplicateCount importRow,
          su_byCurrency = map (currency_summary_of tp) byCurrency,
          su_byRiskLevel = foldl set_count \<lparr>rc_low = 0, rc_medium = 0, rc_high = 0\<rparr> byRiskLevel\<rparr>)))"

section \<open>Pages of rejections\<close>

record rejection_item =
  it_id :: jsstring
  it_lineNumber :: int
  it_reasonCode :: string
  it_message :: string
  it_rawValue :: json

record rejection_page =
  rp_items :: "rejection_item list"
  rp_nextCursor :: "jsstring option"

text \<open>\<open>const [lineNumberStr, id] = decodeCursor(cursor)\<close>: \<open>id\<close> is \<open>undefined\<close>, here \<open>None\<close>, when
  there is one part only.\<close>

definition decodeRejectionCursor :: "jsstring \<Rightarrow> jsnum \<times> jsstring option" where
  "decodeRejectionCursor cursor =
     (case decodeCursor cursor of
        [] \<Rightarrow> (NaN, None)
      | [n] \<Rightarrow> (js_to_number n, None)
      | n # i # _ \<Rightarrow> (js_to_number n, Some i))"

text \<open>What Prisma takes for an \<open>Int\<close>: an integer of 32 bits.\<close>

definition prisma_int :: "jsnum \<Rightarrow> int option" where
  "prisma_int x =
     (case x of Fin r \<Rightarrow> if of_int \<lfloor>r\<rfloor> = r \<and> - (2 ^ 31) \<le> r \<and> r < 2 ^ 31 then Some \<lfloor>r\<rfloor> else None
      | _ \<Rightarrow> None)"

definition rejection_key :: "third_party \<Rightarrow> rejected_row \<Rightarrow> int \<times> nat list" where
  "rejection_key tp r = (rr_lineNumber r, tp_collate tp (rr_id r))"

text \<open>The \<open>OR\<close> of the query; \<open>gt: undefined\<close> is no condition.\<close>

fun after_cursor :: "third_party \<Rightarrow> (int \<times> jsstring option) option \<Rightarrow> rejected_row \<Rightarrow> bool" where
  "after_cursor tp None r \<longleftrightarrow> True"
| "after_cursor tp (Some (n, i)) r \<longleftrightarrow>
     n < rr_lineNumber r \<or>
     rr_lineNumber r = n \<and> (case i of None \<Rightarrow> True | Some i \<Rightarrow> tp_collate tp i < tp_collate tp (rr_id r))"

text \<open>\<open>take\<close>: a negative number counts from the end, as in \<open>Array.prototype.slice\<close>.\<close>

definition take_rows :: "int \<Rightarrow> 'a list \<Rightarrow> 'a list" where
  "take_rows n rows = (if 0 \<le> n then take (nat n) rows else drop (length rows - nat (- n)) rows)"

definition slice_to :: "rat \<Rightarrow> 'a list \<Rightarrow> 'a list" where
  "slice_to limit rows =
     (if 0 \<le> limit then take (nat \<lfloor>limit\<rfloor>) rows else take (length rows - nat (- \<lceil>limit\<rceil>)) rows)"

definition item_of :: "rejected_row \<Rightarrow> rejection_item" where
  "item_of r =
     \<lparr>it_id = rr_id r, it_lineNumber = rr_lineNumber r, it_reasonCode = rr_reasonCode r,
      it_message = rr_message r, it_rawValue = rr_rawValue r\<rparr>"

definition rejection_page_of :: "rat \<Rightarrow> rejected_row list \<Rightarrow> rejection_page" where
  "rejection_page_of limit rows =
     (let hasMore = limit < of_nat (length rows); items = slice_to limit rows
      in \<lparr>rp_items = map item_of items,
          rp_nextCursor =
            (if hasMore \<and> items \<noteq> []
             then Some (encodeCursor [Int_Part (rr_lineNumber (last items)), Text_Part (rr_id (last items))])
             else None)\<rparr>)"

definition rejection_rows ::
  "third_party \<Rightarrow> jsstring \<Rightarrow> (int \<times> jsstring option) option \<Rightarrow> int \<Rightarrow> db \<Rightarrow> rejected_row list" where
  "rejection_rows tp importId after n d =
     take_rows n (sort_key (rejection_key tp)
       (List.filter (after_cursor tp after) (rejected_of_import importId d)))"

definition getRejections ::
  "third_party \<Rightarrow> jsstring \<Rightarrow> rat \<Rightarrow> jsstring option \<Rightarrow> (world, exn, rejection_page) io" where
  "getRejections tp importId limit cursor =
     (let decoded = (case cursor of None \<Rightarrow> None
                     | Some c \<Rightarrow> if c = [] then None else Some (decodeRejectionCursor c));
          after = (case decoded of None \<Rightarrow> Some None
                   | Some (n, i) \<Rightarrow> map_option (\<lambda>n. Some (n, i)) (prisma_int n))
      in case (after, prisma_int (fl (limit + 1))) of
           (Some after, Some n) \<Rightarrow>
             bind_io (db_query tp (rejection_rows tp importId after n)) (\<lambda>rows.
               return_io (rejection_page_of limit rows))
         | _ \<Rightarrow> throw_io PrismaOther)"

section \<open>Pages: lemmas\<close>

lemma prisma_int_small [simp]: "- (2 ^ 31) \<le> n \<Longrightarrow> n < 2 ^ 31 \<Longrightarrow> prisma_int (Fin (of_int n)) = Some n"
proof -
  assume "- (2 ^ 31) \<le> n" "n < 2 ^ 31"
  then have "(of_int (- (2 ^ 31)) :: rat) \<le> of_int n" "(of_int n :: rat) < of_int (2 ^ 31)"
    by (simp_all only: of_int_le_iff of_int_less_iff)
  then show ?thesis by (simp add: prisma_int_def)
qed

lemma page_limit: "n \<le> 1000 \<Longrightarrow> prisma_int (fl (of_nat n + 1)) = Some (int n + 1)"
proof -
  assume n: "n \<le> 1000"
  have e: "(of_nat n + 1 :: rat) = of_int (int n + 1)" by simp
  have "fl (of_int (int n + 1)) = Fin (of_int (int n + 1))" using n by (intro fl_of_int) simp
  moreover have "prisma_int (Fin (of_int (int n + 1))) = Some (int n + 1)" using n by (intro prisma_int_small) simp_all
  ultimately show ?thesis unfolding e by (simp only:)
qed

lemma after_cursor_row [simp]:
  "after_cursor tp (Some (rr_lineNumber l, Some (rr_id l))) r \<longleftrightarrow> rejection_key tp l < rejection_key tp r"
  by (auto simp: rejection_key_def less_prod_def)

text \<open>The cursor of a row asks for the rows after it.\<close>

definition row_cursor :: "rejected_row \<Rightarrow> jsstring" where
  "row_cursor r = encodeCursor [Int_Part (rr_lineNumber r), Text_Part (rr_id r)]"

text \<open>The page of a list of rows in order, when one row more than the limit was asked for.\<close>

lemma rejection_page_take:
  assumes "1 \<le> n"
  shows "rejection_page_of (of_nat n) (take (Suc n) rows) =
    \<lparr>rp_items = map item_of (take n rows),
     rp_nextCursor = (if n < length rows then Some (row_cursor (rows ! (n - 1))) else None)\<rparr>"
proof -
  have s: "slice_to (of_nat n) (take (Suc n) rows) = take n rows" by (simp add: slice_to_def)
  have l: "last (take n rows) = rows ! (n - 1)" if "n < length rows"
    using assms that by (subst last_conv_nth) auto
  have m: "(of_nat n :: rat) < of_nat (length (take (Suc n) rows)) \<longleftrightarrow> n < length rows" by (simp only: of_nat_less_iff) auto
  show ?thesis
  proof (cases "n < length rows")
    case True
    then have "take n rows \<noteq> []" using assms by (cases rows) auto
    with True show ?thesis unfolding rejection_page_of_def row_cursor_def Let_def s m by (simp add: l)
  next
    case False
    then show ?thesis unfolding rejection_page_of_def Let_def s m by simp
  qed
qed

lemma getRejections_first:
  assumes "1 \<le> n" "n \<le> 1000"
  shows "getRejections tp i (of_nat n) None =
    bind_io (db_query tp (rejection_rows tp i None (int n + 1))) (\<lambda>rows.
      return_io (rejection_page_of (of_nat n) rows))"
  using assms page_limit [of n] by (simp add: getRejections_def)

definition cursor_safe :: "rejected_row \<Rightarrow> bool" where
  "cursor_safe r \<longleftrightarrow> 0 \<le> rr_lineNumber r \<and> rr_lineNumber r < 2 ^ 31 \<and>
     list_all is_ascii (rr_id r) \<and> 58 \<notin> set (rr_id r)"

lemma decode_row_cursor:
  assumes "cursor_safe r"
  shows "decodeRejectionCursor (row_cursor r) = (Fin (of_int (rr_lineNumber r)), Some (rr_id r))"
proof -
  have "decodeCursor (row_cursor r) = [decimal (rr_lineNumber r), rr_id r]"
    unfolding row_cursor_def
    using assms cursor_round_trip_texts [of "[Int_Part (rr_lineNumber r), Text_Part (rr_id r)]"]
      decimal_int_part [of "rr_lineNumber r"]
    by (simp add: cursor_safe_def decimal_int_def)
  then show ?thesis
    using assms js_to_number_decimal [of "rr_lineNumber r"] by (simp add: decodeRejectionCursor_def cursor_safe_def)
qed

lemma row_cursor_nonempty: "cursor_safe r \<Longrightarrow> row_cursor r \<noteq> []"
proof
  assume "cursor_safe r" "row_cursor r = []"
  with decode_row_cursor [of r] show False
    by (simp add: decodeRejectionCursor_def decodeCursor_def base64url_decode_def utf8_decode_def)
qed

lemma getRejections_after:
  assumes "1 \<le> n" "n \<le> 1000" "cursor_safe r"
  shows "getRejections tp i (of_nat n) (Some (row_cursor r)) =
    bind_io (db_query tp (rejection_rows tp i (Some (rr_lineNumber r, Some (rr_id r))) (int n + 1))) (\<lambda>rows.
      return_io (rejection_page_of (of_nat n) rows))"
proof -
  have "prisma_int (Fin (of_int (rr_lineNumber r))) = Some (rr_lineNumber r)"
    using assms(3) by (intro prisma_int_small) (simp_all add: cursor_safe_def)
  then show ?thesis
    using assms page_limit [of n] row_cursor_nonempty
    by (simp add: getRejections_def decode_row_cursor)
qed

section \<open>Following the cursors\<close>

text \<open>A client that follows \<open>nextCursor\<close> to the end; \<open>None\<close> when it gives up before.\<close>

fun follow_cursors ::
  "third_party \<Rightarrow> jsstring \<Rightarrow> rat \<Rightarrow> nat \<Rightarrow> jsstring option \<Rightarrow> (world, exn, rejection_item list option) io" where
  "follow_cursors tp i limit 0 cursor = return_io None"
| "follow_cursors tp i limit (Suc f) cursor =
     bind_io (getRejections tp i limit cursor) (\<lambda>page.
       case rp_nextCursor page of
         None \<Rightarrow> return_io (Some (rp_items page))
       | Some c \<Rightarrow> bind_io (follow_cursors tp i limit f (Some c)) (\<lambda>rest.
           return_io (map_option (\<lambda>its. rp_items page @ its) rest)))"

definition item_key :: "third_party \<Rightarrow> rejection_item \<Rightarrow> int \<times> nat list" where
  "item_key tp it = (it_lineNumber it, tp_collate tp (it_id it))"

lemma item_key_of [simp]: "item_key tp (item_of r) = rejection_key tp r"
  by (simp add: item_key_def item_of_def rejection_key_def)

text \<open>Generated identifiers are distinct and are plain text; the database compares texts.\<close>

definition ids_fit :: "third_party \<Rightarrow> bool" where
  "ids_fit tp \<longleftrightarrow> inj (tp_uuid tp) \<and> inj (tp_collate tp) \<and>
     (\<forall>n. list_all is_ascii (tp_uuid tp n) \<and> 58 \<notin> set (tp_uuid tp n))"

definition rejections_ok :: "third_party \<Rightarrow> db \<Rightarrow> bool" where
  "rejections_ok tp d \<longleftrightarrow>
     distinct (map rr_id (db_rejected d)) \<and>
     list_all (\<lambda>r. rr_id r \<in> tp_uuid tp ` {..<db_next d} \<and> 0 \<le> rr_lineNumber r \<and> rr_lineNumber r < 2 ^ 31)
       (db_rejected d)"

fun lines_fit :: "env_action \<Rightarrow> bool" where
  "lines_fit (Commit_Batch i input) =
     list_all (\<lambda>r. 0 \<le> rj_lineNumber r \<and> rj_lineNumber r < 2 ^ 31) (ci_rejectedRecords input)"
| "lines_fit _ = True"

lemma rejected_rows_ids:
  "rejected_rows tp now i k rs = Inr rows \<Longrightarrow>
   map rr_id rows = map (tp_uuid tp) [k..<k + length rows] \<and>
   map rr_lineNumber rows = map rj_lineNumber rs"
proof (induction rs arbitrary: k rows)
  case (Cons r rs)
  then obtain raw rest where s: "rejected_rows tp now i (k + 1) rs = Inr rest"
    "rows = \<lparr>rr_id = tp_uuid tp k, rr_importId = i, rr_lineNumber = rj_lineNumber r,
      rr_reasonCode = rj_reasonCode r, rr_message = rj_message r, rr_rawValue = raw, rr_createdAt = now\<rparr> # rest"
    by (auto split: sum.splits)
  have "[k..<k + length rows] = k # [k + 1..<k + 1 + length rest]"
    by (simp add: s(2) upt_conv_Cons del: upt_Suc)
  with Cons.IH [OF s(1)] show ?case by (simp add: s(2) del: upt_Suc)
qed simp

lemma rejections_ok_commit:
  assumes "commit_batch_tx tp now i input d = Inr (res, d')" "rejections_ok tp d" "inj (tp_uuid tp)"
    "lines_fit (Commit_Batch i input)"
  shows "rejections_ok tp d'"
  using assms(1)
proof (cases rule: commit_batch_txE)
  case repeated
  with assms(2) show ?thesis by simp
next
  case (committed cur rs rows)
  let ?k = "db_next d + length rs"
  note ids = rejected_rows_ids [OF committed(4)]
  have nxt: "db_next d' = ?k + length rows" using committed(10) by simp
  have "rr_id ` set rows = set (map rr_id rows)" by simp
  also have "\<dots> = tp_uuid tp ` {?k..<?k + length rows}" using ids by (simp only: set_map set_upt)
  finally have new: "rr_id ` set rows = tp_uuid tp ` {?k..<?k + length rows}" .
  have "distinct (map (tp_uuid tp) [?k..<?k + length rows])"
    using assms(3) by (simp only: distinct_map distinct_upt simp_thms) (meson inj_on_subset subset_UNIV)
  then have distinct: "distinct (map rr_id rows)" using ids by (simp only:)
  have old: "rr_id ` set (db_rejected d) \<subseteq> tp_uuid tp ` {..<db_next d}"
    using assms(2) by (auto simp: rejections_ok_def list_all_iff)
  have "tp_uuid tp ` {..<db_next d} \<inter> tp_uuid tp ` {?k..<?k + length rows} =
      tp_uuid tp ` ({..<db_next d} \<inter> {?k..<?k + length rows})"
    by (rule image_Int [OF assms(3), symmetric])
  also have "{..<db_next d} \<inter> {?k..<?k + length rows} = {}" by auto
  finally have "rr_id ` set (db_rejected d) \<inter> rr_id ` set rows = {}"
    using old new by blast
  then have "distinct (map rr_id (db_rejected d'))"
    using distinct assms(2) by (simp add: committed(7) rejections_ok_def)
  moreover have "rr_id ` set rows \<subseteq> tp_uuid tp ` {..<db_next d'}" unfolding new nxt by auto
  moreover have "x \<in> tp_uuid tp ` {..<db_next d'}" if "x \<in> tp_uuid tp ` {..<db_next d}" for x
    using that unfolding nxt by auto
  moreover have "rr_lineNumber ` set rows \<subseteq> {0..<2 ^ 31}"
  proof -
    have "rr_lineNumber ` set rows = rj_lineNumber ` set (ci_rejectedRecords input)"
      using arg_cong [OF conjunct2 [OF ids], of set] by (simp only: set_map)
    then show ?thesis using assms(4) by (auto simp: list_all_iff)
  qed
  ultimately show ?thesis
    using assms(2) unfolding rejections_ok_def committed(7) list_all_append list_all_iff image_subset_iff
    by (auto simp del: image_iff)
qed

lemma update_import_same:
  "update_import i f d = Inr (r, d') \<Longrightarrow>
   db_rejected d' = db_rejected d \<and> db_next d' = db_next d \<and> db_transactions d' = db_transactions d \<and>
   db_files d' = db_files d"
  by (auto elim: update_import_InrE)

lemma rejections_ok_next:
  "rejections_ok tp d \<Longrightarrow> db_rejected d' = db_rejected d \<Longrightarrow> db_next d \<le> db_next d' \<Longrightarrow> rejections_ok tp d'"
  unfolding rejections_ok_def list_all_iff by (auto intro!: imageI)

lemma rejections_ok_action:
  assumes "lines_fit a" "inj (tp_uuid tp)" "rejections_ok tp d"
  shows "rejections_ok tp (action_db tp now a d) \<and>
    (\<exists>rows. db_rejected (action_db tp now a d) = db_rejected d @ rows)"
proof (cases a)
  case (Commit_Batch j input)
  show ?thesis
  proof (cases "commit_batch_tx tp now j input d")
    case (Inr p)
    then obtain res d' where c: "commit_batch_tx tp now j input d = Inr (res, d')" by (cases p) auto
    have "\<exists>rows. db_rejected d' = db_rejected d @ rows"
      using c by (cases rule: commit_batch_txE) auto
    then show ?thesis
      using rejections_ok_commit [OF c assms(3,2)] assms(1) c Commit_Batch by (simp add: run_tx_def)
  qed (use assms(3) Commit_Batch in \<open>simp add: run_tx_def\<close>)
next
  case (Create_Import k p)
  then show ?thesis
    using assms(3) by (auto simp: run_tx_def create_import_def Let_def intro: rejections_ok_next split: sum.splits)
next
  case (Attach_File f)
  then show ?thesis
    using assms(3) by (auto simp: run_tx_def create_file_def intro: rejections_ok_next split: sum.splits)
qed (use assms(3) in \<open>auto simp: run_tx_def dest!: update_import_same intro: rejections_ok_next split: sum.splits\<close>)

interpretation listed: environment tp lines_fit
    "\<lambda>d obs. inj (tp_uuid tp) \<longrightarrow> rejections_ok tp d \<and> rows \<subseteq> set (rejected_of_import i d)" for tp i rows
proof (unfold_locales, intro impI)
  fix a d obs now
  assume a: "lines_fit a" "inj (tp_uuid tp) \<longrightarrow> rejections_ok tp d \<and> rows \<subseteq> set (rejected_of_import i d)"
    "inj (tp_uuid tp)"
  with rejections_ok_action [OF a(1,3), of d now]
  show "rejections_ok tp (action_db tp now a d) \<and> rows \<subseteq> set (rejected_of_import i (action_db tp now a d))"
    by (auto simp: rejected_of_import_def)
qed

text \<open>What a cursor leaves: the keys beyond the row it stands for.\<close>

definition beyond :: "third_party \<Rightarrow> rejected_row option \<Rightarrow> int \<times> nat list \<Rightarrow> bool" where
  "beyond tp start k \<longleftrightarrow> (case start of None \<Rightarrow> True | Some l \<Rightarrow> rejection_key tp l < k)"

definition rest_rows :: "third_party \<Rightarrow> jsstring \<Rightarrow> rejected_row option \<Rightarrow> db \<Rightarrow> rejected_row list" where
  "rest_rows tp i start d =
     sort_key (rejection_key tp)
       (List.filter (\<lambda>r. beyond tp start (rejection_key tp r)) (rejected_of_import i d))"

lemma getRejections_page:
  assumes "1 \<le> n" "n \<le> 1000" "pred_option cursor_safe start"
  shows "getRejections tp i (of_nat n) (map_option row_cursor start) =
    bind_io (db_query tp (\<lambda>d. take (Suc n) (rest_rows tp i start d))) (\<lambda>rows.
      return_io (rejection_page_of (of_nat n) rows))"
proof (cases start)
  case None
  have "rejection_rows tp i None (int n + 1) = (\<lambda>d. take (Suc n) (rest_rows tp i None d))"
    by (rule ext) (simp add: rejection_rows_def rest_rows_def beyond_def take_rows_def nat_add_distrib)
  with getRejections_first [OF assms(1,2)] None show ?thesis by simp
next
  case (Some l)
  have "after_cursor tp (Some (rr_lineNumber l, Some (rr_id l))) = (\<lambda>r. rejection_key tp l < rejection_key tp r)"
    by (rule ext) (rule after_cursor_row)
  then have "rejection_rows tp i (Some (rr_lineNumber l, Some (rr_id l))) (int n + 1) =
      (\<lambda>d. take (Suc n) (rest_rows tp i (Some l) d))"
    by (intro ext) (simp add: rejection_rows_def rest_rows_def beyond_def take_rows_def nat_add_distrib
        del: after_cursor.simps)
  with getRejections_after [OF assms(1,2)] assms(3) Some show ?thesis by simp
qed

lemma rest_rows_sorted:
  assumes "rejections_ok tp d" "inj (tp_collate tp)"
  shows "sorted_wrt (<) (map (rejection_key tp) (rest_rows tp i start d))"
proof -
  have "inj_on rr_id (set (db_rejected d))" "distinct (db_rejected d)"
    using assms(1) by (auto simp: rejections_ok_def distinct_map)
  then have "inj_on (rejection_key tp) (set (rejected_of_import i d))" "distinct (rejected_of_import i d)"
    using assms(2) by (auto simp: rejection_key_def rejected_of_import_def inj_on_def)
  then have "distinct (map (rejection_key tp) (rest_rows tp i start d))"
    by (auto simp: rest_rows_def distinct_map intro: inj_on_subset)
  moreover have "sorted (map (rejection_key tp) (rest_rows tp i start d))"
    by (simp add: rest_rows_def)
  ultimately show ?thesis by (simp add: strict_sorted_iff)
qed

lemma set_rest_rows:
  "set (rest_rows tp i start d) = {r \<in> set (rejected_of_import i d). beyond tp start (rejection_key tp r)}"
  by (simp add: rest_rows_def)

lemma rest_rows_safe:
  assumes "rejections_ok tp d" "ids_fit tp" "r \<in> set (rejected_of_import i d)"
  shows "cursor_safe r"
  using assms by (auto simp: rejections_ok_def ids_fit_def cursor_safe_def list_all_iff rejected_of_import_def)

text \<open>A full page splits what a cursor leaves: what is not on it is beyond its last row.\<close>

lemma page_split:
  assumes "sorted_wrt (<) (map (key :: 'a \<Rightarrow> 'k :: linorder) S)" "1 \<le> n" "n < length S"
  shows "\<And>r. r \<in> set (take n S) \<Longrightarrow> key r \<le> key (S ! (n - 1))"
    and "\<And>r. r \<in> set S \<Longrightarrow> r \<in> set (take n S) \<or> key (S ! (n - 1)) < key r"
    and "S ! (n - 1) \<in> set S"
proof -
  have less: "key (S ! a) < key (S ! b)" if "a < b" "b < length S" for a b
    using assms(1) that by (simp add: sorted_wrt_iff_nth_less)
  show "key r \<le> key (S ! (n - 1))" if r: "r \<in> set (take n S)" for r
  proof -
    from r obtain j where "j < n" "r = S ! j" by (auto simp: in_set_conv_nth)
    then have "j = n - 1 \<or> j < n - 1" by linarith
    with \<open>r = S ! j\<close> less [of j "n - 1"] assms(2,3) show ?thesis by (auto intro: less_imp_le)
  qed
  show "r \<in> set (take n S) \<or> key (S ! (n - 1)) < key r" if r: "r \<in> set S" for r
  proof -
    from r obtain j where j: "j < length S" "r = S ! j" by (auto simp: in_set_conv_nth)
    show ?thesis
    proof (cases "j < n")
      case True
      then have "take n S ! j = r" "j < length (take n S)" using j by simp_all
      then show ?thesis by (metis nth_mem)
    next
      case False
      with j less [of "n - 1" j] assms(2) show ?thesis by simp
    qed
  qed
  show "S ! (n - 1) \<in> set S" using assms(2,3) by simp
qed

lemma sorted_wrt_take_key: "sorted_wrt (<) (map f S) \<Longrightarrow> sorted_wrt (<) (map f (take n S))"
  by (metis take_map sorted_wrt_take)

text \<open>Items in order, all beyond the start, and every one of the rows beyond it.\<close>

definition listing_from ::
  "third_party \<Rightarrow> rejected_row set \<Rightarrow> rejected_row option \<Rightarrow> rejection_item list \<Rightarrow> bool" where
  "listing_from tp rows start items \<longleftrightarrow>
     sorted_wrt (<) (map (item_key tp) items) \<and> (\<forall>it\<in>set items. beyond tp start (item_key tp it)) \<and>
     item_of ` {r \<in> rows. beyond tp start (rejection_key tp r)} \<subseteq> set items"

lemma listing_last:
  assumes "rejections_ok tp d" "inj (tp_collate tp)" "rows \<subseteq> set (rejected_of_import i d)"
  shows "listing_from tp rows start (map item_of (rest_rows tp i start d))"
  using rest_rows_sorted [OF assms(1,2), of i start] assms(3)
  by (auto simp: listing_from_def set_rest_rows comp_def)

lemma listing_more:
  assumes "rejections_ok tp d" "inj (tp_collate tp)" "rows \<subseteq> set (rejected_of_import i d)"
    and "1 \<le> n" "n < length (rest_rows tp i start d)"
    and "listing_from tp rows (Some (rest_rows tp i start d ! (n - 1))) its"
  shows "listing_from tp rows start (map item_of (take n (rest_rows tp i start d)) @ its)"
proof -
  let ?S = "rest_rows tp i start d"
  let ?l = "?S ! (n - 1)"
  note sorted = rest_rows_sorted [OF assms(1,2), of i start]
  note split = page_split [OF sorted assms(4,5)]
  from assms(6) have r: "sorted_wrt (<) (map (item_key tp) its)"
    "\<And>it. it \<in> set its \<Longrightarrow> rejection_key tp ?l < item_key tp it"
    "item_of ` {r \<in> rows. rejection_key tp ?l < rejection_key tp r} \<subseteq> set its"
    by (simp_all add: listing_from_def beyond_def)
  from split(3) have l: "beyond tp start (rejection_key tp ?l)" by (simp add: set_rest_rows)
  have "sorted_wrt (<) (map (item_key tp) (map item_of (take n ?S) @ its))"
    using r(1,2) split(1) sorted_wrt_take_key [OF sorted]
    by (auto simp: sorted_wrt_append comp_def intro: le_less_trans)
  moreover have "beyond tp start (item_key tp it)" if "it \<in> set (map item_of (take n ?S) @ its)" for it
  proof (cases "it \<in> set its")
    case True
    with r(2) l show ?thesis by (auto simp: beyond_def split: option.splits dest: less_trans)
  next
    case False
    with that show ?thesis by (auto dest!: in_set_takeD simp: set_rest_rows)
  qed
  moreover have "item_of r \<in> set (map item_of (take n ?S) @ its)"
    if "r \<in> rows" "beyond tp start (rejection_key tp r)" for r
  proof -
    have "r \<in> set ?S" using that assms(3) by (auto simp: set_rest_rows)
    with split(2) [of r] r(3) that(1) show ?thesis by auto
  qed
  ultimately show ?thesis unfolding listing_from_def by blast
qed

lemma getRejections_triple:
  assumes "1 \<le> n" "n \<le> 1000" "pred_option cursor_safe start" "inj (tp_uuid tp)"
  shows "triple (listed.holds tp rows i) (getRejections tp i (of_nat n) (map_option row_cursor start))
      (\<lambda>page w. (\<exists>d. rejections_ok tp d \<and> rows \<subseteq> set (rejected_of_import i d) \<and>
          page = rejection_page_of (of_nat n) (take (Suc n) (rest_rows tp i start d))) \<and>
        listed.holds tp rows i w) (\<lambda>_. listed.holds tp rows i)"
  unfolding getRejections_page [OF assms(1-3)]
proof (rule triple_bind [OF listed.triple_db_query
      [where Q = "\<lambda>s. \<exists>d. rejections_ok tp d \<and> rows \<subseteq> set (rejected_of_import i d) \<and>
         s = take (Suc n) (rest_rows tp i start d)"]])
  show "\<exists>e. rejections_ok tp e \<and> rows \<subseteq> set (rejected_of_import i e) \<and>
      take (Suc n) (rest_rows tp i start d) = take (Suc n) (rest_rows tp i start e)"
    if "inj (tp_uuid tp) \<longrightarrow> rejections_ok tp d \<and> rows \<subseteq> set (rejected_of_import i d)" for d
    using that assms(4) by blast
qed (rule triple_return, blast)

lemma follow_cursors_triple:
  assumes n: "1 \<le> n" "n \<le> 1000" and fit: "ids_fit tp" and start: "pred_option cursor_safe start"
  shows "triple (listed.holds tp rows i) (follow_cursors tp i (of_nat n) fuel (map_option row_cursor start))
    (\<lambda>x _. pred_option (listing_from tp rows start) x) (\<lambda>_ _. True)"
  using start
proof (induction fuel arbitrary: start)
  case 0
  show ?case unfolding follow_cursors.simps by (rule triple_return) simp
next
  case (Suc f)
  have inj: "inj (tp_uuid tp)" "inj (tp_collate tp)" using fit by (simp_all add: ids_fit_def)
  show ?case
  proof (simp only: follow_cursors.simps,
      rule triple_bind [OF triple_weaken [OF getRejections_triple [OF n Suc.prems inj(1)]]],
      assumption, assumption, rule TrueI, rule tripleI)
    fix page :: rejection_page and w x w'
    let ?rest = "case rp_nextCursor page of
         None \<Rightarrow> return_io (Some (rp_items page))
       | Some c \<Rightarrow> bind_io (follow_cursors tp i (of_nat n) f (Some c)) (\<lambda>rest.
           return_io (map_option (\<lambda>its. rp_items page @ its) rest))"
    assume "(\<exists>d. rejections_ok tp d \<and> rows \<subseteq> set (rejected_of_import i d) \<and>
          page = rejection_page_of (of_nat n) (take (Suc n) (rest_rows tp i start d))) \<and>
        listed.holds tp rows i w" and run: "?rest w = (Inr x, w')"
    then obtain d where d: "rejections_ok tp d" "rows \<subseteq> set (rejected_of_import i d)" and
      w: "listed.holds tp rows i w" and
      page: "page = rejection_page_of (of_nat n) (take (Suc n) (rest_rows tp i start d))" by blast
    let ?S = "rest_rows tp i start d"
    note p = page [unfolded rejection_page_take [OF n(1)]]
    show "pred_option (listing_from tp rows start) x"
    proof (cases "n < length ?S")
      case False
      with run p listing_last [OF d(1) inj(2) d(2), of start] show ?thesis by auto
    next
      case True
      let ?l = "?S ! (n - 1)"
      have "?l \<in> set ?S" using True n(1) by simp
      then have l: "pred_option cursor_safe (Some ?l)"
        using rest_rows_safe [OF d(1) fit] by (auto simp: set_rest_rows)
      from run p True obtain rest w1 where
        rest: "follow_cursors tp i (of_nat n) f (map_option row_cursor (Some ?l)) w = (Inr rest, w1)"
        "x = map_option (\<lambda>its. map item_of (take n ?S) @ its) rest"
        by (auto simp: bind_io_apply split: prod.splits sum.splits)
      from triple_InrD [OF Suc.IH [OF l] w rest(1)] show ?thesis
        using listing_more [OF d(1) inj(2) d(2) n(1) True] by (cases rest) (simp_all add: rest(2))
    qed
  qed (rule TrueI)
qed

subsection \<open>Nothing else going on\<close>

lemma rest_rows_drop:
  assumes "rejections_ok tp d" "inj (tp_collate tp)" "1 \<le> n" "n < length (rest_rows tp i start d)"
  shows "rest_rows tp i (Some (rest_rows tp i start d ! (n - 1))) d = drop n (rest_rows tp i start d)"
proof -
  let ?S = "rest_rows tp i start d"
  let ?T = "rest_rows tp i (Some (?S ! (n - 1))) d"
  note sorted = rest_rows_sorted [OF assms(1,2)]
  note split = page_split [OF sorted assms(3,4)]
  have app: "sorted_wrt (<) (map (rejection_key tp) (take n ?S @ drop n ?S))"
    using sorted [of i start] by simp
  have "set ?T = set (drop n ?S)"
  proof (rule set_eqI)
    fix r
    have "r \<in> set ?T \<longleftrightarrow> r \<in> set ?S \<and> rejection_key tp (?S ! (n - 1)) < rejection_key tp r"
      using split(3) by (auto simp: set_rest_rows beyond_def split: option.splits dest: less_trans)
    also have "\<dots> \<longleftrightarrow> r \<in> set (drop n ?S)"
    proof
      assume "r \<in> set ?S \<and> rejection_key tp (?S ! (n - 1)) < rejection_key tp r"
      with split(1) [of r] have "r \<in> set (take n ?S @ drop n ?S)" "r \<notin> set (take n ?S)" by auto
      then show "r \<in> set (drop n ?S)" by (simp only: set_append) blast
    next
      assume r: "r \<in> set (drop n ?S)"
      then have "r \<in> set ?S" by (rule in_set_dropD)
      moreover have "?S ! (n - 1) \<in> set (take n ?S)"
        using assms(3,4) nth_take [of "n - 1" n ?S] by (metis diff_less le_eq_less_or_eq less_le_trans
            length_take less_one min.absorb2 not_less nth_mem order_less_imp_le)
      then have "rejection_key tp (?S ! (n - 1)) < rejection_key tp r"
        using app r unfolding map_append sorted_wrt_append by auto
      ultimately show "r \<in> set ?S \<and> rejection_key tp (?S ! (n - 1)) < rejection_key tp r" by blast
    qed
    finally show "r \<in> set ?T \<longleftrightarrow> r \<in> set (drop n ?S)" .
  qed
  moreover have "sorted_wrt (<) (map (rejection_key tp) (drop n ?S))"
    using app unfolding map_append sorted_wrt_append by blast
  ultimately have "map (rejection_key tp) ?T = map (rejection_key tp) (drop n ?S)"
    by (intro strict_sorted_equal [symmetric] sorted) simp_all
  moreover have "inj_on (rejection_key tp) (set ?T \<union> set (drop n ?S))"
    using sorted [of i start] \<open>set ?T = set (drop n ?S)\<close>
    by (auto simp: strict_sorted_iff distinct_map intro: inj_on_subset dest: in_set_dropD)
  ultimately show ?thesis by (rule map_inj_on)
qed

lemma follow_cursors_quiet:
  assumes n: "1 \<le> n" "n \<le> 1000" and fit: "ids_fit tp" and ok: "rejections_ok tp (w_db w)"
    and quiet: "w_schedule w = []" and start: "pred_option cursor_safe start"
    and fuel: "length (rest_rows tp i start (w_db w)) < fuel"
  shows "follow_cursors tp i (of_nat n) fuel (map_option row_cursor start) w =
    (Inr (Some (map item_of (rest_rows tp i start (w_db w)))), w)"
  using start fuel
proof (induction fuel arbitrary: start)
  case (Suc f)
  let ?S = "rest_rows tp i start (w_db w)"
  have inj: "inj (tp_collate tp)" using fit by (simp add: ids_fit_def)
  have page: "getRejections tp i (of_nat n) (map_option row_cursor start) w =
      (Inr (rejection_page_of (of_nat n) (take (Suc n) ?S)), w)"
    unfolding getRejections_page [OF n Suc.prems(1)] using quiet by simp
  note p = page [unfolded rejection_page_take [OF n(1)]]
  show ?case
  proof (cases "n < length ?S")
    case False
    then show ?thesis using p by simp
  next
    case True
    let ?l = "?S ! (n - 1)"
    have "?l \<in> set ?S" using True n(1) by simp
    then have l: "pred_option cursor_safe (Some ?l)"
      using rest_rows_safe [OF ok fit] by (auto simp: set_rest_rows)
    have d: "rest_rows tp i (Some ?l) (w_db w) = drop n ?S" by (rule rest_rows_drop [OF ok inj n(1) True])
    have "length (drop n ?S) < f" using Suc.prems(2) n(1) True by simp
    with Suc.IH [OF l] d have "follow_cursors tp i (of_nat n) f (Some (row_cursor ?l)) w =
        (Inr (Some (map item_of (drop n ?S))), w)" by simp
    moreover have "getRejections tp i (of_nat n) (map_option row_cursor start) w =
        (Inr \<lparr>rp_items = map item_of (take n ?S), rp_nextCursor = Some (row_cursor ?l)\<rparr>, w)"
      using p True by simp
    moreover have "map item_of (take n ?S) @ map item_of (drop n ?S) = map item_of ?S"
      by (simp only: map_append [symmetric] append_take_drop_id)
    ultimately show ?thesis by (simp add: bind_io_apply)
  qed
qed simp

section \<open>The summary: lemmas\<close>

lemma quiet_getSummary:
  assumes "w_schedule w = []" "find_import i (w_db w) = Some r"
  shows "getSummary tp i w =
    (Inr \<lparr>su_accepted = im_acceptedCount r, su_rejected = im_rejectedCount r,
          su_duplicates = im_duplicateCount r,
          su_byCurrency = map (currency_summary_of tp) (currency_groups tp i (w_db w)),
          su_byRiskLevel = foldl set_count \<lparr>rc_low = 0, rc_medium = 0, rc_high = 0\<rparr>
            (risk_groups i (w_db w))\<rparr>, w)"
  using assms by (simp add: getSummary_def bind_io_apply quiet_db_call)

text \<open>Grouping counts every row once.\<close>

lemma group_counts:
  assumes "mset gs = mset (remdups (map f xs))"
  shows "sum_list (map (\<lambda>g. length (List.filter (\<lambda>x. f x = g) xs)) gs) = length xs"
proof -
  have "distinct gs" using assms by (metis distinct_remdups mset_eq_imp_distinct_iff)
  have "set gs = f ` set xs" using arg_cong [OF assms, of set_mset] by simp
  have "sum_list (map (\<lambda>g. length (List.filter (\<lambda>x. f x = g) xs)) gs) =
      (\<Sum>g\<in>f ` set xs. length (List.filter (\<lambda>x. f x = g) xs))"
    using sum.distinct_set_conv_list [OF \<open>distinct gs\<close>] \<open>set gs = f ` set xs\<close> by metis
  also have "\<dots> = length xs"
    using sum_count_set [of "map f xs" "f ` set xs"]
    by (simp add: count_list_eq_length_filter filter_map comp_def eq_commute)
  finally show ?thesis .
qed

definition level_count :: "risk_level \<Rightarrow> risk_counts \<Rightarrow> nat" where
  "level_count l c = (case l of Low \<Rightarrow> rc_low c | Medium \<Rightarrow> rc_medium c | High \<Rightarrow> rc_high c)"

lemma level_count_set: "level_count l (set_count c (k, n)) = (if l = k then n else level_count l c)"
  by (cases l; cases k) (simp_all add: level_count_def)

lemma level_count_groups:
  "level_count l (foldl set_count c (map (\<lambda>k. (k, g k)) ks)) = (if l \<in> set ks then g l else level_count l c)"
  by (induction ks arbitrary: c) (auto simp: level_count_set)

lemma three_levels: "length (List.filter (\<lambda>x. f x = Low) xs) + length (List.filter (\<lambda>x. f x = Medium) xs) +
    length (List.filter (\<lambda>x. f x = High) xs) = length xs"
proof (induction xs)
  case (Cons x xs)
  then show ?case by (cases "f x") simp_all
qed simp

lemma risk_groups_counts:
  "level_count l (foldl set_count \<lparr>rc_low = 0, rc_medium = 0, rc_high = 0\<rparr> (risk_groups i d)) =
   length (List.filter (\<lambda>t. tr_riskLevel t = l) (transactions_of_import i d))"
proof -
  have "level_count l \<lparr>rc_low = 0, rc_medium = 0, rc_high = 0\<rparr> = 0" by (cases l) (simp_all add: level_count_def)
  moreover have "List.filter (\<lambda>t. tr_riskLevel t = l) (transactions_of_import i d) = []"
    if "l \<notin> tr_riskLevel ` set (transactions_of_import i d)"
    using that by (auto simp: filter_empty_conv)
  ultimately show ?thesis unfolding risk_groups_def Let_def level_count_groups by simp
qed

lemma currency_groups_counts:
  assumes "\<And>cs. mset (tp_group_order tp cs) = mset cs"
  shows "sum_list (map (\<lambda>g. cs_transactionCount (currency_summary_of tp g)) (currency_groups tp i d)) =
    length (transactions_of_import i d)"
  using group_counts [OF assms, of tr_currency "transactions_of_import i d"]
  by (simp add: currency_groups_def Let_def currency_summary_of_def comp_def)

section \<open>An example\<close>

definition world_of :: "db \<Rightarrow> world" where
  "world_of d =
     \<lparr>w_db = d, w_objects = [], w_queue = [], w_shuttingDown = False, w_now = 0, w_generated = 0,
      w_counters = (\<lambda>_. 0), w_gauges = (\<lambda>_. 0), w_histograms = [], w_delays = [], w_schedule = []\<rparr>"

lemma world_of_simps [simp]:
  "w_db (world_of d) = d" "w_schedule (world_of d) = []" "w_now (world_of d) = 0"
  by (simp_all add: world_of_def)

lemma no_third_party_ids: "ids_fit no_third_party"
proof -
  have "inj (\<lambda>n. decimal (int n))" by (rule injI) (simp add: decimal_inject)
  moreover have "inj (map (\<lambda>c :: code_unit. nat (uint c)))"
    by (intro inj_mapI injI) (simp add: nat_eq_iff2 word_uint_eq_iff)
  moreover have "list_all is_ascii (decimal (int n)) \<and> 58 \<notin> set (decimal (int n))" for n
    using decimal_int_part [of "int n"] by (simp add: decimal_int_def)
  ultimately show ?thesis by (simp add: ids_fit_def)
qed

definition sample_rejection :: "nat \<Rightarrow> int \<Rightarrow> rejected_row" where
  "sample_rejection k n =
     \<lparr>rr_id = decimal (int k), rr_importId = js ''0'', rr_lineNumber = n, rr_reasonCode = ''INVALID_JSON'',
      rr_message = ''Line is not valid JSON'', rr_rawValue = JStr [], rr_createdAt = 7\<rparr>"

definition two_rejections_db :: db where
  "two_rejections_db =
     one_import_db\<lparr>db_rejected := [sample_rejection 1 9, sample_rejection 2 4], db_next := 3\<rparr>"

lemma two_rejections_db_facts:
  "rejections_ok no_third_party two_rejections_db"
  "rejected_of_import (js ''0'') two_rejections_db = [sample_rejection 1 9, sample_rejection 2 4]"
  "sort_key (rejection_key no_third_party) [sample_rejection 1 9, sample_rejection 2 4] =
     [sample_rejection 2 4, sample_rejection 1 9]"
proof -
  have "decimal 1 \<noteq> decimal 2" by (simp add: decimal_inject)
  then show "rejections_ok no_third_party two_rejections_db"
    by (auto simp: rejections_ok_def two_rejections_db_def sample_rejection_def image_iff
        intro: bexI [of _ 1] bexI [of _ 2])
qed (simp_all add: rejected_of_import_def two_rejections_db_def sample_rejection_def rejection_key_def
    less_eq_prod_def)

section \<open>Properties\<close>



text \<open>C31. With nothing else going on, following the cursors ends after at most one call more
  than there are records, and returns exactly the rejections of the import, by line.\<close>

theorem rejection_pages_exact:
  assumes "w_schedule w = []" "1 \<le> n" "n \<le> 200" "ids_fit tp" "rejections_ok tp (w_db w)"
  shows "follow_cursors tp i (of_nat n) (length (rejected_of_import i (w_db w)) + 1) None w =
    (Inr (Some (map item_of (sort_key (rejection_key tp) (rejected_of_import i (w_db w))))), w)"
  using follow_cursors_quiet [where start = None and fuel = "length (rejected_of_import i (w_db w)) + 1"
      and n = n and tp = tp and w = w and i = i] assms
  by (simp add: rest_rows_def beyond_def)

theorem rejection_pages_exact_witness:
  "follow_cursors no_third_party (js ''0'') (of_nat 1) 3 None (world_of two_rejections_db) =
    (Inr (Some [item_of (sample_rejection 2 4), item_of (sample_rejection 1 9)]), world_of two_rejections_db)"
  using rejection_pages_exact [of "world_of two_rejections_db" 1 no_third_party "js ''0''"]
    no_third_party_ids two_rejections_db_facts
  by (simp add: numeral_3_eq_3)



end
