(* ===== verification/Service.thy ===== *)
theory Service
  imports Repository
begin

text \<open>
  \<open>ImportService\<close> of \<open>src/modules/imports/imports.service.ts\<close>, over its dependencies as in the
  code: \<open>import_service_deps\<close> is \<open>ImportServiceDeps\<close>, and \<open>buildImportService\<close> is the wiring of
  \<open>src/modules/imports/imports.composition.ts\<close> with the Prisma repository, the MinIO storage, the
  BullMQ queue and the UUID generator.

  The locale \<open>import_ports\<close> is the contract \<open>createImport\<close> needs for its idempotency: a key that
  is registered stays registered for the same import, cannot be created again, and looking it
  up has no effect on storage or queue.  It is interpreted on \<open>buildImportService\<close>.
\<close>

section \<open>httpStatusCodes.ts\<close>

definition OK :: nat where "OK = 200"

definition ACCEPTED :: nat where "ACCEPTED = 202"

definition BAD_REQUEST :: nat where "BAD_REQUEST = 400"

definition NOT_FOUND :: nat where "NOT_FOUND = 404"

definition UNAUTHORIZED :: nat where "UNAUTHORIZED = 401"

definition PAYLOAD_TOO_LARGE :: nat where "PAYLOAD_TOO_LARGE = 413"

definition UNSUPPORTED_MEDIA_TYPE :: nat where "UNSUPPORTED_MEDIA_TYPE = 415"

definition INTERNAL_SERVER :: nat where "INTERNAL_SERVER = 500"

definition SERVICE_UNAVAILABLE :: nat where "SERVICE_UNAVAILABLE = 503"

section \<open>The service\<close>

record create_import_params =
  cp_idempotencyKey :: jsstring
  cp_providerId :: jsstring
  cp_fileStream :: "bytes list"    \<comment> \<open>the chunks of the upload\<close>
  cp_originalFilename :: jsstring
  cp_mimeType :: jsstring

record import_service_deps =
  sd_createPendingImport :: "jsstring \<Rightarrow> jsstring \<Rightarrow> (world, exn, import_row option) io"
  sd_findByIdempotencyKey :: "jsstring \<Rightarrow> (world, exn, import_row option) io"
  sd_findById :: "jsstring \<Rightarrow> (world, exn, import_row option) io"
  sd_attachUploadedFile :: "jsstring \<Rightarrow> attach_file_input \<Rightarrow> (world, exn, unit) io"
  sd_requestCancellation :: "jsstring \<Rightarrow> (world, exn, import_row option) io"
  sd_getSummary :: "jsstring \<Rightarrow> (world, exn, import_summary) io"
  sd_getRejections :: "jsstring \<Rightarrow> rat \<Rightarrow> jsstring option \<Rightarrow> (world, exn, rejection_page) io"
  sd_store :: "jsstring \<Rightarrow> bytes list \<Rightarrow> (world, exn, stored_file_info) io"
  sd_enqueue :: "jsstring \<Rightarrow> (world, exn, unit) io"
  sd_generate :: "(world, exn, jsstring) io"

definition findExistingByIdempotencyKey ::
  "import_service_deps \<Rightarrow> jsstring \<Rightarrow> (world, exn, import_row option) io" where
  "findExistingByIdempotencyKey deps k = sd_findByIdempotencyKey deps k"

definition storage_key :: "jsstring \<Rightarrow> jsstring \<Rightarrow> jsstring" where
  "storage_key importId uuid = js ''imports/'' @ importId @ js ''/'' @ uuid @ js ''.ndjson''"

definition attach_input_of :: "create_import_params \<Rightarrow> stored_file_info \<Rightarrow> attach_file_input" where
  "attach_input_of p s =
     \<lparr>af_storageBucket = sf_bucket s, af_storageKey = sf_key s, af_sizeBytes = sf_sizeBytes s,
      af_checksum = sf_checksum s, af_originalFilename = cp_originalFilename p,
      af_mimeType = cp_mimeType p\<rparr>"

definition createImport ::
  "import_service_deps \<Rightarrow> create_import_params \<Rightarrow> (world, exn, import_row) io" where
  "createImport deps p =
     bind_io (sd_createPendingImport deps (cp_idempotencyKey p) (cp_providerId p)) (\<lambda>created.
       case created of
         None \<Rightarrow>
           bind_io (sd_findByIdempotencyKey deps (cp_idempotencyKey p)) (\<lambda>existing.
             case existing of
               Some r \<Rightarrow> return_io r
             | None \<Rightarrow> throw_io (AppError INTERNAL_SERVER ''IMPORT_CREATE_FAILED'' ''Failed to create import''))
       | Some created \<Rightarrow>
           bind_io (sd_generate deps) (\<lambda>uuid.
           bind_io (sd_store deps (storage_key (im_id created) uuid) (cp_fileStream p)) (\<lambda>stored.
             then_io (sd_attachUploadedFile deps (im_id created) (attach_input_of p stored))
               (then_io (sd_enqueue deps (im_id created))
                 (return_io created)))))"

definition import_not_found :: exn where
  "import_not_found = AppError NOT_FOUND ''IMPORT_NOT_FOUND'' ''Import not found''"

definition getImport :: "import_service_deps \<Rightarrow> jsstring \<Rightarrow> (world, exn, import_row) io" where
  "getImport deps i =
     bind_io (sd_findById deps i) (\<lambda>found.
       case found of None \<Rightarrow> throw_io import_not_found | Some r \<Rightarrow> return_io r)"

definition cancelImport :: "import_service_deps \<Rightarrow> jsstring \<Rightarrow> (world, exn, import_row) io" where
  "cancelImport deps i =
     bind_io (sd_requestCancellation deps i) (\<lambda>updated.
       case updated of None \<Rightarrow> throw_io import_not_found | Some r \<Rightarrow> return_io r)"

definition service_getSummary :: "import_service_deps \<Rightarrow> jsstring \<Rightarrow> (world, exn, import_summary) io" where
  "service_getSummary deps i = then_io (getImport deps i) (sd_getSummary deps i)"

definition service_getRejections ::
  "import_service_deps \<Rightarrow> jsstring \<Rightarrow> rat \<Rightarrow> jsstring option \<Rightarrow> (world, exn, rejection_page) io" where
  "service_getRejections deps i limit cursor =
     then_io (getImport deps i) (sd_getRejections deps i limit cursor)"

section \<open>The wiring\<close>

definition buildImportService :: "third_party \<Rightarrow> import_service_deps" where
  "buildImportService tp =
     \<lparr>sd_createPendingImport = createPendingImport tp, sd_findByIdempotencyKey = findByIdempotencyKey tp,
      sd_findById = findById tp, sd_attachUploadedFile = attachUploadedFile tp,
      sd_requestCancellation = requestCancellation tp, sd_getSummary = Repository.getSummary tp,
      sd_getRejections = Repository.getRejections tp, sd_store = minio_store tp,
      sd_enqueue = enqueueImportProcessing tp, sd_generate = generate tp\<rparr>"

lemma buildImportService_simps [simp]:
  "sd_createPendingImport (buildImportService tp) = createPendingImport tp"
  "sd_findByIdempotencyKey (buildImportService tp) = findByIdempotencyKey tp"
  "sd_findById (buildImportService tp) = findById tp"
  "sd_attachUploadedFile (buildImportService tp) = attachUploadedFile tp"
  "sd_requestCancellation (buildImportService tp) = requestCancellation tp"
  "sd_getSummary (buildImportService tp) = Repository.getSummary tp"
  "sd_getRejections (buildImportService tp) = Repository.getRejections tp"
  "sd_store (buildImportService tp) = minio_store tp"
  "sd_enqueue (buildImportService tp) = enqueueImportProcessing tp"
  "sd_generate (buildImportService tp) = generate tp"
  by (simp_all add: buildImportService_def)

section \<open>Rows stay\<close>

text \<open>No statement removes an import or a file, or gives an import another identity.\<close>

definition grows :: "db \<Rightarrow> db \<Rightarrow> bool" where
  "grows d d' \<longleftrightarrow>
     (\<forall>k r. find_import_by_key k d = Some r \<longrightarrow>
        (\<exists>r'. find_import_by_key k d' = Some r' \<and> im_id r' = im_id r \<and> im_providerId r' = im_providerId r)) \<and>
     (\<forall>i f. find_file i d = Some f \<longrightarrow> find_file i d' = Some f)"

lemma grows_refl [simp]: "grows d d"
  by (simp add: grows_def)

lemma growsD: "grows d d' \<Longrightarrow> find_import_by_key k d = Some r \<Longrightarrow>
    \<exists>r'. find_import_by_key k d' = Some r' \<and> im_id r' = im_id r \<and> im_providerId r' = im_providerId r"
  by (simp add: grows_def)

lemma grows_fileD: "grows d d' \<Longrightarrow> find_file i d = Some f \<Longrightarrow> find_file i d' = Some f"
  by (simp add: grows_def)

lemma grows_trans:
  assumes "grows d d'" "grows d' d''"
  shows "grows d d''"
  unfolding grows_def
proof (intro conjI allI impI)
  fix k r assume "find_import_by_key k d = Some r"
  from growsD [OF assms(1) this] growsD [OF assms(2)]
  show "\<exists>r'. find_import_by_key k d'' = Some r' \<and> im_id r' = im_id r \<and> im_providerId r' = im_providerId r"
    by fastforce
qed (blast intro: grows_fileD [OF assms(2)] grows_fileD [OF assms(1)])

lemma find_append: "find P (xs @ ys) = (case find P xs of None \<Rightarrow> find P ys | Some x \<Rightarrow> Some x)"
  by (induction xs) auto

text \<open>An update that keeps identity and provider.\<close>

definition identity_kept :: "(import_row \<Rightarrow> import_row) \<Rightarrow> bool" where
  "identity_kept f \<longleftrightarrow> (\<forall>r. im_id (f r) = im_id r \<and> im_idempotencyKey (f r) = im_idempotencyKey r \<and>
     im_providerId (f r) = im_providerId r)"

lemma identity_kept_updates [simp]:
  "identity_kept cancelling" "identity_kept (\<lambda>r. r\<lparr>im_status := s\<rparr>)" "identity_kept (processing_at now)"
  "identity_kept (completed_at now)" "identity_kept (failed_at now reason)" "identity_kept (cancelled_at now)"
  "identity_kept (advance_import input n)"
  by (simp_all add: identity_kept_def cancelling_def processing_at_def completed_at_def failed_at_def
      cancelled_at_def advance_import_def)

lemma grows_map:
  assumes "db_imports d' = map (\<lambda>r. if im_id r = i then f r else r) (db_imports d)"
    and "db_files d' = db_files d" "identity_kept f"
  shows "grows d d'"
proof -
  have "find_import_by_key k d' = map_option (\<lambda>r. if im_id r = i then f r else r) (find_import_by_key k d)" for k
    unfolding find_import_by_key_def assms(1) using assms(3)
    by (intro find_cong_map) (simp add: identity_kept_def)
  with assms(2,3) show ?thesis by (auto simp: grows_def find_file_def identity_kept_def)
qed

lemma grows_update: "update_import i f d = Inr (r, d') \<Longrightarrow> identity_kept f \<Longrightarrow> grows d d'"
  by (elim update_import_InrE, rule grows_map [where i = i and f = f]) simp_all

lemma grows_create_import: "create_import tp now k p d = Inr (r, d') \<Longrightarrow> grows d d'"
  by (auto simp: create_import_def Let_def grows_def find_import_by_key_def find_file_def find_append
      split: if_splits option.splits)

lemma grows_create_file: "create_file tp f d = Inr (x, d') \<Longrightarrow> grows d d'"
  by (auto simp: create_file_def grows_def find_import_by_key_def find_file_def find_append
      split: if_splits option.splits)

lemma grows_commit:
  assumes "commit_batch_tx tp now i input d = Inr (res, d')"
  shows "grows d d'"
  using assms by (cases rule: commit_batch_txE) (auto intro: grows_map)

lemma grows_action: "grows d (action_db tp now a d)"
  by (cases a) (auto simp: run_tx_def split: sum.splits
      intro: grows_update grows_create_import grows_create_file grows_commit)

interpretation growing: environment tp "\<lambda>_. True" "\<lambda>d obs. grows d0 d" for tp d0
  by unfold_locales (blast intro: grows_trans grows_action)

lemma next_tick_grows: "next_tick tp w = (t, w') \<Longrightarrow> grows (w_db w) (w_db w')"
  using growing.holds_tick [of "w_db w" w tp t w'] by (simp add: growing.holds_def list_all_iff)

section \<open>What createImport relies on\<close>

definition registered :: "jsstring \<Rightarrow> jsstring \<Rightarrow> world \<Rightarrow> bool" where
  "registered k i w \<longleftrightarrow> (\<exists>r. find_import_by_key k (w_db w) = Some r \<and> im_id r = i)"

locale import_ports =
  fixes deps :: import_service_deps
  assumes create_new: "sd_createPendingImport deps k p w = (Inr (Some r), w') \<Longrightarrow> registered k (im_id r) w'"
    and create_taken: "registered k i w \<Longrightarrow> sd_createPendingImport deps k p w = (Inr x, w') \<Longrightarrow>
      x = None \<and> registered k i w' \<and> same_effects w w'"
    and find_new: "sd_findByIdempotencyKey deps k w = (Inr (Some r), w') \<Longrightarrow> registered k (im_id r) w'"
    and find_taken: "registered k i w \<Longrightarrow> sd_findByIdempotencyKey deps k w = (Inr x, w') \<Longrightarrow>
      (\<exists>r. x = Some r \<and> im_id r = i) \<and> same_effects w w'"
    and others: "keeps (registered k i) (sd_generate deps)"
      "keeps (registered k i) (sd_store deps key chunks)"
      "keeps (registered k i) (sd_attachUploadedFile deps j f)"
      "keeps (registered k i) (sd_enqueue deps j)"
begin

text \<open>An import that was created is registered under its key.\<close>

lemma create_registers:
  assumes "createImport deps p w = (Inr r, w')"
  shows "registered (cp_idempotencyKey p) (im_id r) w'"
proof (cases "sd_createPendingImport deps (cp_idempotencyKey p) (cp_providerId p) w" rule: prod.exhaust)
  case (Pair res w1)
  with assms obtain c where c: "res = Inr c" by (cases res) (simp_all add: createImport_def)
  show ?thesis
  proof (cases c)
    case None
    with assms Pair c show ?thesis
      by (auto simp: createImport_def bind_io_apply split: prod.splits sum.splits option.splits dest: find_new)
  next
    case (Some created)
    let ?I = "registered (cp_idempotencyKey p) (im_id created)"
    let ?rest = "bind_io (sd_generate deps) (\<lambda>uuid.
        bind_io (sd_store deps (storage_key (im_id created) uuid) (cp_fileStream p)) (\<lambda>stored.
          then_io (sd_attachUploadedFile deps (im_id created) (attach_input_of p stored))
            (then_io (sd_enqueue deps (im_id created)) (return_io created))))"
    have "?I w1" using create_new Pair c Some by simp
    moreover have "keeps ?I ?rest" by (intro keeps_intros others)
    moreover have rest: "?rest w1 = (Inr r, w')" using assms Pair c Some by (simp add: createImport_def)
    ultimately have "?I w'" by (blast dest: keepsD')
    moreover have "r = created"
      using rest by (auto simp: bind_io_apply then_io_apply split: prod.splits sum.splits)
    ultimately show ?thesis by simp
  qed
qed

text \<open>A second request with the key finds the same import and does nothing else.\<close>

lemma create_again:
  assumes "registered (cp_idempotencyKey p) i w" "createImport deps p w = (Inr r, w')"
  shows "im_id r = i \<and> same_effects w w'"
proof (cases "sd_createPendingImport deps (cp_idempotencyKey p) (cp_providerId p) w" rule: prod.exhaust)
  case (Pair res w1)
  with assms(2) obtain c where c: "res = Inr c" by (cases res) (simp_all add: createImport_def)
  note t = create_taken [OF assms(1) Pair [unfolded c]]
  then have n: "c = None" "registered (cp_idempotencyKey p) i w1" "same_effects w w1" by simp_all
  from assms(2) Pair c n(1) obtain x where x:
    "sd_findByIdempotencyKey deps (cp_idempotencyKey p) w1 = (Inr x, w')" "x = Some r"
    by (auto simp: createImport_def bind_io_apply split: prod.splits sum.splits option.splits)
  from find_taken [OF n(2) x(1)] x(2) n(3) show ?thesis by (auto simp: same_effects_def)
qed

end

lemma registered_grows: "registered k i w \<Longrightarrow> grows (w_db w) (w_db w') \<Longrightarrow> registered k i w'"
  unfolding registered_def by (blast dest: growsD)

lemma registered_keeps:
  assumes "\<And>d0. keeps (growing.holds d0) m"
  shows "keeps (registered k i) m"
proof (rule keepsI)
  fix w assume "registered k i w"
  have "growing.holds (w_db w) w" by (simp add: growing.holds_def list_all_iff)
  with assms [of "w_db w"] have "growing.holds (w_db w) (snd (m w))" by (rule keepsD)
  then have "grows (w_db w) (w_db (snd (m w)))" by (simp add: growing.holds_def)
  with \<open>registered k i w\<close> show "registered k i (snd (m w))" by (rule registered_grows)
qed

interpretation ports: import_ports "buildImportService tp" for tp
proof
  show "registered k (im_id r) w'" if run: "sd_createPendingImport (buildImportService tp) k p w = (Inr (Some r), w')"
    for k p w r w'
  proof -
    from run have "db_call tp (\<lambda>now. create_import tp now k p) w = (Inr r, w')"
      by (auto simp: createPendingImport_def catch_io_apply bind_io_apply split: prod.splits sum.splits if_splits)
    then show ?thesis
      by (elim db_call_InrE)
        (auto simp: registered_def create_import_def Let_def find_import_by_key_def find_append
          split: if_splits option.splits)
  qed
  show "x = None \<and> registered k i w' \<and> same_effects w w'"
    if taken: "registered k i w" and run: "sd_createPendingImport (buildImportService tp) k p w = (Inr x, w')"
    for k i p w x w'
  proof -
    have no: "create_import tp now k p d = Inl (PrismaKnown ''P2002'')" if "find_import_by_key k d \<noteq> None" for now d
      using that by (simp add: create_import_def)
    have "keeps (registered k i) (createPendingImport tp k p)" "keeps (same_effects w) (createPendingImport tp k p)"
      unfolding createPendingImport_def
      by (intro keeps_intros registered_keeps growing.keeps_db_call same_effects_db_calls;
          blast intro: grows_trans grows_create_import)+
    with taken run have k: "registered k i w'" "same_effects w w'"
      using keepsD' [of "same_effects w", OF _ same_effects_refl] by (auto dest: keepsD')
    have "db_call tp (\<lambda>now. create_import tp now k p) w \<noteq> (Inr r, w1)" for r w1
    proof
      assume "db_call tp (\<lambda>now. create_import tp now k p) w = (Inr r, w1)"
      then show False
      proof (rule db_call_InrE)
        fix t v d
        assume n: "next_tick tp w = (t, v)" and c: "create_import tp (w_now v) k p (w_db v) = Inr (r, d)"
        from registered_grows [OF taken next_tick_grows [OF n]] c no [of "w_db v"] show False
          by (auto simp: registered_def)
      qed
    qed
    then have "x = None"
      using run by (auto simp: createPendingImport_def catch_io_apply bind_io_apply
          split: prod.splits sum.splits if_splits)
    with k show ?thesis by simp
  qed
  show "registered k (im_id r) w'" if "sd_findByIdempotencyKey (buildImportService tp) k w = (Inr (Some r), w')"
    for k w r w'
    using that by (auto simp: findByIdempotencyKey_def registered_def elim!: db_query_InrE intro: sym)
  show "(\<exists>r. x = Some r \<and> im_id r = i) \<and> same_effects w w'"
    if taken: "registered k i w" and "sd_findByIdempotencyKey (buildImportService tp) k w = (Inr x, w')" for k i w x w'
    using that(2) unfolding buildImportService_simps findByIdempotencyKey_def
  proof (rule db_query_InrE)
    fix t assume n: "next_tick tp w = (t, w')" "x = find_import_by_key k (w_db w')"
    from registered_grows [OF taken next_tick_grows [OF n(1)]] n(2) same_effects_tick [OF same_effects_refl n(1)]
    show ?thesis by (auto simp: registered_def)
  qed
  show "keeps (registered k i) (sd_generate (buildImportService tp))" for k i
    by (simp add: registered_keeps growing.keeps_process)
  show "keeps (registered k i) (sd_store (buildImportService tp) key chunks)" for k i key chunks
    by (simp add: registered_keeps growing.keeps_minio_store)
  show "keeps (registered k i) (sd_attachUploadedFile (buildImportService tp) j f)" for k i j f
    unfolding buildImportService_simps attachUploadedFile_def
    by (intro registered_keeps growing.keeps_db_call) (blast intro: grows_trans grows_create_file)
  show "keeps (registered k i) (sd_enqueue (buildImportService tp) j)" for k i j
    by (simp add: registered_keeps growing.keeps_adapters)
qed

section \<open>What a request leaves behind\<close>

lemma same_effects_create: "keeps (same_effects v) (createPendingImport tp k p)"
  and same_effects_find: "keeps (same_effects v) (findByIdempotencyKey tp k)"
  unfolding createPendingImport_def findByIdempotencyKey_def
  by (intro keeps_intros same_effects_db_calls)+

lemma same_effectsI: "(\<And>v. keeps (same_effects v) m) \<Longrightarrow> m w = (r, w') \<Longrightarrow> same_effects w w'"
  using keepsD' [where I = "same_effects w" and m = m, OF _ same_effects_refl] by blast

lemma minio_store_InrE:
  assumes "minio_store tp key chunks w = (Inr s, w')"
  shows "sf_key s = key \<and> sf_sizeBytes s = int (length (concat chunks)) \<and>
    w_objects w' = (key, concat chunks) # w_objects w \<and> w_queue w' = w_queue w"
  using assms unfolding minio_store_def
  by (elim call_InrE) (auto simp: next_tick_same length_concat)

lemma attach_InrE:
  assumes "attachUploadedFile tp i f w = (Inr x, w')"
  shows "(\<exists>r. find_file i (w_db w') = Some r \<and> uf_storageKey r = af_storageKey f \<and> uf_sizeBytes r = af_sizeBytes f) \<and>
    same_effects w w'"
  using assms unfolding attachUploadedFile_def
proof (rule db_call_InrE)
  fix t v d
  assume v: "next_tick tp w = (t, v)" "create_file tp (file_row_of i f (w_now v)) (w_db v) = Inr (x, d)"
    "w' = v\<lparr>w_db := d\<rparr>"
  then have "find_file i d = Some ((file_row_of i f (w_now v))\<lparr>uf_id := tp_uuid tp (db_next (w_db v))\<rparr>)"
    by (auto simp: create_file_def find_file_def find_append file_row_of_def split: if_splits option.splits)
  then show ?thesis
    using v(3) same_effects_tick [OF same_effects_refl v(1)] by (simp add: file_row_of_def)
qed

lemma enqueue_InrE:
  assumes "enqueueImportProcessing tp i w = (Inr x, w')"
  shows "grows (w_db w) (w_db w') \<and> w_objects w' = w_objects w \<and> w_queue w' = w_queue w @ [i]"
  using assms unfolding enqueueImportProcessing_def
  by (elim call_InrE) (auto simp: next_tick_same dest: next_tick_grows)

text \<open>The steps after the import was created.\<close>

lemma upload_stepsE:
  assumes "bind_io (generate tp) (\<lambda>uuid.
      bind_io (minio_store tp (storage_key (im_id created) uuid) (cp_fileStream p)) (\<lambda>stored.
        then_io (attachUploadedFile tp (im_id created) (attach_input_of p stored))
          (then_io (enqueueImportProcessing tp (im_id created)) (return_io created)))) w1 = (Inr r, w')"
  obtains uuid w2 s w3 x w4 y where "generate tp w1 = (Inr uuid, w2)"
    "minio_store tp (storage_key (im_id created) uuid) (cp_fileStream p) w2 = (Inr s, w3)"
    "attachUploadedFile tp (im_id created) (attach_input_of p s) w3 = (Inr x, w4)"
    "enqueueImportProcessing tp (im_id created) w4 = (Inr y, w')" "r = created"
proof -
  from assms obtain uuid w2 where run1: "generate tp w1 = (Inr uuid, w2)" and
    "bind_io (minio_store tp (storage_key (im_id created) uuid) (cp_fileStream p)) (\<lambda>stored.
        then_io (attachUploadedFile tp (im_id created) (attach_input_of p stored))
          (then_io (enqueueImportProcessing tp (im_id created)) (return_io created))) w2 = (Inr r, w')"
    by (rule bind_io_InrE)
  from this(2) obtain s w3 where
    run2: "minio_store tp (storage_key (im_id created) uuid) (cp_fileStream p) w2 = (Inr s, w3)" and
    "then_io (attachUploadedFile tp (im_id created) (attach_input_of p s))
          (then_io (enqueueImportProcessing tp (im_id created)) (return_io created)) w3 = (Inr r, w')"
    by (rule bind_io_InrE)
  from this(2) obtain x w4 where
    run3: "attachUploadedFile tp (im_id created) (attach_input_of p s) w3 = (Inr x, w4)" and
    "then_io (enqueueImportProcessing tp (im_id created)) (return_io created) w4 = (Inr r, w')"
    by (rule then_io_InrE)
  from this(2) obtain y where run4: "enqueueImportProcessing tp (im_id created) w4 = (Inr y, w')" "r = created"
    by (elim then_io_InrE) simp
  from that [OF run1 run2 run3 run4] show thesis .
qed

section \<open>Imports the others leave alone\<close>

fun touches :: "jsstring \<Rightarrow> env_action \<Rightarrow> bool" where
  "touches i (Cancel_Import j) \<longleftrightarrow> j = i"
| "touches i (Mark_Import j s) \<longleftrightarrow> j = i"
| "touches i (Commit_Batch j input) \<longleftrightarrow> j = i"
| "touches i _ \<longleftrightarrow> False"

lemma find_import_map_other:
  assumes "j \<noteq> i" "identity_kept f"
  shows "find (\<lambda>r. im_id r = i) (map (\<lambda>r. if im_id r = j then f r else r) rs) = find (\<lambda>r. im_id r = i) rs"
  using assms by (induction rs) (auto simp: identity_kept_def)

lemma update_other: "update_import j f d = Inr (r, d') \<Longrightarrow> j \<noteq> i \<Longrightarrow> identity_kept f \<Longrightarrow>
    find_import i d' = find_import i d"
  by (elim update_import_InrE) (simp add: find_import_def find_import_map_other)

lemma commit_other:
  assumes "commit_batch_tx tp now j input d = Inr (res, d')" "j \<noteq> i"
  shows "find_import i d' = find_import i d"
  using assms(1)
  by (cases rule: commit_batch_txE) (simp_all add: find_import_def find_import_map_other [OF assms(2)])

lemma create_import_other: "create_import tp now k p d = Inr (x, d') \<Longrightarrow> find_import i d = Some r \<Longrightarrow>
    find_import i d' = Some r"
  by (auto simp: create_import_def Let_def find_import_def find_append split: if_splits)

lemma create_file_other: "create_file tp f d = Inr (x, d') \<Longrightarrow> find_import i d' = find_import i d"
  by (auto simp: create_file_def find_import_def split: if_splits)

lemma action_other:
  assumes "\<not> touches i a" "find_import i d = Some r"
  shows "find_import i (action_db tp now a d) = Some r"
  using assms
  by (cases a) (auto simp: run_tx_def split: sum.splits
      dest: create_import_other create_file_other [where i = i] update_other [where i = i] commit_other [where i = i])

interpretation row: environment tp "\<lambda>a. \<not> touches i a" "\<lambda>d obs. find_import i d = Some r" for tp i r
  by unfold_locales (rule action_other)

section \<open>Properties\<close>

text \<open>C28. One import for each idempotency key: when a request has created (or found) an import,
  any later request with the same key answers with that import, and uploads and enqueues
  nothing, whatever the other requests and workers do in between.\<close>

theorem create_import_idempotent:
  assumes "createImport (buildImportService tp) p w = (Inr r, w1)"
    and "createImport (buildImportService tp) q w1 = (Inr r', w2)"
    and "cp_idempotencyKey q = cp_idempotencyKey p"
  shows "im_id r' = im_id r \<and> w_objects w2 = w_objects w1 \<and> w_queue w2 = w_queue w1"
  using ports.create_again [OF _ assms(2)] ports.create_registers [OF assms(1)] assms(3)
  by (simp add: same_effects_def)

text \<open>C32. A request that created an import has stored the whole upload under the key its file
  row names, with its size, and enqueued the import once.\<close>

theorem create_import_stores_upload:
  assumes "createImport (buildImportService tp) p w = (Inr r, w')" "w_queue w' \<noteq> w_queue w"
  shows "w_queue w' = w_queue w @ [im_id r] \<and>
    (\<exists>f. find_file (im_id r) (w_db w') = Some f \<and>
      map_of (w_objects w') (uf_storageKey f) = Some (concat (cp_fileStream p)) \<and>
      uf_sizeBytes f = int (length (concat (cp_fileStream p))))"
proof (cases "createPendingImport tp (cp_idempotencyKey p) (cp_providerId p) w" rule: prod.exhaust)
  case (Pair res w1)
  with assms(1) obtain c where c: "res = Inr c" by (cases res) (simp_all add: createImport_def)
  have e1: "same_effects w w1" using Pair by (intro same_effectsI [OF same_effects_create])
  show ?thesis
  proof (cases c)
    case None
    with assms(1) Pair c obtain x where "findByIdempotencyKey tp (cp_idempotencyKey p) w1 = (Inr x, w')"
      by (auto simp: createImport_def bind_io_apply split: prod.splits sum.splits option.splits)
    then have "same_effects w1 w'" by (intro same_effectsI [OF same_effects_find])
    with e1 assms(2) show ?thesis by (simp add: same_effects_def)
  next
    case (Some created)
    have "bind_io (generate tp) (\<lambda>uuid.
        bind_io (minio_store tp (storage_key (im_id created) uuid) (cp_fileStream p)) (\<lambda>stored.
          then_io (attachUploadedFile tp (im_id created) (attach_input_of p stored))
            (then_io (enqueueImportProcessing tp (im_id created)) (return_io created)))) w1 = (Inr r, w')"
      using assms(1) Pair c Some by (simp add: createImport_def)
    then obtain uuid w2 s w3 x w4 y where
      run: "generate tp w1 = (Inr uuid, w2)"
        "minio_store tp (storage_key (im_id created) uuid) (cp_fileStream p) w2 = (Inr s, w3)"
        "attachUploadedFile tp (im_id created) (attach_input_of p s) w3 = (Inr x, w4)"
        "enqueueImportProcessing tp (im_id created) w4 = (Inr y, w')" "r = created"
      by (rule upload_stepsE)
    have e2: "same_effects w1 w2"
      using run(1) by (auto simp: generate_def bind_io_apply then_io_apply same_effects_def)
    note s = minio_store_InrE [OF run(2)] and a = attach_InrE [OF run(3)] and q = enqueue_InrE [OF run(4)]
    from a obtain f where f: "find_file (im_id created) (w_db w4) = Some f"
      "uf_storageKey f = sf_key s" "uf_sizeBytes f = sf_sizeBytes s"
      by (auto simp: attach_input_of_def)
    have "find_file (im_id created) (w_db w') = Some f" using q f(1) by (blast intro: grows_fileD)
    with e1 e2 s a q f run(5) show ?thesis by (auto simp: same_effects_def)
  qed
qed

text \<open>An upload that fails after the import row was written is not repaired by a retry with
  the same key: the retry answers with the pending import, stores no file and enqueues
  nothing.\<close>

theorem failed_upload_not_repaired:
  assumes "createImport (buildImportService tp) p w = (Inl e, w1)"
    and "find_import_by_key (cp_idempotencyKey p) (w_db w1) = Some r"
    and "cp_idempotencyKey q = cp_idempotencyKey p"
    and "createImport (buildImportService tp) q w1 = (Inr r', w2)"
  shows "im_id r' = im_id r \<and> w_objects w2 = w_objects w1 \<and> w_queue w2 = w_queue w1"
proof -
  have "registered (cp_idempotencyKey q) (im_id r) w1" using assms(2,3) by (simp add: registered_def)
  from ports.create_again [OF this assms(4)] show ?thesis by (simp add: same_effects_def)
qed

definition sample_params :: create_import_params where
  "sample_params =
     \<lparr>cp_idempotencyKey = js ''key'', cp_providerId = js ''p'', cp_fileStream = [[0x7b], [0x7d, 0x0a]],
      cp_originalFilename = js ''a.ndjson'', cp_mimeType = js ''text/plain''\<rparr>"

definition created_row :: import_row where
  "created_row = one_import_row\<lparr>im_createdAt := 0\<rparr>"

lemma sample_create:
  "createPendingImport no_third_party (js ''key'') (js ''p'') (world_of empty_db) =
     (Inr (Some created_row), world_of (one_import_db\<lparr>db_imports := [created_row]\<rparr>))"
  by (simp add: createPendingImport_def catch_io_apply bind_io_apply quiet_db_call create_import_def
      find_import_by_key_def empty_db_def one_import_db_def created_row_def one_import_row_def decimal_0 Let_def
      world_of_def)

definition created_world :: world where
  "created_world = world_of (one_import_db\<lparr>db_imports := [created_row]\<rparr>)"

lemma created_world_facts:
  "find_import (js ''0'') (w_db created_world) = Some created_row"
  "find_import_by_key (js ''key'') (w_db created_world) = Some created_row"
  "im_id created_row = js ''0''" "db_files (w_db created_world) = []" "w_schedule created_world = []"
  by (simp_all add: created_world_def created_row_def one_import_row_def find_import_def find_import_by_key_def
      one_import_db_def empty_db_def)

lemma sample_createImport:
  "\<exists>w'. createImport (buildImportService no_third_party) sample_params (world_of empty_db) =
     (Inr created_row, w') \<and> w_queue w' = [js ''0''] \<and> w_schedule w' = []"
proof -
  have "createPendingImport no_third_party (cp_idempotencyKey sample_params) (cp_providerId sample_params)
      (world_of empty_db) = (Inr (Some created_row), created_world)"
    using sample_create by (simp add: sample_params_def created_world_def)
  then show ?thesis
    using created_world_facts
    by (auto simp: createImport_def bind_io_apply then_io_apply generate_def minio_store_def attachUploadedFile_def
        enqueueImportProcessing_def quiet_call quiet_db_call create_file_def file_row_of_def find_file_def
        find_import_def created_world_def world_of_def)
qed

theorem create_import_idempotent_witness:
  "\<exists>r w1 r' w2. createImport (buildImportService no_third_party) sample_params (world_of empty_db) = (Inr r, w1) \<and>
     createImport (buildImportService no_third_party) sample_params w1 = (Inr r', w2) \<and>
     im_id r' = im_id r \<and> w_queue w2 = w_queue w1"
proof -
  from sample_createImport obtain w1 where
    1: "createImport (buildImportService no_third_party) sample_params (world_of empty_db) = (Inr created_row, w1)"
      "w_schedule w1 = []" by blast
  from ports.create_registers [OF 1(1)] obtain r where r: "find_import_by_key (js ''key'') (w_db w1) = Some r"
    by (auto simp: registered_def sample_params_def)
  then have "createPendingImport no_third_party (js ''key'') (js ''p'') w1 = (Inr None, w1)"
    using 1(2) by (simp add: createPendingImport_def catch_io_apply bind_io_apply quiet_db_call create_import_def
        UNIQUE_CONSTRAINT_VIOLATION_def)
  then have 2: "createImport (buildImportService no_third_party) sample_params w1 = (Inr r, w1)"
    using r 1(2) by (simp add: createImport_def bind_io_apply findByIdempotencyKey_def sample_params_def)
  from create_import_idempotent [OF 1(1) 2] 1 2 show ?thesis by blast
qed

theorem create_import_stores_upload_witness:
  "\<exists>w' f. createImport (buildImportService no_third_party) sample_params (world_of empty_db) =
      (Inr created_row, w') \<and> find_file (js ''0'') (w_db w') = Some f \<and>
    map_of (w_objects w') (uf_storageKey f) = Some [0x7b, 0x7d, 0x0a] \<and> uf_sizeBytes f = 3"
proof -
  from sample_createImport obtain w' where
    w': "createImport (buildImportService no_third_party) sample_params (world_of empty_db) = (Inr created_row, w')"
      "w_queue w' = [js ''0'']" by blast
  moreover have "w_queue w' \<noteq> w_queue (world_of empty_db)" using w'(2) by (simp add: world_of_def)
  ultimately show ?thesis
    using create_import_stores_upload [OF w'(1)] created_world_facts(3) by (auto simp: sample_params_def)
qed

theorem failed_upload_not_repaired_witness:
  "\<exists>w1 r' w2. createImport (buildImportService no_third_party) sample_params
       ((world_of empty_db)\<lparr>w_schedule := [quiet_tick, quiet_tick\<lparr>tk_fault := Fail_Before StorageError\<rparr>]\<rparr>) =
       (Inl StorageError, w1) \<and>
     createImport (buildImportService no_third_party) sample_params w1 = (Inr r', w2) \<and>
     im_status r' = Pending \<and> w_objects w2 = [] \<and> w_queue w2 = [] \<and> db_files (w_db w2) = []"
proof -
  let ?w = "(world_of empty_db)\<lparr>w_schedule := [quiet_tick, quiet_tick\<lparr>tk_fault := Fail_Before StorageError\<rparr>]\<rparr>"
  let ?w1 = "created_world\<lparr>w_generated := 1\<rparr>"
  have 1: "createImport (buildImportService no_third_party) sample_params ?w = (Inl StorageError, ?w1)"
    by (simp add: createImport_def bind_io_apply then_io_apply generate_def minio_store_def createPendingImport_def
        catch_io_apply db_call_def call_def next_tick_def quiet_tick_def create_import_def find_import_by_key_def
        created_world_def world_of_def sample_params_def empty_db_def one_import_db_def created_row_def
        one_import_row_def decimal_0 Let_def)
  have k: "find_import_by_key (cp_idempotencyKey sample_params) (w_db ?w1) = Some created_row"
    using created_world_facts by (simp add: sample_params_def)
  then have "createPendingImport no_third_party (js ''key'') (js ''p'') ?w1 = (Inr None, ?w1)"
    using created_world_facts by (simp add: createPendingImport_def catch_io_apply bind_io_apply quiet_db_call
        create_import_def UNIQUE_CONSTRAINT_VIOLATION_def)
  then have 2: "createImport (buildImportService no_third_party) sample_params ?w1 = (Inr created_row, ?w1)"
    using k created_world_facts
    by (simp add: createImport_def bind_io_apply findByIdempotencyKey_def sample_params_def)
  from failed_upload_not_repaired [OF 1 k refl 2] have "w_objects ?w1 = w_objects ?w1" by simp
  with 1 2 show ?thesis
    using created_world_facts
    by (intro exI [of _ ?w1] exI [of _ created_row])
      (simp add: created_world_def world_of_def created_row_def one_import_row_def)
qed

text \<open>Cancelling an import that is already finished, or already being cancelled, changes
  nothing and answers with the row as it is (as long as nobody else marks that import).\<close>

theorem cancel_keeps_finished:
  assumes "cancelImport (buildImportService tp) i w = (Inr r', w')"
    and "find_import i (w_db w) = Some r" "im_status r \<notin> {Pending, Processing}"
    and "list_all (\<lambda>t. list_all (\<lambda>a. \<not> touches i a) (tk_actions t)) (w_schedule w)"
  shows "r' = r \<and> find_import i (w_db w') = Some r"
proof -
  have h: "row.holds i r w" using assms(2,4) by (simp add: row.holds_def)
  from assms(1) obtain x w1 where x: "db_query tp (find_import i) w = (Inr x, w1)"
    "bind_io (case x of None \<Rightarrow> return_io None
        | Some r \<Rightarrow> if im_status r \<noteq> Pending \<and> im_status r \<noteq> Processing then return_io (Some r)
          else bind_io (db_call tp (\<lambda>_. update_import i cancelling)) (\<lambda>r'. return_io (Some r')))
      (\<lambda>updated. case updated of None \<Rightarrow> throw_io import_not_found | Some r \<Rightarrow> return_io r) w1 = (Inr r', w')"
    unfolding cancelImport_def requestCancellation_def buildImportService_simps
    by (auto simp: bind_io_apply split: prod.splits sum.splits)
  from triple_InrD [OF row.triple_db_query [where Q = "\<lambda>x. x = Some r"] h x(1)]
  have "x = Some r" "find_import i (w_db w1) = Some r" by (simp_all add: row.holds_def)
  with x(2) assms(3) show ?thesis by (simp add: bind_io_apply)
qed

definition finished_world :: world where
  "finished_world = world_of (one_import_db\<lparr>db_imports := [one_import_row\<lparr>im_status := Completed\<rparr>]\<rparr>)"

theorem cancel_keeps_finished_witness:
  "\<exists>r w'. cancelImport (buildImportService no_third_party) (js ''0'') finished_world = (Inr r, w') \<and>
     im_status r = Completed \<and> find_import (js ''0'') (w_db w') = Some r"
proof -
  let ?r = "one_import_row\<lparr>im_status := Completed\<rparr>"
  have f: "find_import (js ''0'') (w_db finished_world) = Some ?r"
    by (simp add: finished_world_def find_import_def one_import_row_def)
  have q: "w_schedule finished_world = []" by (simp add: finished_world_def)
  have c: "cancelImport (buildImportService no_third_party) (js ''0'') finished_world = (Inr ?r, finished_world)"
    using f q by (simp add: cancelImport_def requestCancellation_def bind_io_apply)
  from cancel_keeps_finished [OF c f] q c show ?thesis by auto
qed

text \<open>The check of the status and the update are two statements, so the comment that a
  cancellation never regresses a finished job does not hold of the code: when the worker
  completes the import between the two, the request puts it back to \<open>cancelling\<close>, a status
  that no worker picks up.\<close>

theorem cancel_can_overwrite_completion:
  assumes "find_import i (w_db w) = Some r" "im_status r \<in> {Pending, Processing}"
    and "w_schedule w = [quiet_tick, quiet_tick\<lparr>tk_actions := [Mark_Import i Completed]\<rparr>]"
  shows "\<exists>r' w'. cancelImport (buildImportService tp) i w = (Inr r', w') \<and>
    im_status r' = Cancelling \<and> find_import i (w_db w') = Some r'"
proof -
  let ?done = "\<lambda>r. r\<lparr>im_status := Completed\<rparr>"
  obtain x d1 where d1: "update_import i ?done (w_db w) = Inr (x, d1)"
    using assms(1) by (simp add: update_import_def)
  have "find_import i d1 = Some x" using find_import_update [OF d1, of i] by simp
  then obtain y d2 where d2: "update_import i cancelling d1 = Inr (y, d2)"
    by (simp add: update_import_def)
  have y: "y = cancelling x" using d2 \<open>find_import i d1 = Some x\<close> by (auto elim: update_import_InrE)
  have "find_import i d2 = Some y" using find_import_update [OF d2, of i] by (simp add: cancelling_def)
  then have "cancelImport (buildImportService tp) i w = (Inr y, w\<lparr>w_schedule := [], w_db := d2\<rparr>)"
    using assms d1 d2
    by (auto simp: cancelImport_def requestCancellation_def bind_io_apply db_query_def db_call_def call_def
        next_tick_def quiet_tick_def apply_action_def run_tx_def)
  with y \<open>find_import i d2 = Some y\<close> show ?thesis by (simp add: cancelling_def)
qed

theorem cancel_can_overwrite_completion_witness:
  "\<exists>r' w'. cancelImport (buildImportService no_third_party) (js ''0'')
       (created_world\<lparr>w_schedule := [quiet_tick, quiet_tick\<lparr>tk_actions := [Mark_Import (js ''0'') Completed]\<rparr>]\<rparr>) =
       (Inr r', w') \<and>
     im_status r' = Cancelling \<and> find_import (js ''0'') (w_db w') = Some r'"
  by (rule cancel_can_overwrite_completion [of _ _ created_row])
    (use created_world_facts in \<open>simp_all add: created_row_def one_import_row_def\<close>)

end
