(* ===== verification/Processor.thy ===== *)
theory Processor
  imports Service
begin

text \<open>
  \<open>ImportProcessor.process\<close> of \<open>src/modules/imports/imports.processor.ts\<close>, over its dependencies
  as in the code, and \<open>buildImportProcessor\<close> of \<open>imports.composition.ts\<close>.  \<open>flush\<close> is the local
  function of the same name, \<open>run_lines\<close> the \<open>for await\<close> loop with the lines still to come,
  \<open>consume\<close> the \<open>try\<close> block with its handler, \<open>finish\<close> the local function that records the
  outcome.  The logger is left out.
\<close>

section \<open>Dependencies\<close>

record import_processor_deps =
  pd_findById :: "jsstring \<Rightarrow> (world, exn, import_row option) io"
  pd_getUploadedFile :: "jsstring \<Rightarrow> (world, exn, file_row option) io"
  pd_markProcessing :: "jsstring \<Rightarrow> (world, exn, import_row option) io"
  pd_markCompleted :: "jsstring \<Rightarrow> (world, exn, unit) io"
  pd_markFailed :: "jsstring \<Rightarrow> string \<Rightarrow> (world, exn, unit) io"
  pd_markCancelled :: "jsstring \<Rightarrow> (world, exn, unit) io"
  pd_commitBatch :: "jsstring \<Rightarrow> commit_input \<Rightarrow> (world, exn, commit_result) io"
  pd_read :: "jsstring \<Rightarrow> int \<Rightarrow> (world, exn, byte_stream) io"
  pd_scoreBatch :: "risk_input list \<Rightarrow> (world, exn, (jsnum \<times> risk_level) list) io"
  pd_enqueue :: "jsstring \<Rightarrow> (world, exn, unit) io"
  pd_isShuttingDown :: "(world, exn, bool) io"

definition buildImportProcessor :: "third_party \<Rightarrow> retry_config \<Rightarrow> import_processor_deps" where
  "buildImportProcessor tp cfg =
     \<lparr>pd_findById = findById tp, pd_getUploadedFile = getUploadedFile tp,
      pd_markProcessing = markProcessing tp, pd_markCompleted = markCompleted tp,
      pd_markFailed = markFailed tp, pd_markCancelled = markCancelled tp,
      pd_commitBatch = commitBatch tp cfg, pd_read = minio_read tp,
      pd_scoreBatch = piscina_scoreBatch tp, pd_enqueue = enqueueImportProcessing tp,
      pd_isShuttingDown = isShuttingDown\<rparr>"

lemma buildImportProcessor_simps [simp]:
  "pd_findById (buildImportProcessor tp cfg) = findById tp"
  "pd_getUploadedFile (buildImportProcessor tp cfg) = getUploadedFile tp"
  "pd_markProcessing (buildImportProcessor tp cfg) = markProcessing tp"
  "pd_markCompleted (buildImportProcessor tp cfg) = markCompleted tp"
  "pd_markFailed (buildImportProcessor tp cfg) = markFailed tp"
  "pd_markCancelled (buildImportProcessor tp cfg) = markCancelled tp"
  "pd_commitBatch (buildImportProcessor tp cfg) = commitBatch tp cfg"
  "pd_read (buildImportProcessor tp cfg) = minio_read tp"
  "pd_scoreBatch (buildImportProcessor tp cfg) = piscina_scoreBatch tp"
  "pd_enqueue (buildImportProcessor tp cfg) = enqueueImportProcessing tp"
  "pd_isShuttingDown (buildImportProcessor tp cfg) = isShuttingDown"
  by (simp_all add: buildImportProcessor_def)

section \<open>The worker\<close>

definition finish :: "string \<Rightarrow> (world, exn, unit) io" where
  "finish outcome =
     then_io (observeHistogram ''import_duration_seconds'' [(''outcome'', outcome)])
       (then_io (decrementGauge ''active_imports'')
         (if outcome = ''failed'' then incrementCounter ''import_processing_failures_total'' [] 1
          else return_io ()))"

definition commit_input_of ::
  "accepted_input list \<Rightarrow> rejected_input list \<Rightarrow> nat \<Rightarrow> parsed_line \<Rightarrow> commit_input" where
  "commit_input_of accepted rejected processedCount lastLine =
     \<lparr>ci_acceptedTransactions = accepted, ci_rejectedRecords = rejected,
      ci_processedDelta = processedCount, ci_checkpointOffset = pl_byteOffsetAfter lastLine,
      ci_checkpointLineNumber = pl_lineNumber lastLine\<rparr>"

definition count_batch :: "nat \<Rightarrow> nat \<Rightarrow> commit_result \<Rightarrow> (world, exn, unit) io" where
  "count_batch processedCount rejectedCount result =
     then_io (incrementCounter ''records_processed_total'' [] (int processedCount))
       (then_io (incrementCounter ''records_accepted_total'' [] (cr_acceptedCount result))
         (then_io (incrementCounter ''records_rejected_total'' [] (int rejectedCount))
           (incrementCounter ''records_duplicate_total'' [] (cr_duplicateCount result))))"

text \<open>After a batch: stop when cancelled, pause when shutting down, otherwise go on.\<close>

definition after_batch :: "import_processor_deps \<Rightarrow> jsstring \<Rightarrow> (world, exn, bool) io" where
  "after_batch deps importId =
     bind_io (pd_findById deps importId) (\<lambda>current.
       if (case current of Some r \<Rightarrow> im_cancelRequested r | None \<Rightarrow> False)
       then then_io (pd_markCancelled deps importId)
              (then_io (finish ''cancelled'') (return_io False))
       else bind_io (pd_isShuttingDown deps) (\<lambda>stopping.
         if stopping
         then then_io (pd_enqueue deps importId)
                (then_io (finish ''paused'') (return_io False))
         else return_io True))"

definition flush ::
  "third_party \<Rightarrow> import_processor_deps \<Rightarrow> jsstring \<Rightarrow> jsstring \<Rightarrow> parsed_line list \<Rightarrow> (world, exn, bool) io" where
  "flush tp deps importId providerId batch =
     (if batch = [] then return_io True
      else bind_io (validateAndScoreBatch tp (pd_scoreBatch deps) batch providerId)
        (\<lambda>(accepted, rejected, processedCount).
          bind_io (pd_commitBatch deps importId
                    (commit_input_of accepted rejected processedCount (last batch))) (\<lambda>result.
            then_io (count_batch processedCount (length rejected) result)
              (after_batch deps importId))))"

text \<open>The loop: \<open>None\<close> when a flush stopped it, otherwise the lines of the last, partial batch.\<close>

fun run_lines ::
  "third_party \<Rightarrow> import_processor_deps \<Rightarrow> jsstring \<Rightarrow> jsstring \<Rightarrow> parsed_line list \<Rightarrow> parsed_line list \<Rightarrow>
   (world, exn, parsed_line list option) io" where
  "run_lines tp deps i p batch [] = return_io (Some batch)"
| "run_lines tp deps i p batch (line # ls) =
     (if BATCH_SIZE \<le> length (batch @ [line])
      then bind_io (flush tp deps i p (batch @ [line])) (\<lambda>continue.
             if continue then run_lines tp deps i p [] ls else return_io None)
      else run_lines tp deps i p (batch @ [line]) ls)"

definition consume ::
  "third_party \<Rightarrow> import_processor_deps \<Rightarrow> jsstring \<Rightarrow> import_row \<Rightarrow> byte_stream \<Rightarrow> (world, exn, unit) io" where
  "consume tp deps importId row stream =
     (case parseNdjsonLines stream (im_checkpointOffset row) (im_checkpointLineNumber row) of
        (lines, breaks) \<Rightarrow>
          catch_io
            (bind_io (run_lines tp deps importId (im_providerId row) [] lines) (\<lambda>rest.
               case rest of
                 None \<Rightarrow> return_io ()
               | Some batch \<Rightarrow>
                   if breaks then throw_io StreamError
                   else bind_io (flush tp deps importId (im_providerId row) batch) (\<lambda>continue.
                     if continue
                     then then_io (pd_markCompleted deps importId) (finish ''completed'')
                     else return_io ())))
            (\<lambda>_. then_io (pd_markFailed deps importId ''Processing failed unexpectedly'') (finish ''failed'')))"

definition process_file ::
  "third_party \<Rightarrow> import_processor_deps \<Rightarrow> jsstring \<Rightarrow> import_row \<Rightarrow> file_row \<Rightarrow> (world, exn, unit) io" where
  "process_file tp deps importId row uploadedFile =
     then_io (pd_markProcessing deps importId)
       (bind_io
         (catch_io
           (bind_io (pd_read deps (uf_storageKey uploadedFile) (im_checkpointOffset row))
             (\<lambda>s. return_io (Some s)))
           (\<lambda>_. then_io (pd_markFailed deps importId ''Failed to read uploaded file'')
             (then_io (finish ''failed'') (return_io None))))
         (\<lambda>stream. case stream of None \<Rightarrow> return_io () | Some s \<Rightarrow> consume tp deps importId row s))"

definition process :: "third_party \<Rightarrow> import_processor_deps \<Rightarrow> jsstring \<Rightarrow> (world, exn, unit) io" where
  "process tp deps importId =
     bind_io (pd_findById deps importId) (\<lambda>importRow.
       case importRow of
         None \<Rightarrow> return_io ()
       | Some row \<Rightarrow>
           if im_status row \<noteq> Pending \<and> im_status row \<noteq> Processing then return_io ()
           else then_io (incrementGauge ''active_imports'')
             (if im_cancelRequested row
              then then_io (pd_markCancelled deps importId) (finish ''cancelled'')
              else bind_io (pd_getUploadedFile deps importId) (\<lambda>uploadedFile.
                case uploadedFile of
                  None \<Rightarrow> then_io (pd_markFailed deps importId ''Uploaded file metadata missing'') (finish ''failed'')
                | Some f \<Rightarrow> process_file tp deps importId row f)))"

section \<open>Invariants the worker keeps\<close>

lemma keeps_bind_result:
  assumes "keeps I m" "\<And>w x w'. I w \<Longrightarrow> m w = (Inr x, w') \<Longrightarrow> Q x" "\<And>x. Q x \<Longrightarrow> keeps I (k x)"
  shows "keeps I (bind_io m k)"
proof (rule keepsI)
  fix w assume I: "I w"
  show "I (snd (bind_io m k w))"
  proof (cases "m w" rule: prod.exhaust)
    case (Pair res w1)
    with assms(1) I have I1: "I w1" by (blast dest: keepsD')
    show ?thesis
    proof (cases res)
      case (Inl e)
      with Pair I1 show ?thesis by simp
    next
      case (Inr x)
      with assms(2) [OF I] Pair have "Q x" by simp
      with assms(3) I1 have "I (snd (k x w1))" by (blast dest: keepsD)
      with Pair Inr show ?thesis by simp
    qed
  qed
qed

context environment
begin

lemma keeps_update_now:
  assumes "\<And>d obs now r d'. P d obs \<Longrightarrow> update_import i (f now) d = Inr (r, d') \<Longrightarrow> P d' obs"
  shows "keeps holds (update_now tp i f)"
  unfolding update_now_def by (intro keeps_intros keeps_db_call) (rule assms)

lemma keeps_finish: "keeps holds (finish outcome)"
  unfolding finish_def by (intro keeps_intros keeps_world)

lemma keeps_count_batch: "keeps holds (count_batch n m result)"
  unfolding count_batch_def by (intro keeps_intros keeps_world)

end

text \<open>An assertion on the database that status updates of the import and its batches keep, the
  batches counting their entries.\<close>

locale worker = environment +
  fixes i :: jsstring
  assumes update: "P d obs \<Longrightarrow> identity_kept f \<Longrightarrow> status_only f \<Longrightarrow> update_import i f d = Inr (r, d') \<Longrightarrow> P d' obs"
    and commit: "P d obs \<Longrightarrow> batch_ok input \<Longrightarrow> commit_batch_tx tp now i input d = Inr (res, d') \<Longrightarrow> P d' obs"
begin

lemma status_only_marks:
  "status_only (processing_at now)" "status_only (completed_at now)" "status_only (failed_at now reason)"
  "status_only (cancelled_at now)"
  by (simp_all add: status_only_def processing_at_def completed_at_def failed_at_def cancelled_at_def)

lemma keeps_marks:
  "keeps holds (markProcessing tp i)" "keeps holds (markCompleted tp i)"
  "keeps holds (markFailed tp i reason)" "keeps holds (markCancelled tp i)"
  unfolding markProcessing_def markCompleted_def markFailed_def markCancelled_def
  by (intro keeps_intros keeps_update_now;
      erule update, simp_all add: status_only_marks)+

lemma keeps_commitBatch: "batch_ok input \<Longrightarrow> keeps holds (commitBatch tp cfg i input)"
  unfolding commitBatch_def commitBatchOnce_def
  by (intro backoff.keeps_execute idle_holds keeps_db_call) (rule commit)

lemma keeps_queries: "keeps holds (findById tp i)" "keeps holds (getUploadedFile tp i)"
  unfolding findById_def getUploadedFile_def by (rule keeps_db_query)+

lemma keeps_validate: "keeps holds (validateAndScoreBatch tp (piscina_scoreBatch tp) batch p)"
  unfolding validateAndScoreBatch_def by (intro keeps_intros keeps_world)

lemma keeps_after_batch: "keeps holds (after_batch (buildImportProcessor tp cfg) i)"
  unfolding after_batch_def buildImportProcessor_simps
  by (intro keeps_intros keeps_world keeps_queries keeps_marks keeps_finish)

lemma keeps_flush: "keeps holds (flush tp (buildImportProcessor tp cfg) i p batch)"
  unfolding flush_def buildImportProcessor_simps
proof (intro keeps_if keeps_return keeps_bind_result [where Q = "\<lambda>(acc, rej, n). n = length acc + length rej"])
  show "keeps holds (validateAndScoreBatch tp (piscina_scoreBatch tp) batch p)" by (rule keeps_validate)
  show "case x of (acc, rej, n) \<Rightarrow> n = length acc + length rej"
    if "validateAndScoreBatch tp (piscina_scoreBatch tp) batch p w = (Inr x, w')" for w x w'
    using that by (cases x) (auto elim: piscina.batch_result)
  show "keeps holds (case x of (accepted, rejected, processedCount) \<Rightarrow>
      bind_io (commitBatch tp cfg i (commit_input_of accepted rejected processedCount (last batch))) (\<lambda>result.
        then_io (count_batch processedCount (length rejected) result)
          (after_batch (buildImportProcessor tp cfg) i)))"
    if "case x of (acc, rej, n) \<Rightarrow> n = length acc + length rej" for x
    using that
    by (cases x) (auto intro!: keeps_intros keeps_commitBatch keeps_count_batch keeps_after_batch
        simp: batch_ok_def commit_input_of_def)
qed

lemma keeps_run_lines: "keeps holds (run_lines tp (buildImportProcessor tp cfg) i p batch ls)"
  by (induction ls arbitrary: batch) (auto intro!: keeps_intros keeps_flush simp del: buildImportProcessor_simps)

lemma keeps_consume: "keeps holds (consume tp (buildImportProcessor tp cfg) i row stream)"
  unfolding consume_def buildImportProcessor_simps
  by (intro keeps_intros keeps_run_lines keeps_flush keeps_marks keeps_finish)

lemma keeps_run: "keeps holds (process tp (buildImportProcessor tp cfg) i)"
  unfolding process_def process_file_def buildImportProcessor_simps
  by (intro keeps_intros keeps_world keeps_queries keeps_marks keeps_finish keeps_consume)

end

interpretation accounting: worker tp consistent_action "\<lambda>d obs. db_consistent tp d" i for tp i
  by unfold_locales (auto simp: db_consistent_def intro: db_ok_update db_ok_commit)

interpretation persistence: worker tp "\<lambda>_. True" "\<lambda>d obs. grows d0 d" i for tp d0 i
  by unfold_locales (blast intro: grows_trans grows_update grows_commit)+

section \<open>Properties\<close>

text \<open>C9. The accounting invariant of the database (unique keys, references, and for each import
  processed = accepted + rejected + duplicates with the counters equal to the numbers of
  stored rows) holds after every run of the worker, whatever fails, is retried, loses its
  acknowledgement, or happens in between.\<close>

theorem process_keeps_accounting:
  assumes "inj (tp_uuid tp)" "db_ok tp (w_db w)"
    and "list_all (\<lambda>t. list_all consistent_action (tk_actions t)) (w_schedule w)"
  shows "db_ok tp (w_db (snd (process tp (buildImportProcessor tp cfg) i w)))"
proof -
  have "consistent.holds tp w"
    using assms unfolding consistent.holds_def by (simp add: db_consistent_def)
  from keepsD [OF accounting.keeps_run this] assms(1) show ?thesis
    unfolding consistent.holds_def by (simp add: db_consistent_def)
qed

theorem process_keeps_accounting_witness:
  "db_ok no_third_party (w_db (snd (process no_third_party (buildImportProcessor no_third_party default_retry)
     (js ''0'') (created_world\<lparr>w_schedule := [quiet_tick\<lparr>tk_actions := [Cancel_Import (js ''0'')]\<rparr>]\<rparr>))))"
proof (rule process_keeps_accounting)
  show inj: "inj (tp_uuid no_third_party)" using no_third_party_ids by (simp add: ids_fit_def)
  have "create_import no_third_party 0 (js ''key'') (js ''p'') empty_db = Inr (created_row, w_db created_world)"
    by (simp add: create_import_def find_import_by_key_def empty_db_def one_import_db_def created_row_def
        one_import_row_def decimal_0 Let_def created_world_def)
  from db_ok_create_import [OF empty_db_ok this inj]
  show "db_ok no_third_party (w_db (created_world\<lparr>w_schedule :=
      [quiet_tick\<lparr>tk_actions := [Cancel_Import (js ''0'')]\<rparr>]\<rparr>))" by simp
qed simp

end
