(* ===== verification/Progress.thy ===== *)
theory Progress
  imports Processor
begin

text \<open>
  What a run of the worker has done with a file.  A \<open>job\<close> fixes the import, its provider and
  the bytes of its file; \<open>progress tp job k\<close> says that exactly the first \<open>k\<close> lines of the file
  are in the database: the checkpoint is after line \<open>k\<close>, the rejected rows of the import are
  the rejections of these lines, in order, every accepted transaction of these lines has its
  key stored, the rows of the import are accepted transactions of these lines, and the
  counters count them.  An import that is completed has all its lines.

  The assertion is kept by whatever the other requests and other workers do, except marking
  this import or committing batches of it; the main lemma, \<open>process_triple\<close>, shows that the
  worker moves it forward only, through every failure, retry, lost acknowledgement,
  cancellation and pause.
\<close>

section \<open>The file and its lines\<close>

record job =
  jb_import :: jsstring
  jb_provider :: jsstring
  jb_storageKey :: jsstring
  jb_bytes :: bytes

definition file_lines :: "bytes \<Rightarrow> parsed_line list" where
  "file_lines bs = reference_lines 0 0 (segments bs)"

text \<open>No line is above the limit of the line splitter.\<close>

definition short_lines :: "bytes \<Rightarrow> bool" where
  "short_lines bs \<longleftrightarrow> list_all (\<lambda>s. length s \<le> MAX_LINE_BYTES) (segments bs)"

definition offset_after :: "bytes \<Rightarrow> nat \<Rightarrow> int" where
  "offset_after bs k = (if k = 0 then 0 else pl_byteOffsetAfter (file_lines bs ! (k - 1)))"

lemma line_number: "short_lines bs \<Longrightarrow> k < length (file_lines bs) \<Longrightarrow> pl_lineNumber (file_lines bs ! k) = int k + 1"
  using tracks_nth [OF reference_tracks, of bs k 0 0] by (simp add: short_lines_def file_lines_def)

lemma short_prefix:
  assumes "list_all (\<lambda>s. length s \<le> n) (segments (b @ c))"
  shows "list_all (\<lambda>s. length s \<le> n) (segments b)"
proof -
  have "list_all (\<lambda>s. length s \<le> n) (butlast (segments b))"
    using assms by (subst (asm) segments_append) simp
  moreover have "length (last (segments b)) \<le> n" by (rule last_segment_le [OF assms])
  moreover have "segments b = butlast (segments b) @ [last (segments b)]" by simp
  ultimately show ?thesis by (metis list_all_append list.pred_inject)
qed

text \<open>The lines of a stream that delivers the file from the offset of line \<open>k\<close> on, up to
  where it breaks.\<close>

lemma resumed_lines:
  assumes "short_lines bs" "k \<le> length (file_lines bs)"
  shows "reference_lines (offset_after bs k) (int k) (segments (drop (nat (offset_after bs k)) bs)) =
      drop k (file_lines bs) \<and> short_lines (drop (nat (offset_after bs k)) bs)"
proof (cases k)
  case 0
  with assms show ?thesis by (simp add: offset_after_def file_lines_def)
next
  case (Suc j)
  with assms reference_resume [of j 0 0 bs "offset_after bs k"] show ?thesis
    by (simp add: offset_after_def file_lines_def short_lines_def add.commute)
qed

lemma parse_broken:
  assumes "list_all (\<lambda>s. length s \<le> MAX_LINE_BYTES) (segments (concat chunks @ rest))"
  obtains tail where "reference_lines off n (segments (concat chunks @ rest)) =
    fst (parseNdjsonLines (chunks, True) off n) @ tail"
proof -
  let ?r = "start_reader off n"
  obtain ls r where d: "drain \<lparr>rd_buffer = concat chunks, rd_byteOffset = off, rd_lineNumber = n\<rparr> = (ls, r)"
    by (metis surj_pair)
  obtain ls' r' where d': "drain (r\<lparr>rd_buffer := rd_buffer r @ rest\<rparr>) = (ls', r')" by (metis surj_pair)
  have "feed_all ?r chunks = drain (?r\<lparr>rd_buffer := rd_buffer ?r @ concat chunks\<rparr>)"
    using short_prefix [OF assms] by (intro feed_all_drain) (simp_all add: start_reader_def)
  then have "feed_all ?r chunks = (ls, r)" using d by (simp add: start_reader_def)
  then have p: "fst (parseNdjsonLines (chunks, True) off n) = ls" by (simp add: parseNdjsonLines_def)
  have "drain \<lparr>rd_buffer = concat chunks @ rest, rd_byteOffset = off, rd_lineNumber = n\<rparr> = (ls @ ls', r')"
    using drain_append [of "concat chunks" rest off n] d d' by simp
  from drain_final_reference [OF assms this] p that [of "ls' @ final_line r'"] show thesis by simp
qed

lemma concat_delivered: "concat (fst (delivered t bs)) @ drop (length (concat (fst (delivered t bs)))) bs = bs"
  by (auto simp: delivered_def min_def split: option.split)

lemma delivered_lines:
  assumes "short_lines bs" "k \<le> length (file_lines bs)"
    and "parseNdjsonLines (delivered t (drop (nat (offset_after bs k)) bs)) (offset_after bs k) (int k) = (ls, broken)"
  obtains n where "k \<le> n" "n \<le> length (file_lines bs)" "ls = drop k (take n (file_lines bs))"
    "\<not> broken \<Longrightarrow> n = length (file_lines bs)"
proof -
  let ?L = "file_lines bs" and ?bs = "drop (nat (offset_after bs k)) bs"
  note r = resumed_lines [OF assms(1,2)]
  obtain chunks breaks where c: "delivered t ?bs = (chunks, breaks)" by (metis surj_pair)
  let ?rest = "drop (length (concat chunks)) ?bs"
  have rest: "concat chunks @ ?rest = ?bs" using concat_delivered [of t ?bs] c by simp
  show thesis
  proof (cases breaks)
    case False
    then have "concat chunks = ?bs" using c by (auto simp: delivered_def split: option.splits)
    then have "parseNdjsonLines (chunks, False) (offset_after bs k) (int k) = (drop k ?L, False)"
      using parse_reference [of chunks "offset_after bs k" "int k"] r by (simp add: short_lines_def)
    with assms(2,3) c False that [of "length ?L"] show thesis by simp
  next
    case True
    from parse_broken [of chunks ?rest "offset_after bs k" "int k"] r rest obtain tail where
      "drop k ?L = fst (parseNdjsonLines (chunks, True) (offset_after bs k) (int k)) @ tail"
      by (auto simp: short_lines_def)
    then have tail: "drop k ?L = ls @ tail" using assms(3) c True by simp
    then have len: "length ls \<le> length ?L - k" by (metis length_append length_drop le_add1)
    have "broken" using assms(3) c True by (simp add: parseNdjsonLines_def split: prod.splits)
    moreover have "drop k (take (k + length ls) ?L) = ls"
      using tail by (simp add: drop_take)
    ultimately show thesis using that [of "k + length ls"] assms(2) len by simp
  qed
qed

section \<open>Rows and what they record\<close>

definition stored_as :: "third_party \<Rightarrow> accepted_input \<Rightarrow> transaction_row \<Rightarrow> bool" where
  "stored_as tp a row \<longleftrightarrow>
     tr_providerId row = ai_providerId a \<and> tr_transactionId row = ai_transactionId a \<and>
     tr_accountId row = ai_accountId a \<and> tr_merchantId row = ai_merchantId a \<and>
     tp_decimal tp (ai_amount a) = Inr (tr_amount row) \<and> tr_currency row = ai_currency a \<and>
     ai_timestamp a = Some (tr_timestamp row) \<and> tr_description row = ai_description a \<and>
     tr_fingerprint row = ai_fingerprint a \<and> tr_riskScore row = ai_riskScore a \<and>
     tr_riskLevel row = ai_riskLevel a"

definition rejected_as :: "third_party \<Rightarrow> rejected_input \<Rightarrow> rejected_row \<Rightarrow> bool" where
  "rejected_as tp r row \<longleftrightarrow>
     rr_lineNumber row = rj_lineNumber r \<and> rr_reasonCode row = rj_reasonCode r \<and>
     rr_message row = rj_message r \<and> tp_jsonb tp (rj_rawValue r) = Inr (rr_rawValue row)"

lemma transaction_rows_stored:
  "transaction_rows tp now i k ts = Inr rs \<Longrightarrow> list_all2 (stored_as tp) ts rs"
proof (induction ts arbitrary: k rs)
  case (Cons t ts)
  then obtain r rest where r: "transaction_row_of tp now i k t = Inr r"
    "transaction_rows tp now i (k + 1) ts = Inr rest" "rs = r # rest"
    by (auto split: sum.splits)
  have "stored_as tp t r"
    using r(1) by (auto simp: transaction_row_of_def stored_as_def split: option.splits sum.splits)
  with Cons.IH [OF r(2)] r(3) show ?case by simp
qed simp

lemma rejected_rows_rejected:
  "rejected_rows tp now i k rs = Inr rows \<Longrightarrow> list_all2 (rejected_as tp) rs rows"
  by (induction rs arbitrary: k rows) (auto simp: rejected_as_def split: sum.splits)

text \<open>What the database records of a list of lines.\<close>

definition recorded :: "third_party \<Rightarrow> job \<Rightarrow> parsed_line list \<Rightarrow> import_row \<Rightarrow> db \<Rightarrow> bool" where
  "recorded tp job ls r d \<longleftrightarrow>
     (\<exists>cs. classify_all tp ls = Inr cs \<and>
        list_all2 (rejected_as tp) (rejections_of cs) (rejected_of_import (jb_import job) d) \<and>
        (\<lambda>t. (jb_provider job, t_transactionId t)) ` set (transactions_of cs) \<subseteq>
          transaction_key ` set (db_transactions d) \<and>
        list_all (\<lambda>row. \<exists>t\<in>set (transactions_of cs). stored_as tp (scored tp (jb_provider job) t) row)
          (transactions_of_import (jb_import job) d) \<and>
        im_rejectedCount r = int (length (rejections_of cs)) \<and>
        im_acceptedCount r + im_duplicateCount r = int (length (transactions_of cs)) \<and>
        im_processedCount r = int (length (transactions_of cs) + length (rejections_of cs)))"

definition progress :: "third_party \<Rightarrow> job \<Rightarrow> nat \<Rightarrow> db \<Rightarrow> (jsstring \<times> bytes) list \<Rightarrow> bool" where
  "progress tp job k d obs \<longleftrightarrow>
     (\<exists>r f. find_import (jb_import job) d = Some r \<and> im_providerId r = jb_provider job \<and>
        find_file (jb_import job) d = Some f \<and> uf_storageKey f = jb_storageKey job \<and>
        map_of obs (jb_storageKey job) = Some (jb_bytes job) \<and>
        k \<le> length (file_lines (jb_bytes job)) \<and>
        im_checkpointLineNumber r = int k \<and> im_checkpointOffset r = offset_after (jb_bytes job) k \<and>
        (im_status r = Completed \<longrightarrow> k = length (file_lines (jb_bytes job))) \<and>
        recorded tp job (take k (file_lines (jb_bytes job))) r d)"

lemma progressE:
  assumes "progress tp job k d obs"
  obtains r f where "find_import (jb_import job) d = Some r" "im_providerId r = jb_provider job"
    "find_file (jb_import job) d = Some f" "uf_storageKey f = jb_storageKey job \<and> map_of obs (jb_storageKey job) = Some (jb_bytes job)"
    "k \<le> length (file_lines (jb_bytes job))" "im_checkpointLineNumber r = int k"
    "im_checkpointOffset r = offset_after (jb_bytes job) k"
    "im_status r = Completed \<longrightarrow> k = length (file_lines (jb_bytes job))"
    "recorded tp job (take k (file_lines (jb_bytes job))) r d"
  using assms unfolding progress_def by blast

section \<open>Stability\<close>

text \<open>An update that moves neither counters nor checkpoint.\<close>

definition progress_kept :: "(import_row \<Rightarrow> import_row) \<Rightarrow> bool" where
  "progress_kept f \<longleftrightarrow> identity_kept f \<and> status_only f \<and>
     (\<forall>r. im_checkpointLineNumber (f r) = im_checkpointLineNumber r \<and>
          im_checkpointOffset (f r) = im_checkpointOffset r)"

lemma progress_kept_updates [simp]:
  "progress_kept cancelling" "progress_kept (processing_at now)" "progress_kept (completed_at now)"
  "progress_kept (failed_at now reason)" "progress_kept (cancelled_at now)"
  by (simp_all add: progress_kept_def status_only_def cancelling_def processing_at_def completed_at_def
      failed_at_def cancelled_at_def identity_kept_def)

lemma recorded_cong:
  assumes "recorded tp job ls r d"
    and "im_rejectedCount r' = im_rejectedCount r" "im_acceptedCount r' = im_acceptedCount r"
    "im_duplicateCount r' = im_duplicateCount r" "im_processedCount r' = im_processedCount r"
    and "rejected_of_import (jb_import job) d' = rejected_of_import (jb_import job) d"
    "transactions_of_import (jb_import job) d' = transactions_of_import (jb_import job) d"
    "set (db_transactions d) \<subseteq> set (db_transactions d')"
  shows "recorded tp job ls r' d'"
proof -
  have "transaction_key ` set (db_transactions d) \<subseteq> transaction_key ` set (db_transactions d')"
    using assms(8) by blast
  then show ?thesis using assms unfolding recorded_def by (elim exE conjE) (intro exI conjI, assumption, auto)
qed

lemma progress_update:
  assumes "progress tp job k d obs" "update_import (jb_import job) f d = Inr (r', d')" "progress_kept f"
    and "\<And>r. im_status (f r) = Completed \<Longrightarrow> k = length (file_lines (jb_bytes job))"
  shows "progress tp job k d' obs"
  using assms(1)
proof (rule progressE)
  fix r g
  assume r: "find_import (jb_import job) d = Some r" "im_providerId r = jb_provider job"
    "find_file (jb_import job) d = Some g" "uf_storageKey g = jb_storageKey job \<and> map_of obs (jb_storageKey job) = Some (jb_bytes job)"
    "k \<le> length (file_lines (jb_bytes job))" "im_checkpointLineNumber r = int k"
    "im_checkpointOffset r = offset_after (jb_bytes job) k"
    "recorded tp job (take k (file_lines (jb_bytes job))) r d"
  have f: "im_id (f x) = im_id x" for x using assms(3) by (simp add: progress_kept_def identity_kept_def)
  have r': "r' = f r" using assms(2) r(1) by (auto elim: update_import_InrE)
  note same = update_import_same [OF assms(2)]
  have "find_import (jb_import job) d' = Some r'" using find_import_update [OF assms(2) f] by simp
  moreover have "find_file (jb_import job) d' = Some g" using same r(3) by (simp add: find_file_def)
  moreover have "recorded tp job (take k (file_lines (jb_bytes job))) r' d'"
    using assms(3) same
    by (intro recorded_cong [OF r(8)])
      (simp_all add: r' progress_kept_def status_only_def rejected_of_import_def transactions_of_import_def)
  ultimately show ?thesis
    using r(2,4-7) assms(3,4) unfolding progress_def
    by (intro exI [of _ r'] exI [of _ g]) (simp add: r' progress_kept_def identity_kept_def)
qed

text \<open>Others may do anything but mark the import, or commit batches of it.\<close>

definition leaves :: "jsstring \<Rightarrow> env_action \<Rightarrow> bool" where
  "leaves i a \<longleftrightarrow> \<not> touches i a \<or> a = Cancel_Import i"

lemma other_rows:
  assumes "\<not> touches i a"
  shows "rejected_of_import i (action_db tp now a d) = rejected_of_import i d \<and>
    transactions_of_import i (action_db tp now a d) = transactions_of_import i d \<and>
    set (db_transactions d) \<subseteq> set (db_transactions (action_db tp now a d))"
proof (cases a)
  case (Commit_Batch j input)
  show ?thesis
  proof (cases "commit_batch_tx tp now j input d")
    case (Inr p)
    then obtain res d' where c: "commit_batch_tx tp now j input d = Inr (res, d')" by (cases p) auto
    have ji: "i \<noteq> j" using assms Commit_Batch by auto
    have "rejected_of_import i d' = rejected_of_import i d \<and> transactions_of_import i d' = transactions_of_import i d \<and>
        set (db_transactions d) \<subseteq> set (db_transactions d')"
      using c
    proof (cases rule: commit_batch_txE)
      case (committed cur rs rows)
      obtain table n where s: "insert_skip (db_transactions d) rs = (table, n)" by (metis surj_pair)
      have "list_all (\<lambda>r. tr_importId r = j) (inserted (db_transactions d) rs)"
        using insert_skip_spec [OF s] transaction_rows_import [OF committed(3)] by (auto simp: list_all_iff)
      then show ?thesis
        using filter_import_rows [of tr_importId j _ i] filter_import_rows [of rr_importId j rows i]
          rejected_rows_import [OF committed(4)] ji
        by (simp add: rejected_of_import_def transactions_of_import_def committed(6,7))
    qed simp
    then show ?thesis using c Commit_Batch by (simp add: run_tx_def)
  qed (simp add: Commit_Batch run_tx_def)
next
  case (Create_Import k p)
  then show ?thesis
    by (auto simp: run_tx_def create_import_def Let_def rejected_of_import_def transactions_of_import_def
        split: sum.splits)
next
  case (Attach_File f)
  then show ?thesis
    by (auto simp: run_tx_def create_file_def rejected_of_import_def transactions_of_import_def
        split: sum.splits)
qed (auto simp: run_tx_def rejected_of_import_def transactions_of_import_def dest!: update_import_same
    split: sum.splits)

lemma progress_action:
  assumes "leaves (jb_import job) a" "progress tp job k d obs"
  shows "progress tp job k (action_db tp now a d) obs"
proof (cases "touches (jb_import job) a")
  case False
  note o = other_rows [OF False, of tp now d]
  from assms(2) show ?thesis
  proof (rule progressE)
    fix r f
    assume r: "find_import (jb_import job) d = Some r" "im_providerId r = jb_provider job"
      "find_file (jb_import job) d = Some f" "uf_storageKey f = jb_storageKey job \<and> map_of obs (jb_storageKey job) = Some (jb_bytes job)"
      "k \<le> length (file_lines (jb_bytes job))" "im_checkpointLineNumber r = int k"
      "im_checkpointOffset r = offset_after (jb_bytes job) k"
      "im_status r = Completed \<longrightarrow> k = length (file_lines (jb_bytes job))"
      "recorded tp job (take k (file_lines (jb_bytes job))) r d"
    have "recorded tp job (take k (file_lines (jb_bytes job))) r (action_db tp now a d)"
      using o by (intro recorded_cong [OF r(9)]) simp_all
    then show ?thesis
      unfolding progress_def
      using r action_other [OF False r(1)] grows_fileD [OF grows_action r(3)] by blast
  qed
next
  case True
  with assms(1) have a: "a = Cancel_Import (jb_import job)" by (simp add: leaves_def)
  show ?thesis
  proof (cases "update_import (jb_import job) cancelling d")
    case (Inr p)
    then obtain r d' where u: "update_import (jb_import job) cancelling d = Inr (r, d')" by (cases p) auto
    have "progress tp job k d' obs"
      by (rule progress_update [OF assms(2) u], rule progress_kept_updates, simp add: cancelling_def)
    then show ?thesis using u by (simp add: a run_tx_def)
  qed (use assms(2) in \<open>simp add: a run_tx_def\<close>)
qed

interpretation prog: environment tp "leaves (jb_import job)" "progress tp job k" for tp job k
  by unfold_locales (rule progress_action)

section \<open>One batch\<close>

lemma list_all2_member: "list_all2 P xs ys \<Longrightarrow> y \<in> set ys \<Longrightarrow> \<exists>x\<in>set xs. P x y"
  by (induction xs ys rule: list_all2_induct) auto

text \<open>The input the worker commits for some lines.\<close>

definition batch_input :: "third_party \<Rightarrow> job \<Rightarrow> line_class list \<Rightarrow> parsed_line \<Rightarrow> commit_input" where
  "batch_input tp job cs l =
     commit_input_of (map (scored tp (jb_provider job)) (transactions_of cs)) (rejections_of cs)
       (length (transactions_of cs) + length (rejections_of cs)) l"

lemma batch_input_simps [simp]:
  "ci_acceptedTransactions (batch_input tp job cs l) = map (scored tp (jb_provider job)) (transactions_of cs)"
  "ci_rejectedRecords (batch_input tp job cs l) = rejections_of cs"
  "ci_processedDelta (batch_input tp job cs l) = length (transactions_of cs) + length (rejections_of cs)"
  "ci_checkpointOffset (batch_input tp job cs l) = pl_byteOffsetAfter l"
  "ci_checkpointLineNumber (batch_input tp job cs l) = pl_lineNumber l"
  by (simp_all add: batch_input_def commit_input_of_def)

text \<open>What a batch adds for its import, when it was not committed before.\<close>

lemma committed_rows:
  assumes "commit_batch_tx tp now i input d = Inr (res, d')"
    and "find_import i d = Some r" "im_checkpointLineNumber r < ci_checkpointLineNumber input"
  obtains new rows where
    "transactions_of_import i d' = transactions_of_import i d @ new"
    "rejected_of_import i d' = rejected_of_import i d @ rows"
    "list_all2 (rejected_as tp) (ci_rejectedRecords input) rows"
    "list_all (\<lambda>x. \<exists>a\<in>set (ci_acceptedTransactions input). stored_as tp a x) new"
    "transaction_key ` set (db_transactions d') = transaction_key ` set (db_transactions d) \<union>
       (\<lambda>a. (ai_providerId a, ai_transactionId a)) ` set (ci_acceptedTransactions input)"
    "find_import i d' = Some (advance_import input (int (length new)) r)"
    "db_files d' = db_files d"
  using assms(1)
proof (cases rule: commit_batch_txE)
  case (repeated cur)
  with assms(2,3) show thesis by simp
next
  case (committed cur rs rows)
  let ?new = "inserted (db_transactions d) rs"
  let ?f = "advance_import input (int (length ?new))"
  obtain table m where s: "insert_skip (db_transactions d) rs = (table, m)" by (metis surj_pair)
  note spec = insert_skip_spec [OF s]
  have new_i: "list_all (\<lambda>r. tr_importId r = i) ?new"
    using spec transaction_rows_import [OF committed(3)] by (auto simp: list_all_iff)
  have "transactions_of_import i d' = transactions_of_import i d @ ?new"
    using filter_import_rows [OF new_i, of i] by (simp add: transactions_of_import_def committed(6))
  moreover have "rejected_of_import i d' = rejected_of_import i d @ rows"
    using filter_import_rows [of rr_importId i rows i] rejected_rows_import [OF committed(4)]
    by (simp add: rejected_of_import_def committed(7))
  moreover have "list_all (\<lambda>x. \<exists>a\<in>set (ci_acceptedTransactions input). stored_as tp a x) ?new"
    unfolding list_all_iff
    using spec by (blast intro: list_all2_member [OF transaction_rows_stored [OF committed(3)]])
  moreover have "transaction_key ` set (db_transactions d') = transaction_key ` set (db_transactions d) \<union>
       (\<lambda>a. (ai_providerId a, ai_transactionId a)) ` set (ci_acceptedTransactions input)"
  proof -
    have "transaction_key ` set rs =
        (\<lambda>a. (ai_providerId a, ai_transactionId a)) ` set (ci_acceptedTransactions input)"
      using arg_cong [OF transaction_rows_keys [OF committed(3)], of set] by (simp only: set_map)
    moreover have "db_transactions d' = table" using spec committed(6) by simp
    ultimately show ?thesis using spec by metis
  qed
  moreover have "find_import i d' = Some (?f r)"
  proof -
    have "find_import i d' = map_option (\<lambda>x. if im_id x = i then ?f x else x) (find_import i d)"
      unfolding find_import_def committed(9) by (rule find_map_id) (simp add: advance_import_def)
    then show ?thesis using assms(2) find_import_SomeD [OF assms(2)] by simp
  qed
  ultimately show thesis
    using that rejected_rows_rejected [OF committed(4)] committed(8) by blast
qed

lemma recorded_commit:
  assumes "recorded tp job ls r d" "classify_all tp batch = Inr cs"
    and "commit_batch_tx tp now (jb_import job) (batch_input tp job cs l) d = Inr (res, d')"
    and "find_import (jb_import job) d = Some r" "im_checkpointLineNumber r < pl_lineNumber l"
  obtains n where
    "find_import (jb_import job) d' = Some (advance_import (batch_input tp job cs l) n r)"
    "recorded tp job (ls @ batch) (advance_import (batch_input tp job cs l) n r) d'"
    "db_files d' = db_files d"
proof -
  let ?i = "jb_import job" and ?p = "jb_provider job" and ?in = "batch_input tp job cs l"
  have less: "im_checkpointLineNumber r < ci_checkpointLineNumber ?in" using assms(5) by simp
  obtain new rows where n:
    "transactions_of_import ?i d' = transactions_of_import ?i d @ new"
    "rejected_of_import ?i d' = rejected_of_import ?i d @ rows"
    "list_all2 (rejected_as tp) (rejections_of cs) rows"
    "list_all (\<lambda>x. \<exists>a\<in>set (map (scored tp ?p) (transactions_of cs)). stored_as tp a x) new"
    "transaction_key ` set (db_transactions d') = transaction_key ` set (db_transactions d) \<union>
       (\<lambda>a. (ai_providerId a, ai_transactionId a)) ` set (map (scored tp ?p) (transactions_of cs))"
    "find_import ?i d' = Some (advance_import ?in (int (length new)) r)"
    "db_files d' = db_files d"
    by (rule committed_rows [OF assms(3,4) less, unfolded batch_input_simps])
  let ?r' = "advance_import ?in (int (length new)) r"
  from assms(1) obtain ds where ds: "classify_all tp ls = Inr ds"
    "list_all2 (rejected_as tp) (rejections_of ds) (rejected_of_import ?i d)"
    "(\<lambda>t. (?p, t_transactionId t)) ` set (transactions_of ds) \<subseteq> transaction_key ` set (db_transactions d)"
    "list_all (\<lambda>row. \<exists>t\<in>set (transactions_of ds). stored_as tp (scored tp ?p t) row) (transactions_of_import ?i d)"
    "im_rejectedCount r = int (length (rejections_of ds))"
    "im_acceptedCount r + im_duplicateCount r = int (length (transactions_of ds))"
    "im_processedCount r = int (length (transactions_of ds) + length (rejections_of ds))"
    unfolding recorded_def by blast
  have "recorded tp job (ls @ batch) ?r' d'"
    unfolding recorded_def
  proof (intro exI [of _ "ds @ cs"] conjI)
    show "classify_all tp (ls @ batch) = Inr (ds @ cs)" by (simp add: classify_all_append ds(1) assms(2))
    show "list_all2 (rejected_as tp) (rejections_of (ds @ cs)) (rejected_of_import ?i d')"
      using ds(2) n(3) by (simp add: n(2) list_all2_appendI)
    show "list_all (\<lambda>row. \<exists>t\<in>set (transactions_of (ds @ cs)). stored_as tp (scored tp ?p t) row)
        (transactions_of_import ?i d')"
      using ds(4) n(4) by (auto simp: n(1) list_all_iff)
    show "(\<lambda>t. (?p, t_transactionId t)) ` set (transactions_of (ds @ cs)) \<subseteq>
        transaction_key ` set (db_transactions d')"
      using ds(3) unfolding n(5) by (auto simp: image_image scored_by_def accepted_of_def)
  qed (use ds(5-7) in \<open>simp_all add: advance_import_def\<close>)
  from that [OF n(6) this n(7)] show thesis .
qed

text \<open>A batch of the lines after the checkpoint: the next \<open>b\<close> lines.\<close>

definition next_batch :: "third_party \<Rightarrow> job \<Rightarrow> nat \<Rightarrow> nat \<Rightarrow> line_class list \<Rightarrow> bool" where
  "next_batch tp job k b cs \<longleftrightarrow>
     short_lines (jb_bytes job) \<and> 1 \<le> b \<and> k + b \<le> length (file_lines (jb_bytes job)) \<and>
     classify_all tp (take b (drop k (file_lines (jb_bytes job)))) = Inr cs"

definition last_line :: "job \<Rightarrow> nat \<Rightarrow> nat \<Rightarrow> parsed_line" where
  "last_line job k b = file_lines (jb_bytes job) ! (k + b - 1)"

definition next_input :: "third_party \<Rightarrow> job \<Rightarrow> nat \<Rightarrow> nat \<Rightarrow> line_class list \<Rightarrow> commit_input" where
  "next_input tp job k b cs = batch_input tp job cs (last_line job k b)"

lemma last_of_batch:
  "1 \<le> b \<Longrightarrow> k + b \<le> length xs \<Longrightarrow> last (take b (drop k xs)) = xs ! (k + b - 1)"
proof -
  assume b: "1 \<le> b" "k + b \<le> length xs"
  then have "take b (drop k xs) \<noteq> []" by (cases b) (auto simp: drop_eq_Nil)
  moreover have "length (take b (drop k xs)) = b" using b by simp
  ultimately have "last (take b (drop k xs)) = take b (drop k xs) ! (b - 1)" by (simp add: last_conv_nth)
  also have "\<dots> = xs ! (k + (b - 1))" using b by simp
  also have "k + (b - 1) = k + b - 1" using b by simp
  finally show ?thesis .
qed

lemma last_line_number: "next_batch tp job k b cs \<Longrightarrow> pl_lineNumber (last_line job k b) = int (k + b)"
  using line_number [of "jb_bytes job" "k + b - 1"] by (auto simp: next_batch_def last_line_def)

lemma commit_progress:
  assumes "next_batch tp job k b cs" "progress tp job k d obs"
    and "commit_batch_tx tp now (jb_import job) (next_input tp job k b cs) d = Inr (res, d')"
  shows "progress tp job (k + b) d' obs"
  using assms(2)
proof (rule progressE)
  fix r f
  assume r: "find_import (jb_import job) d = Some r" "im_providerId r = jb_provider job"
    "find_file (jb_import job) d = Some f" "uf_storageKey f = jb_storageKey job \<and> map_of obs (jb_storageKey job) = Some (jb_bytes job)"
    "im_checkpointLineNumber r = int k"
    "im_status r = Completed \<longrightarrow> k = length (file_lines (jb_bytes job))"
    "recorded tp job (take k (file_lines (jb_bytes job))) r d"
  let ?in = "next_input tp job k b cs"
  from assms(1) have some: "1 \<le> b" "k + b \<le> length (file_lines (jb_bytes job))"
    and classes: "classify_all tp (take b (drop k (file_lines (jb_bytes job)))) = Inr cs"
    by (simp_all add: next_batch_def)
  note number = last_line_number [OF assms(1)]
  have "im_checkpointLineNumber r < pl_lineNumber (last_line job k b)" using r(5) number some by simp
  from recorded_commit [OF r(7) classes assms(3) [unfolded next_input_def] r(1) this] obtain n where
    n: "find_import (jb_import job) d' = Some (advance_import ?in n r)"
      "recorded tp job (take (k + b) (file_lines (jb_bytes job))) (advance_import ?in n r) d'"
      "db_files d' = db_files d"
    by (metis next_input_def take_add)
  have "im_checkpointOffset (advance_import ?in n r) = offset_after (jb_bytes job) (k + b)"
    using some by (simp add: advance_import_def next_input_def offset_after_def last_line_def)
  moreover have "im_checkpointLineNumber (advance_import ?in n r) = int (k + b)"
    using number by (simp add: advance_import_def next_input_def)
  moreover have "im_status (advance_import ?in n r) \<noteq> Completed"
    using r(6) some by (auto simp: advance_import_def)
  ultimately show ?thesis
    unfolding progress_def using r n some
    by (intro exI [of _ "advance_import ?in n r"] exI [of _ f])
      (simp add: find_file_def advance_import_def)
qed

lemma commit_again:
  assumes "next_batch tp job k b cs" "progress tp job (k + b) d obs"
    and "commit_batch_tx tp now (jb_import job) (next_input tp job k b cs) d = Inr (res, d')"
  shows "d' = d"
  using assms(2,3) last_line_number [OF assms(1)]
  by (auto elim!: progressE simp: commit_batch_tx_def next_input_def)

text \<open>Retries included: the batch is committed when the call returns; when it throws, it may
  or may not be.\<close>

definition either :: "third_party \<Rightarrow> job \<Rightarrow> nat \<Rightarrow> nat \<Rightarrow> world \<Rightarrow> bool" where
  "either tp job k b w \<longleftrightarrow> prog.holds job tp k w \<or> prog.holds job tp (k + b) w"

lemma keeps_either: "(\<And>k. keeps (prog.holds job tp k) m) \<Longrightarrow> keeps (either tp job k b) m"
  unfolding keeps_def either_def by blast

lemma idle_either: "idle tp (either tp job k b)"
  unfolding idle_def by (intro conjI allI keeps_either prog.keeps_sleep prog.keeps_process)

lemma commitBatchOnce_triple:
  assumes "next_batch tp job k b cs" "j = k \<or> j = k + b"
  shows "triple (prog.holds job tp j) (commitBatchOnce tp (jb_import job) (next_input tp job k b cs))
      (\<lambda>_ w. prog.holds job tp (k + b) w) (\<lambda>_. either tp job k b)"
proof -
  let ?tx = "\<lambda>now. commit_batch_tx tp now (jb_import job) (next_input tp job k b cs)"
  have step: "progress tp job (k + b) d' obs"
    if "progress tp job j d obs" "?tx now d = Inr (res, d')" for d obs now res d'
    using assms that commit_progress [OF assms(1)] commit_again [OF assms(1)] by blast
  show ?thesis
    unfolding commitBatchOnce_def db_call_def
  proof (rule prog.triple_call)
    fix t :: tick and w x w'
    assume "prog.holds job tp j w"
      and "(case ?tx (w_now w) (w_db w) of Inl e \<Rightarrow> (Inl e, w) | Inr (x, d) \<Rightarrow> (Inr x, w\<lparr>w_db := d\<rparr>)) =
        (Inr x, w')"
    then show "prog.holds job tp (k + b) w'"
      unfolding prog.holds_def using step by (auto split: sum.splits)
  next
    fix t :: tick and w
    assume "prog.holds job tp j w"
    then show "either tp job k b
        (snd (case ?tx (w_now w) (w_db w) of Inl e \<Rightarrow> (Inl e, w) | Inr (x, d) \<Rightarrow> (Inr x, w\<lparr>w_db := d\<rparr>)))"
      unfolding either_def prog.holds_def using step assms(2) by (auto split: sum.split)
  qed (use assms(2) in \<open>auto simp: either_def\<close>)
qed

lemma triple_or:
  "triple I m Q E \<Longrightarrow> triple J m Q E \<Longrightarrow> triple (\<lambda>w. I w \<or> J w) m Q E"
  by (simp add: triple_def)

lemma commitBatch_triple:
  assumes "next_batch tp job k b cs"
  shows "triple (either tp job k b) (commitBatch tp cfg (jb_import job) (next_input tp job k b cs))
     (\<lambda>_ w. prog.holds job tp (k + b) w) (\<lambda>_. either tp job k b)"
  unfolding commitBatch_def
proof (rule backoff.attempts [OF idle_either])
  show "triple (either tp job k b) (commitBatchOnce tp (jb_import job) (next_input tp job k b cs))
      (\<lambda>_ w. prog.holds job tp (k + b) w) (\<lambda>_. either tp job k b)"
    using triple_or [OF commitBatchOnce_triple [OF assms] commitBatchOnce_triple [OF assms], of k "k + b"]
    by (simp add: either_def [abs_def])
qed

section \<open>The worker moves forward\<close>

definition at_least :: "third_party \<Rightarrow> job \<Rightarrow> nat \<Rightarrow> world \<Rightarrow> bool" where
  "at_least tp job k w \<longleftrightarrow> (\<exists>n\<ge>k. prog.holds job tp n w)"

lemma at_least_holds: "prog.holds job tp n w \<Longrightarrow> k \<le> n \<Longrightarrow> at_least tp job k w"
  unfolding at_least_def by blast

lemma at_least_either: "either tp job k b w \<Longrightarrow> at_least tp job k w"
  unfolding either_def by (auto intro: at_least_holds)

lemma at_least_mono: "at_least tp job n w \<Longrightarrow> k \<le> n \<Longrightarrow> at_least tp job k w"
  unfolding at_least_def by (meson le_trans)

lemma keeps_at_least: "(\<And>n. keeps (prog.holds job tp n) m) \<Longrightarrow> keeps (at_least tp job k) m"
  unfolding keeps_def at_least_def by blast

lemma progress_mark:
  assumes "\<And>now. progress_kept (f now)"
    and "\<And>now r. im_status (f now r) = Completed \<Longrightarrow> n = length (file_lines (jb_bytes job))"
  shows "keeps (prog.holds job tp n) (update_now tp (jb_import job) f)"
  by (rule prog.keeps_update_now) (blast intro: progress_update assms)

lemma progress_marks:
  "keeps (prog.holds job tp n) (markProcessing tp (jb_import job))"
  "keeps (prog.holds job tp n) (markFailed tp (jb_import job) reason)"
  "keeps (prog.holds job tp n) (markCancelled tp (jb_import job))"
  unfolding markProcessing_def markFailed_def markCancelled_def
  by (intro keeps_intros progress_mark; simp add: processing_at_def failed_at_def cancelled_at_def
      progress_kept_updates [unfolded processing_at_def failed_at_def cancelled_at_def])+

lemma progress_completed:
  "n = length (file_lines (jb_bytes job)) \<Longrightarrow>
   keeps (prog.holds job tp n) (markCompleted tp (jb_import job))"
  unfolding markCompleted_def by (intro keeps_intros progress_mark) simp_all

lemma progress_after_batch:
  "keeps (prog.holds job tp n) (after_batch (buildImportProcessor tp cfg) (jb_import job))"
  unfolding after_batch_def buildImportProcessor_simps findById_def
  by (intro keeps_intros prog.keeps_world progress_marks prog.keeps_finish)

lemma validate_triple:
  "triple (prog.holds job tp k) (validateAndScoreBatch tp (piscina_scoreBatch tp) batch p)
     (\<lambda>x w. (\<exists>cs. classify_all tp batch = Inr cs \<and> x = (map (scored tp p) (transactions_of cs),
          rejections_of cs, length (transactions_of cs) + length (rejections_of cs))) \<and>
        prog.holds job tp k w) (\<lambda>_. prog.holds job tp k)"
proof (rule triple_result)
  show "keeps (prog.holds job tp k) (validateAndScoreBatch tp (piscina_scoreBatch tp) batch p)"
    unfolding validateAndScoreBatch_def by (intro keeps_intros prog.keeps_world)
  show "\<exists>cs. classify_all tp batch = Inr cs \<and> x = (map (scored tp p) (transactions_of cs),
          rejections_of cs, length (transactions_of cs) + length (rejections_of cs))"
    if "validateAndScoreBatch tp (piscina_scoreBatch tp) batch p w = (Inr x, w')" for w x w'
    using that by (cases x) (auto elim: piscina.batch_result)
qed

lemma commit_triple:
  assumes "next_batch tp job k b cs"
  shows "triple (prog.holds job tp k)
    (bind_io (commitBatch tp cfg (jb_import job) (next_input tp job k b cs)) (\<lambda>result.
       then_io (count_batch n m result) (after_batch (buildImportProcessor tp cfg) (jb_import job))))
    (\<lambda>_. prog.holds job tp (k + b)) (\<lambda>_. at_least tp job k)"
proof (rule triple_bind [where R = "\<lambda>_. prog.holds job tp (k + b)"])
  show "triple (prog.holds job tp k) (commitBatch tp cfg (jb_import job) (next_input tp job k b cs))
      (\<lambda>_. prog.holds job tp (k + b)) (\<lambda>_. at_least tp job k)"
    by (rule triple_weaken [OF commitBatch_triple [OF assms]])
      (auto simp: either_def intro: at_least_holds)
  fix result
  have "keeps (prog.holds job tp (k + b))
      (then_io (count_batch n m result) (after_batch (buildImportProcessor tp cfg) (jb_import job)))"
    by (intro keeps_intros prog.keeps_count_batch progress_after_batch)
  then show "triple (prog.holds job tp (k + b))
      (then_io (count_batch n m result) (after_batch (buildImportProcessor tp cfg) (jb_import job)))
      (\<lambda>_. prog.holds job tp (k + b)) (\<lambda>_. at_least tp job k)"
    unfolding triple_keeps [symmetric] by (rule triple_weaken) (auto intro: at_least_holds)
qed

lemma flush_triple:
  assumes "short_lines (jb_bytes job)" "k + b \<le> length (file_lines (jb_bytes job))"
    and batch: "batch = take b (drop k (file_lines (jb_bytes job)))"
  shows "triple (prog.holds job tp k)
    (flush tp (buildImportProcessor tp cfg) (jb_import job) (jb_provider job) batch)
    (\<lambda>_. prog.holds job tp (k + b)) (\<lambda>_. at_least tp job k)"
proof (cases "b = 0")
  case True
  then show ?thesis unfolding flush_def batch by (simp add: triple_return del: io_apply)
next
  case False
  let ?i = "jb_import job" and ?p = "jb_provider job"
  have ne: "batch \<noteq> []" "1 \<le> b" using False assms(2) unfolding batch by (auto simp: drop_eq_Nil)
  let ?rest = "\<lambda>(accepted, rejected, processedCount).
      bind_io (commitBatch tp cfg ?i (commit_input_of accepted rejected processedCount (last batch))) (\<lambda>result.
        then_io (count_batch processedCount (length rejected) result)
          (after_batch (buildImportProcessor tp cfg) ?i))"
  have "triple (prog.holds job tp k)
      (bind_io (validateAndScoreBatch tp (piscina_scoreBatch tp) batch ?p) ?rest)
      (\<lambda>_. prog.holds job tp (k + b)) (\<lambda>_. at_least tp job k)"
  proof (rule triple_bind [OF triple_weaken [OF validate_triple]], assumption, assumption)
    fix x
    let ?C = "\<lambda>cs. classify_all tp batch = Inr cs \<and> x = (map (scored tp ?p) (transactions_of cs),
          rejections_of cs, length (transactions_of cs) + length (rejections_of cs))"
    show "triple (\<lambda>w. (\<exists>cs. ?C cs) \<and> prog.holds job tp k w) (?rest x)
        (\<lambda>_. prog.holds job tp (k + b)) (\<lambda>_. at_least tp job k)"
    proof (cases "\<exists>cs. ?C cs")
      case True
      then obtain cs where cs: "?C cs" by blast
      have nb: "next_batch tp job k b cs" using assms ne(2) cs by (simp add: next_batch_def)
      have "?rest x = bind_io (commitBatch tp cfg ?i (next_input tp job k b cs)) (\<lambda>result.
          then_io (count_batch (length (transactions_of cs) + length (rejections_of cs)) (length (rejections_of cs)) result)
            (after_batch (buildImportProcessor tp cfg) ?i))"
        using cs last_of_batch [OF ne(2) assms(2)] batch
        by (simp add: next_input_def batch_input_def last_line_def)
      with commit_triple [OF nb] True show ?thesis by simp
    qed (unfold triple_def, blast)
  qed (auto intro: at_least_holds)
  then show ?thesis unfolding flush_def buildImportProcessor_simps using ne(1) by (simp only: if_False)
qed

text \<open>The loop, over the lines up to \<open>n\<close>: the batch so far and the lines to come are those after
  the checkpoint.\<close>

definition left_over :: "third_party \<Rightarrow> job \<Rightarrow> nat \<Rightarrow> nat \<Rightarrow> parsed_line list option \<Rightarrow> world \<Rightarrow> bool" where
  "left_over tp job k n res w \<longleftrightarrow>
     (case res of
        None \<Rightarrow> at_least tp job k w
      | Some batch \<Rightarrow> (\<exists>m. k \<le> m \<and> m \<le> n \<and> batch = drop m (take n (file_lines (jb_bytes job))) \<and>
          prog.holds job tp m w))"

lemma left_over_mono: "left_over tp job m n res w \<Longrightarrow> k \<le> m \<Longrightarrow> left_over tp job k n res w"
  unfolding left_over_def by (auto split: option.splits intro: at_least_mono le_trans)

lemma run_lines_triple:
  assumes "short_lines (jb_bytes job)" "n \<le> length (file_lines (jb_bytes job))" "k \<le> n"
    and "batch @ ls = drop k (take n (file_lines (jb_bytes job)))"
  shows "triple (prog.holds job tp k)
    (run_lines tp (buildImportProcessor tp cfg) (jb_import job) (jb_provider job) batch ls)
    (left_over tp job k n) (\<lambda>_. at_least tp job k)"
  using assms
proof (induction ls arbitrary: batch k)
  case Nil
  then show ?case by (simp only: run_lines.simps) (rule triple_return, auto simp: left_over_def)
next
  case (Cons l ls)
  let ?L = "file_lines (jb_bytes job)" and ?b = "length batch + 1"
  have "length (batch @ l # ls) = n - k" using Cons.prems(2,4) by simp
  then have kb: "k + ?b \<le> n" by simp
  have split: "(batch @ [l]) @ ls = drop k (take n ?L)" using Cons.prems(4) by simp
  have "take ?b ((batch @ [l]) @ ls) = batch @ [l]" by simp
  then have b: "batch @ [l] = take ?b (drop k ?L)" using kb unfolding split by (auto simp: drop_take min_def split: if_splits)
  have "drop ?b ((batch @ [l]) @ ls) = ls" by simp
  then have ls: "[] @ ls = drop (k + ?b) (take n ?L)" unfolding split by (simp add: add.commute)
  show ?case
  proof (simp only: run_lines.simps, rule triple_if)
    show "triple (prog.holds job tp k)
      (bind_io (flush tp (buildImportProcessor tp cfg) (jb_import job) (jb_provider job) (batch @ [l]))
        (\<lambda>continue. if continue
           then run_lines tp (buildImportProcessor tp cfg) (jb_import job) (jb_provider job) [] ls
           else return_io None))
      (left_over tp job k n) (\<lambda>_. at_least tp job k)"
    proof (rule triple_bind [where R = "\<lambda>_. prog.holds job tp (k + ?b)"])
      show "triple (prog.holds job tp k)
          (flush tp (buildImportProcessor tp cfg) (jb_import job) (jb_provider job) (batch @ [l]))
          (\<lambda>_. prog.holds job tp (k + ?b)) (\<lambda>_. at_least tp job k)"
        using Cons.prems(1,2) kb b by (intro flush_triple) simp_all
      fix continue
      show "triple (prog.holds job tp (k + ?b)) (if continue
           then run_lines tp (buildImportProcessor tp cfg) (jb_import job) (jb_provider job) [] ls
           else return_io None)
          (left_over tp job k n) (\<lambda>_. at_least tp job k)"
      proof (rule triple_if)
        show "triple (prog.holds job tp (k + ?b))
            (run_lines tp (buildImportProcessor tp cfg) (jb_import job) (jb_provider job) [] ls)
            (left_over tp job k n) (\<lambda>_. at_least tp job k)"
          by (rule triple_weaken [OF Cons.IH [OF Cons.prems(1,2) kb ls]])
            (auto intro: left_over_mono at_least_mono)
        show "triple (prog.holds job tp (k + ?b)) (return_io None) (left_over tp job k n) (\<lambda>_. at_least tp job k)"
          by (rule triple_return) (auto simp: left_over_def intro: at_least_holds)
      qed
    qed
    show "triple (prog.holds job tp k)
        (run_lines tp (buildImportProcessor tp cfg) (jb_import job) (jb_provider job) (batch @ [l]) ls)
        (left_over tp job k n) (\<lambda>_. at_least tp job k)"
      by (rule Cons.IH [OF Cons.prems(1-3) split])
  qed
qed

text \<open>A row as it was found at the checkpoint.\<close>

definition row_at :: "job \<Rightarrow> nat \<Rightarrow> import_row \<Rightarrow> bool" where
  "row_at job k row \<longleftrightarrow> im_providerId row = jb_provider job \<and> k \<le> length (file_lines (jb_bytes job)) \<and>
     im_checkpointLineNumber row = int k \<and> im_checkpointOffset row = offset_after (jb_bytes job) k"

lemma fail_at_least:
  "triple (at_least tp job k) (then_io (markFailed tp (jb_import job) reason) (finish outcome))
     (\<lambda>_. at_least tp job k) (\<lambda>_. at_least tp job k)"
  unfolding triple_keeps
  by (intro keeps_at_least keeps_intros progress_marks prog.keeps_finish)

lemma complete_triple:
  assumes "n = length (file_lines (jb_bytes job))" "k \<le> n"
  shows "triple (prog.holds job tp n)
    (if continue then then_io (markCompleted tp (jb_import job)) (finish outcome) else return_io ())
    (\<lambda>_. at_least tp job k) (\<lambda>_. at_least tp job k)"
proof -
  have "keeps (prog.holds job tp n)
      (if continue then then_io (markCompleted tp (jb_import job)) (finish outcome) else return_io ())"
    using assms(1) by (intro keeps_intros progress_completed prog.keeps_finish)
  then show ?thesis
    unfolding triple_keeps [symmetric] by (rule triple_weaken) (auto intro: at_least_holds assms(2))
qed

lemma triple_ex: "(\<And>m. triple (P m) c Q E) \<Longrightarrow> triple (\<lambda>w. \<exists>m. P m w) c Q E"
  by (rule tripleI) (blast dest: triple_InrD triple_InlD)+

lemma triple_pre: "(C \<Longrightarrow> triple P c Q E) \<Longrightarrow> triple (\<lambda>w. C \<and> P w) c Q E"
  by (auto simp: triple_def)

lemma last_batch_triple:
  assumes "short_lines (jb_bytes job)" "n = length (file_lines (jb_bytes job))" "k \<le> n"
    and "k \<le> m" "m \<le> n" "batch = drop m (take n (file_lines (jb_bytes job)))"
  shows "triple (prog.holds job tp m)
    (bind_io (flush tp (buildImportProcessor tp cfg) (jb_import job) (jb_provider job) batch) (\<lambda>continue.
       if continue then then_io (markCompleted tp (jb_import job)) (finish ''completed'') else return_io ()))
    (\<lambda>_. at_least tp job k) (\<lambda>_. at_least tp job k)"
proof (rule triple_bind [where R = "\<lambda>_. prog.holds job tp n"])
  have "triple (prog.holds job tp m)
      (flush tp (buildImportProcessor tp cfg) (jb_import job) (jb_provider job) batch)
      (\<lambda>_. prog.holds job tp (m + (n - m))) (\<lambda>_. at_least tp job m)"
    using assms by (intro flush_triple) simp_all
  then show "triple (prog.holds job tp m)
      (flush tp (buildImportProcessor tp cfg) (jb_import job) (jb_provider job) batch)
      (\<lambda>_. prog.holds job tp n) (\<lambda>_. at_least tp job k)"
    by (rule triple_weaken) (use assms in \<open>auto intro: at_least_mono\<close>)
qed (rule complete_triple [OF assms(2,3)])

lemma consume_triple:
  assumes "short_lines (jb_bytes job)" "row_at job k row"
    and "stream = delivered t (drop (nat (offset_after (jb_bytes job) k)) (jb_bytes job))"
  shows "triple (prog.holds job tp k) (consume tp (buildImportProcessor tp cfg) (jb_import job) row stream)
    (\<lambda>_. at_least tp job k) (\<lambda>_. at_least tp job k)"
proof -
  let ?L = "file_lines (jb_bytes job)" and ?deps = "buildImportProcessor tp cfg"
  from assms(2) have row: "im_providerId row = jb_provider job" "k \<le> length ?L"
    "im_checkpointLineNumber row = int k" "im_checkpointOffset row = offset_after (jb_bytes job) k"
    by (simp_all add: row_at_def)
  obtain ls broken where p: "parseNdjsonLines stream (offset_after (jb_bytes job) k) (int k) = (ls, broken)"
    by (metis surj_pair)
  from delivered_lines [OF assms(1) row(2) p [unfolded assms(3)]] obtain n where
    n: "k \<le> n" "n \<le> length ?L" "ls = drop k (take n ?L)" "\<not> broken \<longrightarrow> n = length ?L" by blast
  have batch: "[] @ ls = drop k (take n ?L)" using n(3) by simp
  show ?thesis
    unfolding consume_def row(1,3,4) p prod.case buildImportProcessor_simps
  proof (rule triple_catch [OF triple_bind [OF run_lines_triple [OF assms(1) n(2,1) batch]]])
    fix rest
    show "triple (left_over tp job k n rest)
      (case rest of None \<Rightarrow> return_io ()
       | Some batch \<Rightarrow>
           if broken then throw_io StreamError
           else bind_io (flush tp ?deps (jb_import job) (jb_provider job) batch) (\<lambda>continue.
             if continue then then_io (markCompleted tp (jb_import job)) (finish ''completed'') else return_io ()))
      (\<lambda>_. at_least tp job k) (\<lambda>_. at_least tp job k)"
    proof (rule triple_case_option)
      show "triple (left_over tp job k n rest) (return_io ()) (\<lambda>_. at_least tp job k) (\<lambda>_. at_least tp job k)"
        if "rest = None" by (rule triple_return) (simp add: that left_over_def)
      fix batch assume rest: "rest = Some batch"
      show "triple (left_over tp job k n rest) (if broken then throw_io StreamError
           else bind_io (flush tp ?deps (jb_import job) (jb_provider job) batch) (\<lambda>continue.
             if continue then then_io (markCompleted tp (jb_import job)) (finish ''completed'') else return_io ()))
        (\<lambda>_. at_least tp job k) (\<lambda>_. at_least tp job k)"
      proof (rule triple_if)
        show "triple (left_over tp job k n rest) (throw_io StreamError) (\<lambda>_. at_least tp job k) (\<lambda>_. at_least tp job k)"
          by (rule triple_throw) (auto simp: rest left_over_def intro: at_least_holds)
        assume "\<not> broken"
        then have nL: "n = length ?L" using n(4) by simp
        note run = last_batch_triple [OF assms(1) nL n(1), of _ batch tp cfg]
        show "triple (left_over tp job k n rest)
            (bind_io (flush tp ?deps (jb_import job) (jb_provider job) batch) (\<lambda>continue.
               if continue then then_io (markCompleted tp (jb_import job)) (finish ''completed'') else return_io ()))
            (\<lambda>_. at_least tp job k) (\<lambda>_. at_least tp job k)"
        proof (rule triple_weaken [OF triple_ex [OF triple_pre [OF run]]])
          show "\<exists>m. (k \<le> m \<and> m \<le> n \<and> batch = drop m (take n ?L)) \<and> prog.holds job tp m w"
            if "left_over tp job k n rest w" for w
            using that by (simp add: rest left_over_def)
        qed simp_all
      qed
    qed
  qed (rule fail_at_least)
qed

lemma then_io_assoc: "then_io m (then_io n k) = then_io (then_io m n) k"
  by (rule ext) (auto simp: then_io_apply split: prod.split sum.split)

lemma read_triple:
  assumes "0 \<le> off"
  shows "triple (prog.holds job tp k) (minio_read tp (jb_storageKey job) off)
    (\<lambda>s w. (\<exists>t. s = delivered t (drop (nat off) (jb_bytes job))) \<and> prog.holds job tp k w)
    (\<lambda>_. prog.holds job tp k)"
  unfolding minio_read_def
proof (rule prog.triple_call)
  fix t :: tick and w s w'
  assume h: "prog.holds job tp k w" and
    r: "(case map_of (w_objects w) (jb_storageKey job) of None \<Rightarrow> (Inl StorageError, w)
        | Some bs \<Rightarrow> if tp_range tp off (int (length bs)) then (Inr (delivered t (drop (nat off) bs)), w)
            else (Inl StorageError, w)) = (Inr s, w')"
  from h have "map_of (w_objects w) (jb_storageKey job) = Some (jb_bytes job)"
    unfolding prog.holds_def by (blast elim: progressE)
  with h r show "(\<exists>t. s = delivered t (drop (nat off) (jb_bytes job))) \<and> prog.holds job tp k w'"
    by (auto split: if_splits)
qed (auto split: option.split)

lemma offset_after_nonneg:
  assumes "short_lines bs" "k \<le> length (file_lines bs)"
  shows "0 \<le> offset_after bs k"
proof (cases k)
  case (Suc j)
  with assms have "0 < pl_byteOffsetAfter (file_lines bs ! j)"
    using tracks_nth [OF reference_tracks, of bs j 0 0] by (simp add: short_lines_def file_lines_def)
  with Suc show ?thesis by (simp add: offset_after_def)
qed (simp add: offset_after_def)

lemma process_file_triple:
  assumes "short_lines (jb_bytes job)" "row_at job k row" "uf_storageKey f = jb_storageKey job"
  shows "triple (prog.holds job tp k) (process_file tp (buildImportProcessor tp cfg) (jb_import job) row f)
    (\<lambda>_. at_least tp job k) (\<lambda>_. at_least tp job k)"
proof -
  let ?off = "offset_after (jb_bytes job) k"
  let ?good = "\<lambda>s w. (\<exists>t. s = delivered t (drop (nat ?off) (jb_bytes job))) \<and> prog.holds job tp k w"
  let ?R = "\<lambda>stream w. case stream of None \<Rightarrow> at_least tp job k w | Some s \<Rightarrow> ?good s w"
  from assms(2) have row: "k \<le> length (file_lines (jb_bytes job))" "im_checkpointOffset row = ?off"
    by (simp_all add: row_at_def)
  have off: "0 \<le> ?off" by (rule offset_after_nonneg [OF assms(1) row(1)])
  have fail: "triple (prog.holds job tp k)
      (then_io (markFailed tp (jb_import job) reason) (then_io (finish outcome) (return_io None)))
      ?R (\<lambda>_. at_least tp job k)" for reason outcome
  proof -
    have k: "keeps (prog.holds job tp k) (then_io (markFailed tp (jb_import job) reason) (finish outcome))"
      by (intro keeps_intros progress_marks prog.keeps_finish)
    show ?thesis
      unfolding then_io_assoc
      by (rule triple_then [where R = "at_least tp job k", OF triple_weaken [OF k [folded triple_keeps]]])
        (auto intro: at_least_holds intro!: triple_return)
  qed
  have read: "triple (prog.holds job tp k)
      (catch_io
        (bind_io (minio_read tp (uf_storageKey f) ?off) (\<lambda>s. return_io (Some s)))
        (\<lambda>_. then_io (markFailed tp (jb_import job) ''Failed to read uploaded file'')
           (then_io (finish ''failed'') (return_io None))))
      ?R (\<lambda>_. at_least tp job k)"
    unfolding assms(3)
    by (rule triple_catch [OF triple_bind [OF read_triple [OF off]] fail], rule triple_return) simp
  show ?thesis
    unfolding process_file_def buildImportProcessor_simps row(2)
  proof (rule triple_then [OF triple_weaken [OF progress_marks(1) [folded triple_keeps]]],
      assumption, assumption, erule at_least_holds, rule order_refl, rule triple_bind [OF read])
    fix stream
    show "triple (?R stream) (case stream of None \<Rightarrow> return_io ()
        | Some s \<Rightarrow> consume tp (buildImportProcessor tp cfg) (jb_import job) row s)
      (\<lambda>_. at_least tp job k) (\<lambda>_. at_least tp job k)"
    proof (rule triple_case_option)
      fix s assume s: "stream = Some s"
      show "triple (?R stream) (consume tp (buildImportProcessor tp cfg) (jb_import job) row s)
          (\<lambda>_. at_least tp job k) (\<lambda>_. at_least tp job k)"
        unfolding s option.case
        by (rule triple_pre, elim exE, rule consume_triple [OF assms(1,2)])
    qed (simp add: triple_return del: io_apply)
  qed
qed

lemma process_triple:
  assumes "short_lines (jb_bytes job)"
  shows "triple (prog.holds job tp k) (process tp (buildImportProcessor tp cfg) (jb_import job))
    (\<lambda>_. at_least tp job k) (\<lambda>_. at_least tp job k)"
proof -
  let ?i = "jb_import job" and ?H = "prog.holds job tp k" and ?A = "at_least tp job k"
  have keeps: "triple ?H m (\<lambda>_. ?A) (\<lambda>_. ?A)" if "keeps ?H m" for m :: "(world, exn, unit) io"
    using that unfolding triple_keeps [symmetric] by (rule triple_weaken) (auto intro: at_least_holds)
  have row: "triple ?H (findById tp ?i) (\<lambda>x w. (\<exists>r. x = Some r \<and> row_at job k r) \<and> ?H w) (\<lambda>_. ?A)"
    unfolding findById_def
    by (rule triple_weaken [OF prog.triple_db_query [where Q = "\<lambda>x. \<exists>r. x = Some r \<and> row_at job k r"]])
      (auto simp: row_at_def intro: at_least_holds elim!: progressE)
  have upload: "triple ?H (getUploadedFile tp ?i)
      (\<lambda>x w. (\<exists>f. x = Some f \<and> uf_storageKey f = jb_storageKey job) \<and> ?H w) (\<lambda>_. ?A)"
    unfolding getUploadedFile_def
    by (rule triple_weaken [OF prog.triple_db_query
          [where Q = "\<lambda>x. \<exists>f. x = Some f \<and> uf_storageKey f = jb_storageKey job"]])
      (auto intro: at_least_holds elim!: progressE)
  show ?thesis
    unfolding process_def buildImportProcessor_simps
  proof (rule triple_bind [OF row], rule triple_pre, elim exE conjE, simp only: option.case, rule triple_if)
    fix x r assume r: "row_at job k r"
    show "triple ?H (return_io () :: (world, exn, unit) io) (\<lambda>_. ?A) (\<lambda>_. ?A)" by (rule keeps) (rule keeps_return)
    have gauge: "triple ?H (incrementGauge ''active_imports'') (\<lambda>_. ?H) (\<lambda>_. ?A)"
      by (rule triple_weaken [OF prog.keeps_process(4) [folded triple_keeps]]) (auto intro: at_least_holds)
    have cancel: "keeps ?H (then_io (markCancelled tp ?i) (finish ''cancelled''))"
      by (intro keeps_intros progress_marks prog.keeps_finish)
    have missing: "triple ?H (bind_io (getUploadedFile tp ?i) (\<lambda>uploadedFile. case uploadedFile of
          None \<Rightarrow> then_io (markFailed tp ?i ''Uploaded file metadata missing'') (finish ''failed'')
        | Some f \<Rightarrow> process_file tp (buildImportProcessor tp cfg) ?i r f)) (\<lambda>_. ?A) (\<lambda>_. ?A)"
      by (rule triple_bind [OF upload], rule triple_pre, elim exE conjE, simp only: option.case,
          rule process_file_triple [OF assms r])
    show "triple ?H (then_io (incrementGauge ''active_imports'')
        (if im_cancelRequested r then then_io (markCancelled tp ?i) (finish ''cancelled'')
         else bind_io (getUploadedFile tp ?i) (\<lambda>uploadedFile. case uploadedFile of
             None \<Rightarrow> then_io (markFailed tp ?i ''Uploaded file metadata missing'') (finish ''failed'')
           | Some f \<Rightarrow> process_file tp (buildImportProcessor tp cfg) ?i r f))) (\<lambda>_. ?A) (\<lambda>_. ?A)"
      by (rule triple_then [OF gauge], rule triple_if, rule keeps [OF cancel], rule missing)
  qed
qed

section \<open>Many runs\<close>

text \<open>A queue delivers the job again and again; a run that throws is a failed job.\<close>

fun deliveries :: "third_party \<Rightarrow> import_processor_deps \<Rightarrow> jsstring \<Rightarrow> nat \<Rightarrow> (world, exn, unit) io" where
  "deliveries tp deps i 0 = return_io ()"
| "deliveries tp deps i (Suc n) =
     then_io (catch_io (process tp deps i) (\<lambda>_. return_io ())) (deliveries tp deps i n)"

lemma keeps_deliveries:
  assumes "short_lines (jb_bytes job)"
  shows "keeps (at_least tp job k) (deliveries tp (buildImportProcessor tp cfg) (jb_import job) n)"
proof (induction n)
  case (Suc n)
  have "keeps (at_least tp job k) (process tp (buildImportProcessor tp cfg) (jb_import job))"
  proof (rule keepsI)
    fix w assume "at_least tp job k w"
    then obtain m where m: "k \<le> m" "prog.holds job tp m w" by (auto simp: at_least_def)
    obtain r w' where r: "process tp (buildImportProcessor tp cfg) (jb_import job) w = (r, w')" by (metis surj_pair)
    have "at_least tp job m w'"
      using triple_InrD [OF process_triple [OF assms] m(2)] triple_InlD [OF process_triple [OF assms] m(2)] r
      by (cases r) auto
    then show "at_least tp job k (snd (process tp (buildImportProcessor tp cfg) (jb_import job) w))"
      using m(1) r by (auto intro: at_least_mono)
  qed
  with Suc.IH show ?case by (simp add: keeps_intros)
qed (simp add: keeps_def)

text \<open>A new import with its file has progress 0.\<close>

lemma fresh_progress:
  assumes "find_import (jb_import job) d = Some r" "im_providerId r = jb_provider job"
    and "im_status r \<noteq> Completed" "im_checkpointLineNumber r = 0" "im_checkpointOffset r = 0"
    and "counters_ok d r" "im_processedCount r = 0"
    and "find_file (jb_import job) d = Some f" "uf_storageKey f = jb_storageKey job"
    and "map_of obs (jb_storageKey job) = Some (jb_bytes job)"
  shows "progress tp job 0 d obs"
proof -
  have "im_id r = jb_import job" using find_import_SomeD [OF assms(1)] by simp
  with assms(6) have c: "im_acceptedCount r = int (length (transactions_of_import (jb_import job) d))"
    "im_rejectedCount r = int (length (rejected_of_import (jb_import job) d))"
    "im_processedCount r = im_acceptedCount r + im_rejectedCount r + im_duplicateCount r"
    "0 \<le> im_duplicateCount r"
    by (simp_all add: counters_ok_def)
  then have "length (transactions_of_import (jb_import job) d) = 0"
    "length (rejected_of_import (jb_import job) d) = 0" "im_duplicateCount r = 0"
    using assms(7) by linarith+
  with c show ?thesis
    unfolding progress_def recorded_def using assms
    by (intro exI [of _ r] exI [of _ f]) (simp add: offset_after_def)
qed

end
