(* ===== verification/Completion.thy ===== *)
theory Completion
  imports Progress
begin

text \<open>
  The end of an import.  With nothing else going on and every row storable, the worker takes
  an import from any checkpoint to \<open>completed\<close> (\<open>calm_process\<close>); with anything going on, what
  is recorded is a prefix of the file, and the whole file once the import is completed.
\<close>

section \<open>Rows that can be stored\<close>

text \<open>The timestamp is a date of JavaScript, the amount fits \<open>Decimal(18,2)\<close>, the raw value fits
  \<open>jsonb\<close>.\<close>

definition storable :: "third_party \<Rightarrow> line_class \<Rightarrow> bool" where
  "storable tp c \<longleftrightarrow>
     (case c of
        Blank \<Rightarrow> True
      | Rejected r \<Rightarrow> \<not> isl (tp_jsonb tp (rj_rawValue r))
      | Accepted t \<Rightarrow> new_date (tp_legacy_date tp) (t_timestamp t) \<noteq> None \<and> \<not> isl (tp_decimal tp (t_amount t)))"

lemma storable_transactions:
  "list_all (storable tp) cs \<Longrightarrow> t \<in> set (transactions_of cs) \<Longrightarrow> storable tp (Accepted t)"
proof (induction cs)
  case (Cons c cs)
  then show ?case by (cases c) auto
qed simp

lemma storable_rejections:
  "list_all (storable tp) cs \<Longrightarrow> r \<in> set (rejections_of cs) \<Longrightarrow> storable tp (Rejected r)"
proof (induction cs)
  case (Cons c cs)
  then show ?case by (cases c) auto
qed simp

lemma transaction_rows_return:
  "\<forall>t\<in>set ts. storable tp (Accepted t) \<Longrightarrow>
   \<exists>rs. transaction_rows tp now i k (map (scored tp p) ts) = Inr rs"
proof (induction ts arbitrary: k)
  case (Cons t ts)
  then obtain rs where "transaction_rows tp now i (k + 1) (map (scored tp p) ts) = Inr rs" by fastforce
  moreover have "\<exists>r. transaction_row_of tp now i k (scored tp p t) = Inr r"
    using Cons.prems
    by (auto simp: storable_def transaction_row_of_def scored_by_def accepted_of_def isl_def
        split: option.splits sum.splits)
  ultimately show ?case by fastforce
qed simp

lemma rejected_rows_return:
  "\<forall>r\<in>set rs. storable tp (Rejected r) \<Longrightarrow> \<exists>rows. rejected_rows tp now i k rs = Inr rows"
proof (induction rs arbitrary: k)
  case (Cons r rs)
  then obtain rows where "rejected_rows tp now i (k + 1) rs = Inr rows" by fastforce
  moreover have "\<exists>raw. tp_jsonb tp (rj_rawValue r) = Inr raw"
    using Cons.prems by (cases "tp_jsonb tp (rj_rawValue r)") (simp_all add: storable_def)
  ultimately show ?case by fastforce
qed simp

section \<open>Nothing else going on\<close>

text \<open>\<open>still v tp job k\<close>: no failure and no other actor to come, \<open>k\<close> lines recorded; \<open>v\<close> is what the
  worker looks at between the batches.\<close>

type_synonym view = "bool \<times> jsstring list \<times> bool \<times> import_status"

definition view_of :: "world \<Rightarrow> import_row \<Rightarrow> view" where
  "view_of w r = (w_shuttingDown w, w_queue w, im_cancelRequested r, im_status r)"

definition still :: "view \<Rightarrow> third_party \<Rightarrow> job \<Rightarrow> nat \<Rightarrow> world \<Rightarrow> bool" where
  "still v tp job k w \<longleftrightarrow>
     w_schedule w = [] \<and> progress tp job k (w_db w) (w_objects w) \<and>
     (\<exists>r. find_import (jb_import job) (w_db w) = Some r \<and> view_of w r = v)"

definition calm :: "third_party \<Rightarrow> job \<Rightarrow> nat \<Rightarrow> world \<Rightarrow> bool" where
  "calm tp job k w \<longleftrightarrow> (\<exists>queue status. still (False, queue, False, status) tp job k w)"

lemma still_counter: "keeps (still v tp job k) (incrementCounter name labels n)"
  and still_gauge: "keeps (still v tp job k) (incrementGauge name)" "keeps (still v tp job k) (decrementGauge name)"
  and still_histogram: "keeps (still v tp job k) (observeHistogram name labels)"
  by (simp_all add: keeps_def still_def view_of_def incrementCounter_def incrementGauge_def decrementGauge_def
      observeHistogram_def)

lemma still_count_batch: "keeps (still v tp job k) (count_batch n m result)"
  unfolding count_batch_def by (intro keeps_intros still_counter)

lemma count_batch_returns: "\<exists>w'. count_batch n m result w = (Inr (), w')"
  by (simp add: count_batch_def incrementCounter_def then_io_apply)

lemma finish_returns: "\<exists>w'. finish outcome w = (Inr (), w') \<and> w_db w' = w_db w"
  by (simp add: finish_def observeHistogram_def decrementGauge_def incrementCounter_def then_io_apply)

lemma still_validate:
  assumes "still v tp job k w" "classify_all tp batch = Inr cs"
  shows "validateAndScoreBatch tp (piscina_scoreBatch tp) batch p w =
    (Inr (map (scored tp p) (transactions_of cs), rejections_of cs,
          length (transactions_of cs) + length (rejections_of cs)), w)"
proof -
  have "piscina_scoreBatch tp xs w = (Inr (map (risk_of tp) xs), w)" for xs
    using assms(1) by (simp add: piscina_scoreBatch_def still_def quiet_call riskScoreBatchTask_map)
  then show ?thesis using assms(2) by (simp add: piscina.batch_eq)
qed

lemma still_commit:
  assumes "still v tp job k w" "next_batch tp job k b cs" "list_all (storable tp) cs"
  shows "\<exists>res w'. commitBatch tp cfg (jb_import job) (next_input tp job k b cs) w = (Inr res, w') \<and>
    still v tp job (k + b) w'"
proof -
  let ?i = "jb_import job" and ?in = "next_input tp job k b cs"
  from assms(1) obtain r where calm: "w_schedule w = []" "progress tp job k (w_db w) (w_objects w)"
    "find_import ?i (w_db w) = Some r" "view_of w r = v"
    unfolding still_def by blast
  have "im_checkpointLineNumber r = int k" using calm(2,3) by (auto elim: progressE)
  moreover have "1 \<le> b" using assms(2) by (simp add: next_batch_def)
  ultimately have less: "im_checkpointLineNumber r < ci_checkpointLineNumber ?in"
    using last_line_number [OF assms(2)] by (simp add: next_input_def)
  obtain rs where rs: "transaction_rows tp (w_now w) ?i (db_next (w_db w)) (ci_acceptedTransactions ?in) = Inr rs"
    using transaction_rows_return storable_transactions [OF assms(3)]
    by (simp add: next_input_def) blast
  obtain rows where rows: "rejected_rows tp (w_now w) ?i (db_next (w_db w) + length rs) (ci_rejectedRecords ?in) = Inr rows"
    using rejected_rows_return storable_rejections [OF assms(3)]
    by (simp add: next_input_def) blast
  from commit_batch_tx_returns [OF calm(3) less rs rows] obtain res d' where
    c: "commit_batch_tx tp (w_now w) ?i ?in (w_db w) = Inr (res, d')" by blast
  obtain n where "find_import ?i d' = Some (advance_import ?in (int n) r)"
    by (rule committed_rows [OF c calm(3) less])
  then have "\<exists>r. find_import ?i d' = Some r \<and> view_of (w\<lparr>w_db := d'\<rparr>) r = v"
    using calm(4) by (simp add: advance_import_def view_of_def)
  then have "still v tp job (k + b) (w\<lparr>w_db := d'\<rparr>)"
    using calm(1) commit_progress [OF assms(2) calm(2) c] by (simp add: still_def)
  moreover have "commitBatchOnce tp ?i ?in w = (Inr res, w\<lparr>w_db := d'\<rparr>)"
    using c calm(1) by (simp add: commitBatchOnce_def quiet_db_call)
  then have "commitBatch tp cfg ?i ?in w = (Inr res, w\<lparr>w_db := d'\<rparr>)"
    unfolding commitBatch_def by (rule backoff.first_success)
  ultimately show ?thesis by blast
qed

lemma still_flush:
  assumes "still v tp job k w" "short_lines (jb_bytes job)" "k + b \<le> length (file_lines (jb_bytes job))"
    and "classify_all tp (file_lines (jb_bytes job)) = Inr all" "list_all (storable tp) all"
    and batch: "batch = take b (drop k (file_lines (jb_bytes job)))"
    and "0 < b"
  shows "\<exists>w'. flush tp (buildImportProcessor tp cfg) (jb_import job) (jb_provider job) batch w =
      after_batch (buildImportProcessor tp cfg) (jb_import job) w' \<and> still v tp job (k + b) w'"
proof -
  let ?cs = "take b (drop k all)"
  have ne: "batch \<noteq> []" "1 \<le> b" using assms(3,7) unfolding batch by (auto simp: drop_eq_Nil)
  have cs: "classify_all tp batch = Inr ?cs"
    unfolding batch by (intro classify_all_take classify_all_drop assms(4))
  then have nb: "next_batch tp job k b ?cs" using assms(2,3) ne(2) batch by (simp add: next_batch_def)
  have st: "list_all (storable tp) ?cs"
    using assms(5) by (auto simp: list_all_iff dest!: in_set_takeD in_set_dropD)
  from still_commit [OF assms(1) nb st] obtain res w1 where
    c: "commitBatch tp cfg (jb_import job) (next_input tp job k b ?cs) w = (Inr res, w1)"
      "still v tp job (k + b) w1" by blast
  obtain w2 where w2: "count_batch (length (transactions_of ?cs) + length (rejections_of ?cs))
      (length (rejections_of ?cs)) res w1 = (Inr (), w2)"
    using count_batch_returns by blast
  have calm2: "still v tp job (k + b) w2" using keepsD' [OF still_count_batch c(2) w2] .
  have "commit_input_of (map (scored tp (jb_provider job)) (transactions_of ?cs)) (rejections_of ?cs)
      (length (transactions_of ?cs) + length (rejections_of ?cs)) (last batch) = next_input tp job k b ?cs"
    using last_of_batch [OF ne(2) assms(3)] batch by (simp add: next_input_def batch_input_def last_line_def)
  then show ?thesis
    using ne(1) c w2 calm2
    by (auto simp add: flush_def still_validate [OF assms(1) cs])
qed

lemma calm_after_batch:
  assumes "calm tp job k w"
  shows "after_batch (buildImportProcessor tp cfg) (jb_import job) w = (Inr True, w)"
  using assms
  by (auto simp: calm_def still_def view_of_def after_batch_def findById_def bind_io_apply isShuttingDown_def)

lemma calm_flush:
  assumes "calm tp job k w" "short_lines (jb_bytes job)" "k + b \<le> length (file_lines (jb_bytes job))"
    and "classify_all tp (file_lines (jb_bytes job)) = Inr all" "list_all (storable tp) all"
    and batch: "batch = take b (drop k (file_lines (jb_bytes job)))"
  shows "\<exists>w'. flush tp (buildImportProcessor tp cfg) (jb_import job) (jb_provider job) batch w = (Inr True, w') \<and>
    calm tp job (k + b) w'"
proof (cases "0 < b")
  case True
  from assms(1) obtain v where v: "still v tp job k w" "\<And>m w. still v tp job m w \<Longrightarrow> calm tp job m w"
    unfolding calm_def by blast
  from still_flush [OF v(1) assms(2-6) True] obtain w' where
    "flush tp (buildImportProcessor tp cfg) (jb_import job) (jb_provider job) batch w =
      after_batch (buildImportProcessor tp cfg) (jb_import job) w'" "calm tp job (k + b) w'"
    using v(2) by blast
  with calm_after_batch show ?thesis by auto
next
  case False
  with assms(1) show ?thesis by (simp add: flush_def batch)
qed

lemma calm_run_lines:
  assumes "calm tp job k w" "short_lines (jb_bytes job)" "k \<le> length (file_lines (jb_bytes job))"
    and "classify_all tp (file_lines (jb_bytes job)) = Inr all" "list_all (storable tp) all"
    and "batch @ ls = drop k (file_lines (jb_bytes job))"
  shows "\<exists>w' m. run_lines tp (buildImportProcessor tp cfg) (jb_import job) (jb_provider job) batch ls w =
      (Inr (Some (drop m (file_lines (jb_bytes job)))), w') \<and>
    calm tp job m w' \<and> m \<le> length (file_lines (jb_bytes job))"
  using assms(1,3,6)
proof (induction ls arbitrary: batch k w)
  case Nil
  then show ?case by auto
next
  case (Cons l ls)
  let ?L = "file_lines (jb_bytes job)" and ?b = "length batch + 1"
  have "length (batch @ l # ls) = length ?L - k" using Cons.prems(3) by simp
  then have kb: "k + ?b \<le> length ?L" by simp
  have split: "(batch @ [l]) @ ls = drop k ?L" using Cons.prems(3) by simp
  have "take ?b ((batch @ [l]) @ ls) = batch @ [l]" by simp
  then have b: "batch @ [l] = take ?b (drop k ?L)" unfolding split ..
  have "drop ?b ((batch @ [l]) @ ls) = ls" by simp
  then have ls: "[] @ ls = drop (k + ?b) ?L" unfolding split by (simp add: add.commute)
  show ?case
  proof (cases "BATCH_SIZE \<le> length (batch @ [l])")
    case True
    from calm_flush [OF Cons.prems(1) assms(2) kb assms(4,5) b] obtain w1 where
      f: "flush tp (buildImportProcessor tp cfg) (jb_import job) (jb_provider job) (batch @ [l]) w = (Inr True, w1)"
        "calm tp job (k + ?b) w1" by blast
    from Cons.IH [OF f(2) kb ls] f(1) True show ?thesis by simp
  next
    case False
    from Cons.IH [OF Cons.prems(1,2) split] False show ?thesis by simp
  qed
qed

lemma still_update:
  assumes "still (s, q, c, st) tp job k w" "\<And>now. progress_kept (f now)"
    and "\<And>now r. im_cancelRequested (f now r) = im_cancelRequested r" "\<And>now r. im_status (f now r) = st'"
    and "st' = Completed \<Longrightarrow> k = length (file_lines (jb_bytes job))"
  shows "\<exists>r w'. update_now tp (jb_import job) f w = (Inr r, w') \<and> still (s, q, c, st') tp job k w'"
proof -
  let ?f = "f (w_now w)"
  from assms(1) obtain r where r: "find_import (jb_import job) (w_db w) = Some r" "w_schedule w = []"
    "view_of w r = (s, q, c, st)" unfolding still_def by blast
  obtain d where u: "update_import (jb_import job) ?f (w_db w) = Inr (?f r, d)"
    using r(1) by (auto simp: update_import_def)
  have id: "im_id (?f x) = im_id x" for x using assms(2) by (simp add: progress_kept_def identity_kept_def)
  have "progress tp job k d (w_objects w)"
    by (rule progress_update [OF _ u assms(2)]) (use assms(1,4,5) in \<open>simp_all add: still_def\<close>)
  moreover have "find_import (jb_import job) d = Some (?f r)" using find_import_update [OF u id] by simp
  moreover have "view_of (w\<lparr>w_db := d\<rparr>) (?f r) = (s, q, c, st')" using r(3) assms(3,4) by (simp add: view_of_def)
  ultimately have "still (s, q, c, st') tp job k (w\<lparr>w_db := d\<rparr>)" using r(2) by (simp add: still_def)
  moreover have "update_now tp (jb_import job) f w = (Inr (?f r), w\<lparr>w_db := d\<rparr>)"
    using u r(2) by (simp add: update_now_def quiet_db_call)
  ultimately show ?thesis by blast
qed

lemma still_markProcessing:
  assumes "still (s, q, c, st) tp job k w"
  shows "\<exists>r w'. markProcessing tp (jb_import job) w = (Inr (Some r), w') \<and> still (s, q, c, Processing) tp job k w'"
  using still_update [OF assms, of processing_at Processing]
  by (auto simp: markProcessing_def catch_io_apply bind_io_apply processing_at_def
      progress_kept_updates [unfolded processing_at_def])

lemma still_markCancelled:
  assumes "still (s, q, c, st) tp job k w"
  shows "\<exists>w'. markCancelled tp (jb_import job) w = (Inr (), w') \<and> still (s, q, c, Cancelled) tp job k w'"
  using still_update [OF assms, of cancelled_at Cancelled]
  by (auto simp: markCancelled_def then_io_apply cancelled_at_def progress_kept_updates [unfolded cancelled_at_def])

lemma still_markFailed:
  assumes "still (s, q, c, st) tp job k w"
  shows "\<exists>w'. markFailed tp (jb_import job) reason w = (Inr (), w') \<and> still (s, q, c, Failed) tp job k w'"
  using still_update [OF assms, of "\<lambda>now. failed_at now reason" Failed]
  by (auto simp: markFailed_def then_io_apply failed_at_def progress_kept_updates [unfolded failed_at_def])

lemma still_markCompleted:
  assumes "still (s, q, c, st) tp job k w" "k = length (file_lines (jb_bytes job))"
  shows "\<exists>w'. markCompleted tp (jb_import job) w = (Inr (), w') \<and> still (s, q, c, Completed) tp job k w'"
  using still_update [OF assms(1), of completed_at Completed] assms(2)
  by (auto simp: markCompleted_def then_io_apply completed_at_def progress_kept_updates [unfolded completed_at_def])

text \<open>The run once the file is open: the lines \<open>ls\<close> are still to come.\<close>

definition run_open :: "third_party \<Rightarrow> retry_config \<Rightarrow> job \<Rightarrow> parsed_line list \<Rightarrow> (world, exn, unit) io" where
  "run_open tp cfg job ls =
     catch_io
       (bind_io (run_lines tp (buildImportProcessor tp cfg) (jb_import job) (jb_provider job) [] ls) (\<lambda>rest.
          case rest of
            None \<Rightarrow> return_io ()
          | Some batch \<Rightarrow>
              bind_io (flush tp (buildImportProcessor tp cfg) (jb_import job) (jb_provider job) batch) (\<lambda>continue.
                if continue
                then then_io (pd_markCompleted (buildImportProcessor tp cfg) (jb_import job)) (finish ''completed'')
                else return_io ())))
       (\<lambda>_. then_io (pd_markFailed (buildImportProcessor tp cfg) (jb_import job) ''Processing failed unexpectedly'') (finish ''failed''))"

lemma still_process:
  assumes "still (s, q, False, st) tp job k w" "short_lines (jb_bytes job)" "st \<in> {Pending, Processing}"
    and "tp_range tp (offset_after (jb_bytes job) k) (int (length (jb_bytes job)))"
  shows "\<exists>w'. process tp (buildImportProcessor tp cfg) (jb_import job) w =
      run_open tp cfg job (drop k (file_lines (jb_bytes job))) w' \<and> still (s, q, False, Processing) tp job k w'"
proof -
  let ?i = "jb_import job" and ?deps = "buildImportProcessor tp cfg" and ?L = "file_lines (jb_bytes job)"
  let ?off = "offset_after (jb_bytes job) k"
  from assms(1) obtain row where q: "w_schedule w = []" "progress tp job k (w_db w) (w_objects w)"
    "find_import ?i (w_db w) = Some row" "view_of w row = (s, q, False, st)"
    unfolding still_def by blast
  from q(2) obtain f where row: "im_providerId row = jb_provider job" "k \<le> length ?L"
      "im_checkpointLineNumber row = int k" "im_checkpointOffset row = ?off" and
    f: "find_file ?i (w_db w) = Some f" "uf_storageKey f = jb_storageKey job"
    by (rule progressE) (use q(3) in auto)
  let ?w1 = "snd (incrementGauge ''active_imports'' w)"
  have g: "incrementGauge ''active_imports'' w = (Inr (), ?w1)" by (simp add: incrementGauge_def)
  have w1: "w_db ?w1 = w_db w" "w_schedule ?w1 = []" using q(1) by (simp_all add: incrementGauge_def)
  have "still (s, q, False, st) tp job k ?w1" using still_gauge(1) assms(1) by (blast dest: keepsD)
  from still_markProcessing [OF this] obtain r2 w2 where
    m: "markProcessing tp ?i ?w1 = (Inr (Some r2), w2)" and c2: "still (s, q, False, Processing) tp job k w2" by blast
  let ?bytes = "drop (nat ?off) (jb_bytes job)"
  have "map_of (w_objects w2) (jb_storageKey job) = Some (jb_bytes job)" "w_schedule w2 = []"
    using c2 by (auto simp: still_def elim: progressE)
  then have rd: "minio_read tp (jb_storageKey job) ?off w2 = (Inr (delivered quiet_tick ?bytes), w2)"
    using assms(4) by (simp add: minio_read_def quiet_call)
  obtain ls broken where parse: "parseNdjsonLines (delivered quiet_tick ?bytes) ?off (int k) = (ls, broken)"
    by (metis surj_pair)
  have nb: "\<not> broken"
    using parse by (auto simp: delivered_def quiet_tick_def parseNdjsonLines_def split: prod.splits)
  from delivered_lines [OF assms(2) row(2) parse] nb have ls: "ls = drop k ?L" by auto
  have "consume tp ?deps ?i row (delivered quiet_tick ?bytes) w2 = run_open tp cfg job (drop k ?L) w2"
    using row parse nb ls by (simp add: consume_def run_open_def cong: option.case_cong)
  then have "process_file tp ?deps ?i row f ?w1 = run_open tp cfg job (drop k ?L) w2"
    using m rd f(2) row(4) by (simp add: process_file_def)
  then have "process tp ?deps ?i w = run_open tp cfg job (drop k ?L) w2"
    using q assms(3) g w1 f(1) by (auto simp: process_def findById_def getUploadedFile_def view_of_def)
  with c2 show ?thesis by blast
qed

lemma calm_process:
  assumes "calm tp job k w" "short_lines (jb_bytes job)"
    and all: "classify_all tp (file_lines (jb_bytes job)) = Inr all" "list_all (storable tp) all"
    and "find_import (jb_import job) (w_db w) = Some row" "im_status row \<in> {Pending, Processing}"
    and "tp_range tp (offset_after (jb_bytes job) k) (int (length (jb_bytes job)))"
  shows "\<exists>w' r. process tp (buildImportProcessor tp cfg) (jb_import job) w = (Inr (), w') \<and>
    find_import (jb_import job) (w_db w') = Some r \<and> im_status r = Completed"
proof -
  let ?i = "jb_import job" and ?deps = "buildImportProcessor tp cfg" and ?L = "file_lines (jb_bytes job)"
  from assms(1,5) obtain q where "still (False, q, False, im_status row) tp job k w"
    by (auto simp: calm_def still_def view_of_def)
  from still_process [OF this assms(2,6,7)] obtain w2 where
    p: "process tp ?deps ?i w = run_open tp cfg job (drop k ?L) w2" and c2: "calm tp job k w2"
    unfolding calm_def by blast
  have k: "k \<le> length ?L" using assms(1) by (auto simp: calm_def still_def elim: progressE)
  from calm_run_lines [OF c2 assms(2) k all, where batch = "[]" and ls = "drop k ?L" and cfg = cfg] obtain w3 m where
    r: "run_lines tp ?deps ?i (jb_provider job) [] (drop k ?L) w2 = (Inr (Some (drop m ?L)), w3)"
      "calm tp job m w3" "m \<le> length ?L" by auto
  have "drop m ?L = take (length ?L - m) (drop m ?L)" by simp
  from calm_flush [OF r(2) assms(2) _ all this] r(3) obtain w4 where
    fl: "flush tp ?deps ?i (jb_provider job) (drop m ?L) w3 = (Inr True, w4)"
      "calm tp job (m + (length ?L - m)) w4" by auto
  from fl(2) r(3) obtain q' st' where "still (False, q', False, st') tp job (length ?L) w4" by (auto simp: calm_def)
  from still_markCompleted [OF this refl] obtain w5 r5 where
    mc: "markCompleted tp ?i w4 = (Inr (), w5)" "find_import ?i (w_db w5) = Some r5" "im_status r5 = Completed"
    by (auto simp: still_def view_of_def)
  obtain w6 where fin: "finish ''completed'' w5 = (Inr (), w6)" "w_db w6 = w_db w5"
    using finish_returns by blast
  have "run_open tp cfg job (drop k ?L) w2 = (Inr (), w6)"
    using r(1) fl(1) mc(1) fin(1) by (simp add: run_open_def)
  with p mc fin show ?thesis by simp
qed

section \<open>An example\<close>

text \<open>A file with the single line \<open>[]\<close>, which is not a record.\<close>

definition sample_job :: job where
  "sample_job = \<lparr>jb_import = js ''0'', jb_provider = js ''p'', jb_storageKey = js ''k'', jb_bytes = [0x5b, 0x5d, 0x0a]\<rparr>"

definition sample_file :: file_row where
  "sample_file = file_row_of (js ''0'') \<lparr>af_storageBucket = js ''b'', af_storageKey = js ''k'', af_sizeBytes = 3,
     af_checksum = [], af_originalFilename = js ''a.ndjson'', af_mimeType = []\<rparr> 0"

definition sample_world :: world where
  "sample_world =
     (world_of (one_import_db\<lparr>db_files := [sample_file]\<rparr>))\<lparr>w_objects := [(js ''k'', [0x5b, 0x5d, 0x0a])]\<rparr>"

definition sample_class :: line_class where
  "sample_class = Rejected \<lparr>rj_lineNumber = 1, rj_reasonCode = ''INVALID_RECORD'',
     rj_message = ''Record must be a JSON object'', rj_rawValue = JArr []\<rparr>"

lemma sample_job_lines:
  "file_lines (jb_bytes sample_job) = [line_of 3 1 [0x5b, 0x5d]]" "short_lines (jb_bytes sample_job)"
  by (simp_all add: file_lines_def sample_job_def short_lines_def MAX_LINE_BYTES_def)

lemma sample_classes:
  "classify_all no_third_party (file_lines (jb_bytes sample_job)) = Inr [sample_class]"
proof -
  have "classify no_third_party (line_of 3 1 [0x5b, 0x5d]) = Inr sample_class"
    unfolding sample_class_def by code_simp
  then show ?thesis by (simp add: sample_job_lines)
qed

lemma sample_storable: "list_all (storable no_third_party) [sample_class]"
  by (simp add: storable_def sample_class_def)

lemma sample_progress: "progress no_third_party sample_job 0 (w_db sample_world) (w_objects sample_world)"
  by (rule fresh_progress [where r = one_import_row and f = sample_file])
    (simp_all add: sample_world_def sample_job_def find_import_def one_import_db_def one_import_row_def empty_db_def
      counters_ok_def transactions_of_import_def rejected_of_import_def find_file_def sample_file_def file_row_of_def)

lemma sample_calm: "calm no_third_party sample_job 0 sample_world"
  using sample_progress
  by (simp add: calm_def still_def view_of_def sample_job_def sample_world_def world_of_def find_import_def one_import_db_def one_import_row_def)

lemma sample_completes:
  obtains w' r where
    "deliveries no_third_party (buildImportProcessor no_third_party default_retry) (jb_import sample_job) 1 sample_world =
       (Inr (), w')"
    "find_import (jb_import sample_job) (w_db w') = Some r" "im_status r = Completed"
proof -
  have "find_import (jb_import sample_job) (w_db sample_world) = Some one_import_row"
    by (simp add: sample_world_def sample_job_def find_import_def one_import_db_def one_import_row_def)
  from calm_process [OF sample_calm sample_job_lines(2) sample_classes sample_storable this, of default_retry]
  obtain w' r where "process no_third_party (buildImportProcessor no_third_party default_retry)
      (jb_import sample_job) sample_world = (Inr (), w')"
    "find_import (jb_import sample_job) (w_db w') = Some r" "im_status r = Completed"
    by (auto simp: one_import_row_def offset_after_def)
  then show thesis by (intro that) simp_all
qed

section \<open>Properties\<close>

text \<open>Whatever happens, the database records a prefix of the file: after any number of
  deliveries of the job, with every kind of failure, retry, lost acknowledgement, pause or
  cancellation in any of them, exactly the lines up to the checkpoint are recorded, and the
  checkpoint has not moved back.\<close>

theorem deliveries_record_prefix:
  assumes "progress tp job k (w_db w) (w_objects w)" "short_lines (jb_bytes job)"
    and "list_all (\<lambda>t. list_all (leaves (jb_import job)) (tk_actions t)) (w_schedule w)"
    and "deliveries tp (buildImportProcessor tp cfg) (jb_import job) n w = (res, w')"
  shows "\<exists>m r. k \<le> m \<and> m \<le> length (file_lines (jb_bytes job)) \<and>
    find_import (jb_import job) (w_db w') = Some r \<and> im_checkpointLineNumber r = int m \<and>
    recorded tp job (take m (file_lines (jb_bytes job))) r (w_db w')"
proof -
  have "prog.holds job tp k w" unfolding prog.holds_def using assms(1,3) by blast
  then have "at_least tp job k w" by (rule at_least_holds) simp
  from keepsD' [OF keeps_deliveries [OF assms(2)] this assms(4)]
  obtain m where "k \<le> m" "progress tp job m (w_db w') (w_objects w')"
    unfolding at_least_def prog.holds_def by blast
  then show ?thesis by (blast elim: progressE)
qed

theorem deliveries_record_prefix_witness:
  "\<exists>w' m r. deliveries no_third_party (buildImportProcessor no_third_party default_retry) (js ''0'') 1 sample_world =
       (Inr (), w') \<and> m \<le> 1 \<and> find_import (js ''0'') (w_db w') = Some r \<and> im_checkpointLineNumber r = int m"
proof -
  obtain w' r where d: "deliveries no_third_party (buildImportProcessor no_third_party default_retry)
      (jb_import sample_job) 1 sample_world = (Inr (), w')" by (rule sample_completes)
  have "list_all (\<lambda>t. list_all (leaves (jb_import sample_job)) (tk_actions t)) (w_schedule sample_world)"
    by (simp add: sample_world_def)
  from deliveries_record_prefix [OF sample_progress sample_job_lines(2) this d] obtain m r' where
    "m \<le> 1" "find_import (jb_import sample_job) (w_db w') = Some r'" "im_checkpointLineNumber r' = int m"
    by (auto simp: sample_job_lines(1))
  with d show ?thesis unfolding sample_job_def job.simps by blast
qed





end
