(* ===== verification/Pause.thy ===== *)
theory Pause
  imports Completion
begin

text \<open>
  How a run of \<open>process\<close> in \<open>src/modules/imports/imports.processor.ts\<close> ends before the file
  does: a shutdown or a cancellation seen after a batch (\<open>after_batch\<close>), and a delivery for an
  import that is settled already.  The lemmas follow one batch from \<open>still\<close> to the end of the
  run; the properties say what is handed over to the next worker.
\<close>

section \<open>After a batch\<close>

lemma finish_frame: "\<exists>w'. finish outcome w = (Inr (), w') \<and> w_db w' = w_db w \<and> w_queue w' = w_queue w \<and>
    w_objects w' = w_objects w \<and> w_schedule w' = w_schedule w \<and> w_shuttingDown w' = w_shuttingDown w"
  by (simp add: finish_def observeHistogram_def decrementGauge_def incrementCounter_def then_io_apply)

lemma stopping_after_batch:
  assumes "still (True, q, False, st) tp job k w"
  shows "\<exists>w'. after_batch (buildImportProcessor tp cfg) (jb_import job) w = (Inr False, w') \<and>
    still (True, q @ [jb_import job], False, st) tp job k w'"
proof -
  let ?w1 = "w\<lparr>w_queue := w_queue w @ [jb_import job]\<rparr>"
  from assms obtain r where r: "w_schedule w = []" "find_import (jb_import job) (w_db w) = Some r"
    "view_of w r = (True, q, False, st)" unfolding still_def by blast
  obtain w' where w': "finish ''paused'' ?w1 = (Inr (), w')" "w_db w' = w_db w" "w_queue w' = w_queue w @ [jb_import job]"
    "w_objects w' = w_objects w" "w_schedule w' = []" "w_shuttingDown w' = w_shuttingDown w"
    using finish_frame [of "''paused''" ?w1] r(1) by auto
  have "after_batch (buildImportProcessor tp cfg) (jb_import job) w = (Inr False, w')"
    using r w'(1) by (simp add: after_batch_def findById_def isShuttingDown_def view_of_def bind_io_apply
        enqueueImportProcessing_def quiet_call)
  moreover have "still (True, q @ [jb_import job], False, st) tp job k w'"
    using assms r w' by (simp add: still_def view_of_def)
  ultimately show ?thesis by blast
qed

lemma cancelled_after_batch:
  assumes "still (s, q, True, st) tp job k w"
  shows "\<exists>w'. after_batch (buildImportProcessor tp cfg) (jb_import job) w = (Inr False, w') \<and>
    still (s, q, True, Cancelled) tp job k w'"
proof -
  from assms obtain r where r: "w_schedule w = []" "find_import (jb_import job) (w_db w) = Some r"
    "view_of w r = (s, q, True, st)" unfolding still_def by blast
  from still_markCancelled [OF assms] obtain w1 where
    m: "markCancelled tp (jb_import job) w = (Inr (), w1)" "still (s, q, True, Cancelled) tp job k w1" by blast
  obtain w' where w': "finish ''cancelled'' w1 = (Inr (), w')" "w_db w' = w_db w1" "w_queue w' = w_queue w1"
    "w_objects w' = w_objects w1" "w_schedule w' = w_schedule w1" "w_shuttingDown w' = w_shuttingDown w1"
    using finish_frame [of "''cancelled''" w1] by auto
  have "after_batch (buildImportProcessor tp cfg) (jb_import job) w = (Inr False, w')"
    using r m(1) w'(1) by (simp add: after_batch_def findById_def view_of_def bind_io_apply then_io_apply)
  moreover have "still (s, q, True, Cancelled) tp job k w'" using m(2) w' by (simp add: still_def view_of_def)
  ultimately show ?thesis by blast
qed

section \<open>The first batch of a run\<close>

lemma run_lines_short:
  "length (batch @ ls) < BATCH_SIZE \<Longrightarrow> run_lines tp deps i p batch ls = return_io (Some (batch @ ls))"
  by (induction ls arbitrary: batch) auto

lemma run_lines_first:
  assumes "length batch < BATCH_SIZE" "BATCH_SIZE \<le> length (batch @ ls)"
  shows "run_lines tp deps i p batch ls =
    bind_io (flush tp deps i p (take BATCH_SIZE (batch @ ls))) (\<lambda>continue.
      if continue then run_lines tp deps i p [] (drop BATCH_SIZE (batch @ ls)) else return_io None)"
  using assms
proof (induction ls arbitrary: batch)
  case (Cons l ls)
  show ?case
  proof (cases "BATCH_SIZE \<le> length (batch @ [l])")
    case True
    with Cons.prems(1) have n: "BATCH_SIZE = length (batch @ [l])" by simp
    have td: "take BATCH_SIZE (batch @ l # ls) = batch @ [l]" "drop BATCH_SIZE (batch @ l # ls) = ls"
      unfolding n by simp_all
    show ?thesis unfolding td using True by simp
  next
    case False
    then have "run_lines tp deps i p batch (l # ls) = run_lines tp deps i p (batch @ [l]) ls" by simp
    also have "\<dots> = bind_io (flush tp deps i p (take BATCH_SIZE ((batch @ [l]) @ ls))) (\<lambda>continue.
        if continue then run_lines tp deps i p [] (drop BATCH_SIZE ((batch @ [l]) @ ls)) else return_io None)"
      using False Cons.prems(2) by (intro Cons.IH) auto
    finally show ?thesis by (simp only: append.assoc append.simps)
  qed
qed simp

text \<open>A flush that stops the run ends it, whether the batch is full or the last one.\<close>

lemma run_stops:
  assumes "flush tp (buildImportProcessor tp cfg) (jb_import job) (jb_provider job) (take BATCH_SIZE ls) w = (Inr False, w')"
  shows "run_open tp cfg job ls w = (Inr (), w')"
proof (cases "BATCH_SIZE \<le> length ls")
  case True
  have "0 < BATCH_SIZE" by (simp add: BATCH_SIZE_def)
  with True run_lines_first [where batch = "[]" and ls = ls] assms
  have "run_lines tp (buildImportProcessor tp cfg) (jb_import job) (jb_provider job) [] ls w = (Inr None, w')"
    by (simp add: bind_io_apply)
  then show ?thesis by (simp add: run_open_def)
next
  case False
  with assms show ?thesis by (simp add: run_open_def run_lines_short)
qed

lemma stopping_process:
  assumes "still (True, q, False, st) tp job k w" "short_lines (jb_bytes job)" "st \<in> {Pending, Processing}"
    and "classify_all tp (file_lines (jb_bytes job)) = Inr all" "list_all (storable tp) all"
    and "tp_range tp (offset_after (jb_bytes job) k) (int (length (jb_bytes job)))"
    and "k < length (file_lines (jb_bytes job))"
  shows "\<exists>w'. process tp (buildImportProcessor tp cfg) (jb_import job) w = (Inr (), w') \<and>
    still (True, q @ [jb_import job], False, Processing) tp job
      (min (k + BATCH_SIZE) (length (file_lines (jb_bytes job)))) w'"
proof -
  let ?L = "file_lines (jb_bytes job)" and ?deps = "buildImportProcessor tp cfg"
  let ?b = "min BATCH_SIZE (length ?L - k)"
  from still_process [OF assms(1,2,3,6)] obtain w1 where
    p: "process tp ?deps (jb_import job) w = run_open tp cfg job (drop k ?L) w1"
      "still (True, q, False, Processing) tp job k w1" by blast
  have b: "0 < ?b" "k + ?b \<le> length ?L" "k + ?b = min (k + BATCH_SIZE) (length ?L)"
    using assms(7) unfolding BATCH_SIZE_def by linarith+
  have "take BATCH_SIZE (drop k ?L) = take ?b (drop k ?L)" by (simp add: min_def)
  from still_flush [OF p(2) assms(2) b(2) assms(4,5) this b(1)] obtain w2 where
    f: "flush tp ?deps (jb_import job) (jb_provider job) (take BATCH_SIZE (drop k ?L)) w1 =
        after_batch ?deps (jb_import job) w2" "still (True, q, False, Processing) tp job (k + ?b) w2" by blast
  from stopping_after_batch [OF f(2)] obtain w3 where
    "after_batch ?deps (jb_import job) w2 = (Inr False, w3)"
    "still (True, q @ [jb_import job], False, Processing) tp job (k + ?b) w3" by blast
  with p(1) f(1) run_stops show ?thesis unfolding b(3) by metis
qed

lemma still_recorded:
  assumes "still v tp job k w"
  shows "\<exists>r. find_import (jb_import job) (w_db w) = Some r \<and> view_of w r = v \<and>
    im_checkpointLineNumber r = int k \<and> recorded tp job (take k (file_lines (jb_bytes job))) r (w_db w)"
proof -
  from assms obtain r where r: "find_import (jb_import job) (w_db w) = Some r" "view_of w r = v"
    "progress tp job k (w_db w) (w_objects w)" unfolding still_def by blast
  from r(3) have "im_checkpointLineNumber r = int k \<and>
      recorded tp job (take k (file_lines (jb_bytes job))) r (w_db w)"
    by (rule progressE) (use r(1) in auto)
  with r(1,2) show ?thesis by blast
qed

section \<open>A settled import\<close>

text \<open>Everything a run can do besides the statements on the row.\<close>

definition same_outputs :: "world \<Rightarrow> world \<Rightarrow> bool" where
  "same_outputs v w \<longleftrightarrow> w_objects w = w_objects v \<and> w_queue w = w_queue v \<and>
     w_counters w = w_counters v \<and> w_gauges w = w_gauges v \<and> w_histograms w = w_histograms v"

lemma same_outputs_query: "keeps (same_outputs v) (db_query tp f)"
  unfolding db_query_def
  by (rule keeps_call_tick) (simp_all add: same_outputs_def next_tick_same)

lemma settled_process:
  assumes "im_status r \<notin> {Pending, Processing}" "pd_findById deps = findById tp"
  shows "keeps (\<lambda>w. row.holds i r w \<and> same_outputs v w) (process tp deps i)"
proof (rule keepsI)
  fix w assume w: "row.holds i r w \<and> same_outputs v w"
  obtain res w1 where q: "db_query tp (find_import i) w = (res, w1)" by (metis surj_pair)
  from w q have w1: "row.holds i r w1 \<and> same_outputs v w1"
    using keepsD' [OF row.keeps_db_query _ q] keepsD' [OF same_outputs_query _ q] by blast
  show "row.holds i r (snd (process tp deps i w)) \<and> same_outputs v (snd (process tp deps i w))"
  proof (cases res)
    case (Inl e)
    with w1 q assms(2) show ?thesis by (simp add: process_def findById_def)
  next
    case (Inr x)
    from triple_InrD [OF row.triple_db_query [where Q = "\<lambda>x. x = Some r"] _ q [unfolded Inr]] w
    have "x = Some r" by (auto simp: row.holds_def)
    with w1 q Inr assms show ?thesis by (simp add: process_def findById_def)
  qed
qed

lemma settled_deliveries:
  assumes "im_status r \<notin> {Pending, Processing}"
  shows "keeps (\<lambda>w. row.holds i r w \<and> same_outputs v w) (deliveries tp (buildImportProcessor tp cfg) i n)"
proof (induction n)
  case (Suc n)
  then show ?case
    using settled_process [OF assms, where deps = "buildImportProcessor tp cfg" and tp = tp]
    by (auto intro!: keeps_intros)
qed (simp add: keeps_def)

section \<open>Properties\<close>

text \<open>C7. Idempotence against redelivery: once an import is neither pending nor processing, no
  number of deliveries of its job, with whatever failures and other actors (that leave this
  import alone), changes its row, stores or enqueues anything, or touches a metric.\<close>

theorem settled_is_not_reprocessed:
  assumes "find_import i (w_db w) = Some r" "im_status r \<notin> {Pending, Processing}"
    and "list_all (\<lambda>t. list_all (\<lambda>a. \<not> touches i a) (tk_actions t)) (w_schedule w)"
    and "deliveries tp (buildImportProcessor tp cfg) i n w = (res, w')"
  shows "find_import i (w_db w') = Some r \<and> same_outputs w w'"
proof -
  have "row.holds i r w \<and> same_outputs w w" using assms(1,3) by (simp add: row.holds_def same_outputs_def)
  from keepsD' [OF settled_deliveries [OF assms(2)] this assms(4)] show ?thesis
    by (simp add: row.holds_def)
qed



definition serves_any_range :: third_party where
  "serves_any_range = no_third_party\<lparr>tp_range := \<lambda>offset size. True\<rparr>"

lemma sample_served:
  "classify_all serves_any_range (file_lines (jb_bytes sample_job)) = Inr [sample_class]"
  "list_all (storable serves_any_range) [sample_class]"
  "progress serves_any_range sample_job 0 (w_db sample_world) (w_objects sample_world)"
proof -
  have "classify serves_any_range (line_of 3 1 [0x5b, 0x5d]) = Inr sample_class"
    unfolding sample_class_def by code_simp
  then show "classify_all serves_any_range (file_lines (jb_bytes sample_job)) = Inr [sample_class]"
    by (simp add: sample_job_lines)
  show "list_all (storable serves_any_range) [sample_class]"
    by (simp add: storable_def sample_class_def serves_any_range_def)
  show "progress serves_any_range sample_job 0 (w_db sample_world) (w_objects sample_world)"
    by (rule fresh_progress [where r = one_import_row and f = sample_file])
      (simp_all add: sample_world_def sample_job_def find_import_def one_import_db_def one_import_row_def empty_db_def
        counters_ok_def transactions_of_import_def rejected_of_import_def find_file_def sample_file_def file_row_of_def)
qed


text \<open>When the batch of the shutdown was the last one, the checkpoint is at the end of the file.  A
  store that refuses a range starting there (as S3 does) makes the next worker mark the import
  failed, although every line is recorded.\<close>

lemma refused_process:
  assumes "still (s, q, False, st) tp job k w" "st \<in> {Pending, Processing}"
    and "\<not> tp_range tp (offset_after (jb_bytes job) k) (int (length (jb_bytes job)))"
  shows "\<exists>w'. process tp (buildImportProcessor tp cfg) (jb_import job) w = (Inr (), w') \<and>
    still (s, q, False, Failed) tp job k w'"
proof -
  let ?i = "jb_import job" and ?deps = "buildImportProcessor tp cfg" and ?off = "offset_after (jb_bytes job) k"
  let ?w1 = "snd (incrementGauge ''active_imports'' w)"
  from assms(1) obtain row where q: "w_schedule w = []" "progress tp job k (w_db w) (w_objects w)"
    "find_import ?i (w_db w) = Some row" "view_of w row = (s, q, False, st)"
    unfolding still_def by blast
  from q(2) obtain f where f: "im_checkpointOffset row = ?off" "find_file ?i (w_db w) = Some f"
    "uf_storageKey f = jb_storageKey job"
    by (rule progressE) (use q(3) in auto)
  have g: "incrementGauge ''active_imports'' w = (Inr (), ?w1)" "w_db ?w1 = w_db w" "w_schedule ?w1 = []"
    using q(1) by (simp_all add: incrementGauge_def)
  have "still (s, q, False, st) tp job k ?w1" using still_gauge(1) assms(1) by (blast dest: keepsD)
  from still_markProcessing [OF this] obtain r2 w2 where
    m: "markProcessing tp ?i ?w1 = (Inr (Some r2), w2)" and c2: "still (s, q, False, Processing) tp job k w2" by blast
  have "map_of (w_objects w2) (jb_storageKey job) = Some (jb_bytes job)" "w_schedule w2 = []"
    using c2 by (auto simp: still_def elim: progressE)
  then have rd: "minio_read tp (jb_storageKey job) ?off w2 = (Inl StorageError, w2)"
    using assms(3) by (simp add: minio_read_def quiet_call)
  from still_markFailed [OF c2] obtain w3 where
    mf: "markFailed tp ?i ''Failed to read uploaded file'' w2 = (Inr (), w3)" "still (s, q, False, Failed) tp job k w3"
    by blast
  obtain w4 where w4: "finish ''failed'' w3 = (Inr (), w4)" "w_db w4 = w_db w3" "w_queue w4 = w_queue w3"
    "w_objects w4 = w_objects w3" "w_schedule w4 = w_schedule w3" "w_shuttingDown w4 = w_shuttingDown w3"
    using finish_frame [of "''failed''" w3] by auto
  have "process_file tp ?deps ?i row f ?w1 = (Inr (), w4)"
    using m rd mf(1) w4(1) f by (simp add: process_file_def)
  then have "process tp ?deps ?i w = (Inr (), w4)"
    using q assms(2) g f by (auto simp: process_def findById_def getUploadedFile_def view_of_def)
  moreover have "still (s, q, False, Failed) tp job k w4" using mf(2) w4 by (simp add: still_def view_of_def)
  ultimately show ?thesis by blast
qed

theorem paused_at_the_end_fails:
  assumes "still (True, q, False, st) tp job k w" "short_lines (jb_bytes job)"
    and "classify_all tp (file_lines (jb_bytes job)) = Inr cs" "list_all (storable tp) cs"
    and "tp_range tp (offset_after (jb_bytes job) k) (int (length (jb_bytes job)))"
    and "k < length (file_lines (jb_bytes job))" "length (file_lines (jb_bytes job)) \<le> k + BATCH_SIZE"
    and "\<not> tp_range tp (offset_after (jb_bytes job) (length (file_lines (jb_bytes job)))) (int (length (jb_bytes job)))"
    and "st \<in> {Pending, Processing}"
  shows "\<exists>w' w'' r. process tp (buildImportProcessor tp cfg) (jb_import job) w = (Inr (), w') \<and>
    process tp (buildImportProcessor tp cfg) (jb_import job) (w'\<lparr>w_shuttingDown := False\<rparr>) = (Inr (), w'') \<and>
    find_import (jb_import job) (w_db w'') = Some r \<and> im_status r = Failed \<and>
    recorded tp job (file_lines (jb_bytes job)) r (w_db w'')"
proof -
  let ?n = "length (file_lines (jb_bytes job))"
  from stopping_process [OF assms(1,2) assms(9) assms(3,4,5,6)] obtain w1 where
    p: "process tp (buildImportProcessor tp cfg) (jb_import job) w = (Inr (), w1)"
      "still (True, q @ [jb_import job], False, Processing) tp job ?n w1"
    unfolding min_absorb2 [OF assms(7)] by blast
  from p(2) have "still (False, q @ [jb_import job], False, Processing) tp job ?n (w1\<lparr>w_shuttingDown := False\<rparr>)"
    by (auto simp: still_def view_of_def)
  from refused_process [OF this _ assms(8)] obtain w2 where
    "process tp (buildImportProcessor tp cfg) (jb_import job) (w1\<lparr>w_shuttingDown := False\<rparr>) = (Inr (), w2)"
    "still (False, q @ [jb_import job], False, Failed) tp job ?n w2" by auto
  with still_recorded [OF this(2)] p(1) show ?thesis by (auto simp: view_of_def)
qed

theorem paused_at_the_end_fails_witness:
  "\<exists>w' w'' r. process no_third_party (buildImportProcessor no_third_party default_retry) (js ''0'')
        (sample_world\<lparr>w_shuttingDown := True\<rparr>) = (Inr (), w') \<and>
      process no_third_party (buildImportProcessor no_third_party default_retry) (js ''0'')
        (w'\<lparr>w_shuttingDown := False\<rparr>) = (Inr (), w'') \<and>
      find_import (js ''0'') (w_db w'') = Some r \<and> im_status r = Failed \<and>
      recorded no_third_party sample_job (file_lines (jb_bytes sample_job)) r (w_db w'')"
proof -
  have "find_import (jb_import sample_job) (w_db sample_world) = Some one_import_row"
    by (simp add: sample_world_def sample_job_def find_import_def one_import_db_def one_import_row_def)
  then have s: "still (True, [], False, Pending) no_third_party sample_job 0 (sample_world\<lparr>w_shuttingDown := True\<rparr>)"
    using sample_progress by (simp add: still_def view_of_def one_import_row_def)
      (simp add: sample_world_def world_of_def)
  have n: "length (file_lines (jb_bytes sample_job)) = 1" by (simp add: sample_job_lines(1))
  have r: "tp_range no_third_party (offset_after (jb_bytes sample_job) 0) (int (length (jb_bytes sample_job)))"
    "\<not> tp_range no_third_party (offset_after (jb_bytes sample_job) (length (file_lines (jb_bytes sample_job))))
       (int (length (jb_bytes sample_job)))"
    unfolding n by (simp_all add: offset_after_def sample_job_lines(1)) (simp_all add: sample_job_def line_of_def)
  have i: "jb_import sample_job = js ''0''" by (simp add: sample_job_def)
  from paused_at_the_end_fails [OF s sample_job_lines(2) sample_classes sample_storable r(1) _ _ r(2), of default_retry]
  show ?thesis unfolding n i by (simp add: BATCH_SIZE_def)
qed

definition cancel_requested_world :: world where
  "cancel_requested_world = sample_world
     \<lparr>w_db := (w_db sample_world)\<lparr>db_imports := [one_import_row\<lparr>im_status := Cancelling, im_cancelRequested := True\<rparr>]\<rparr>\<rparr>"


theorem settled_is_not_reprocessed_witness:
  "\<exists>res w'. deliveries no_third_party (buildImportProcessor no_third_party default_retry) (js ''0'') 3 finished_world =
     (res, w') \<and> find_import (js ''0'') (w_db w') = Some (one_import_row\<lparr>im_status := Completed\<rparr>)"
proof -
  have f: "find_import (js ''0'') (w_db finished_world) = Some (one_import_row\<lparr>im_status := Completed\<rparr>)"
    by (simp add: finished_world_def find_import_def one_import_row_def)
  obtain res w' where d: "deliveries no_third_party (buildImportProcessor no_third_party default_retry) (js ''0'') 3
      finished_world = (res, w')" by (metis surj_pair)
  from settled_is_not_reprocessed [OF f _ _ d] have "find_import (js ''0'') (w_db w') =
      Some (one_import_row\<lparr>im_status := Completed\<rparr>)" by (simp add: finished_world_def)
  with d show ?thesis by blast
qed

text \<open>The guard also skips \<open>cancelling\<close>, which is where a cancellation puts a pending import: no
  delivery ever takes it to \<open>cancelled\<close>.\<close>

theorem cancelled_pending_is_stuck:
  assumes "find_import i (w_db w) = Some r" "im_status r = Pending" "w_schedule w = []"
  shows "\<exists>r' w'. cancelImport (buildImportService tp) i w = (Inr r', w') \<and> im_status r' = Cancelling \<and>
    (\<forall>n. find_import i (w_db (snd (deliveries tp (buildImportProcessor tp cfg) i n w'))) = Some r')"
proof -
  obtain d where u: "update_import i cancelling (w_db w) = Inr (cancelling r, d)"
    using assms(1) by (auto simp: update_import_def)
  have id: "im_id (cancelling x) = im_id x" for x by (simp add: cancelling_def)
  let ?w = "w\<lparr>w_db := d\<rparr>"
  have f: "find_import i d = Some (cancelling r)" using find_import_update [OF u id] by simp
  have c: "cancelImport (buildImportService tp) i w = (Inr (cancelling r), ?w)"
    using assms u by (simp add: cancelImport_def requestCancellation_def bind_io_apply quiet_db_call)
  have st: "im_status (cancelling r) \<notin> {Pending, Processing}" by (simp add: cancelling_def)
  have "row.holds i (cancelling r) ?w \<and> same_outputs ?w ?w"
    using f assms(3) by (simp add: row.holds_def same_outputs_def)
  from keepsD [OF settled_deliveries [OF st] this]
  have "find_import i (w_db (snd (deliveries tp (buildImportProcessor tp cfg) i n ?w))) = Some (cancelling r)" for n
    by (simp add: row.holds_def)
  with c show ?thesis by (auto simp: cancelling_def)
qed

theorem cancelled_pending_is_stuck_witness:
  "\<exists>r' w'. cancelImport (buildImportService no_third_party) (js ''0'') created_world = (Inr r', w') \<and>
     im_status r' = Cancelling \<and>
     (\<forall>n. find_import (js ''0'') (w_db (snd (deliveries no_third_party
        (buildImportProcessor no_third_party default_retry) (js ''0'') n w'))) = Some r')"
  by (rule cancelled_pending_is_stuck [of _ _ created_row])
    (use created_world_facts in \<open>simp_all add: created_row_def one_import_row_def\<close>)

end
