(* ===== verification/System.thy ===== *)
theory System
  imports Pause
begin

text \<open>
  The system as \<open>server.ts\<close> and \<open>worker.ts\<close> put it together: the HTTP server calls
  \<open>createImport\<close> and \<open>cancelImport\<close>, BullMQ hands the jobs of the queue to \<open>processor.process\<close>
  (the callback of the \<open>Worker\<close> in \<open>worker.ts\<close>), and processes stop and start.  A step of
  \<open>system_step\<close> is one of these operations, run over any schedule of statements that the other
  requests and workers make meanwhile; which operation comes next is open, so an execution is
  any order of uploads, cancellations, deliveries and restarts.

  The queue follows the options of \<open>imports.jobQueue.ts\<close> and BullMQ's documentation: a job is
  taken out when it is delivered; it is gone when \<open>process\<close> returns (\<open>removeOnComplete\<close>), kept
  with the failed jobs when it throws (\<open>attempts: 1\<close>, \<open>removeOnFail: false\<close>), and delivered again
  or failed when its worker stalls or dies, whatever that worker has done by then.  What an
  administrator does to jobs by hand, on the dashboard, is left out.  A job is
  held by one worker at a time: the others leave the import in hand alone, up to cancelling it.

  The locale \<open>bystander\<close> states what an assertion about one import must stand for the other
  operations to keep it.  \<open>Executions\<close> has the properties.
\<close>

section \<open>Steps\<close>

record system =
  sy_world :: world
  sy_failed :: "jsstring list"    \<comment> \<open>the failed jobs BullMQ keeps\<close>

text \<open>What the others do while an operation runs, seen from the import \<open>i\<close>.\<close>

definition harmless :: "jsstring \<Rightarrow> env_action \<Rightarrow> bool" where
  "harmless i a \<longleftrightarrow> leaves i a \<and> consistent_action a"

definition meanwhile :: "jsstring \<Rightarrow> tick list \<Rightarrow> bool" where
  "meanwhile i ts \<longleftrightarrow> list_all (\<lambda>t. list_all (harmless i) (tk_actions t)) ts"

text \<open>A delivery: the job leaves the waiting list, \<open>process\<close> runs.\<close>

definition deliver_job ::
  "third_party \<Rightarrow> retry_config \<Rightarrow> tick list \<Rightarrow> jsstring list \<Rightarrow> jsstring \<Rightarrow> world \<Rightarrow> (exn + unit) \<times> world" where
  "deliver_job tp cfg ts waiting j w =
     process tp (buildImportProcessor tp cfg) j (w\<lparr>w_queue := waiting, w_schedule := ts\<rparr>)"

inductive system_step ::
  "third_party \<Rightarrow> retry_config \<Rightarrow> jsstring \<Rightarrow> system \<Rightarrow> system \<Rightarrow> bool"
  for tp :: third_party and cfg :: retry_config and i :: jsstring where
  Upload: "meanwhile i ts \<Longrightarrow>
    createImport (buildImportService tp) p (sy_world s\<lparr>w_schedule := ts\<rparr>) = (res, w') \<Longrightarrow>
    system_step tp cfg i s (s\<lparr>sy_world := w'\<rparr>)"
| Cancel: "meanwhile i ts \<Longrightarrow>
    cancelImport (buildImportService tp) j (sy_world s\<lparr>w_schedule := ts\<rparr>) = (res', w') \<Longrightarrow>
    system_step tp cfg i s (s\<lparr>sy_world := w'\<rparr>)"
| Job_Done: "meanwhile i ts \<Longrightarrow> w_queue (sy_world s) = q @ j # q' \<Longrightarrow>
    deliver_job tp cfg ts (q @ q') j (sy_world s) = (Inr (), w') \<Longrightarrow>
    system_step tp cfg i s (s\<lparr>sy_world := w'\<rparr>)"
| Job_Failed: "meanwhile i ts \<Longrightarrow> w_queue (sy_world s) = q @ j # q' \<Longrightarrow>
    deliver_job tp cfg ts (q @ q') j (sy_world s) = (Inl e, w') \<Longrightarrow>
    system_step tp cfg i s (s\<lparr>sy_world := w', sy_failed := sy_failed s @ [j]\<rparr>)"
| Job_Stalled: "meanwhile i ts \<Longrightarrow> w_queue (sy_world s) = q @ j # q' \<Longrightarrow>
    deliver_job tp cfg ts (q @ q') j (sy_world s) = (res'', w') \<Longrightarrow>
    system_step tp cfg i s (s\<lparr>sy_world := w'\<lparr>w_queue := w_queue w' @ [j]\<rparr>\<rparr>)"
| Job_Stalled_Too_Often: "meanwhile i ts \<Longrightarrow> w_queue (sy_world s) = q @ j # q' \<Longrightarrow>
    deliver_job tp cfg ts (q @ q') j (sy_world s) = (res'', w') \<Longrightarrow>
    system_step tp cfg i s (s\<lparr>sy_world := w', sy_failed := sy_failed s @ [j]\<rparr>)"
| Stop: "system_step tp cfg i s (s\<lparr>sy_world := sy_world s\<lparr>w_shuttingDown := True\<rparr>\<rparr>)"
| Start: "system_step tp cfg i s (s\<lparr>sy_world := sy_world s\<lparr>w_shuttingDown := False\<rparr>\<rparr>)"

inductive_cases system_stepE: "system_step tp cfg i s s'"

text \<open>The states an execution reaches.\<close>

inductive execution ::
  "third_party \<Rightarrow> retry_config \<Rightarrow> jsstring \<Rightarrow> system \<Rightarrow> system \<Rightarrow> bool"
  for tp :: third_party and cfg :: retry_config and i :: jsstring where
  begins: "execution tp cfg i s s"
| step: "execution tp cfg i s s' \<Longrightarrow> system_step tp cfg i s' s'' \<Longrightarrow> execution tp cfg i s s''"

lemma execution_trans: "execution tp cfg i s' s'' \<Longrightarrow> execution tp cfg i s s' \<Longrightarrow> execution tp cfg i s s''"
  by (induction rule: execution.induct) (auto intro: execution.step)

lemma execution_one: "system_step tp cfg i s s' \<Longrightarrow> execution tp cfg i s s'"
  by (blast intro: execution.intros)

lemma execution_keeps:
  assumes "execution tp cfg i s s'" "I s" "\<And>s s'. I s \<Longrightarrow> system_step tp cfg i s s' \<Longrightarrow> I s'"
  shows "I s'"
  using assms(1,2) by (induction rule: execution.induct) (auto intro: assms(3))

section \<open>Bystanders\<close>

text \<open>An assertion about one import that the requests, the batches of the other imports and the
  changes of status of the other imports keep.  Every operation of the system but the delivery
  of the import's own job keeps it.\<close>

locale bystander = environment +
  fixes i :: jsstring
  assumes requests: "allowed (Cancel_Import j)" "allowed (Create_Import k p)" "allowed (Attach_File f)"
    and batches: "j \<noteq> i \<Longrightarrow> batch_ok input \<Longrightarrow> allowed (Commit_Batch j input)"
    and marks: "P d obs \<Longrightarrow> j \<noteq> i \<Longrightarrow> identity_kept g \<Longrightarrow> status_only g \<Longrightarrow>
      update_import j g d = Inr (r, d') \<Longrightarrow> P d' obs"
    and uploads: "P d obs \<Longrightarrow> create_import tp now k p d = Inr (r, d') \<Longrightarrow> P d2 obs2 \<Longrightarrow>
      P d2 ((storage_key (im_id r) uuid, bs) # obs2)"
begin

lemma commits: "P d obs \<Longrightarrow> j \<noteq> i \<Longrightarrow> batch_ok input \<Longrightarrow> commit_batch_tx tp now j input d = Inr (res, d') \<Longrightarrow> P d' obs"
  using stable [OF batches, of j input d obs now] by (simp add: run_tx_def)

lemma cancels: "P d obs \<Longrightarrow> update_import j cancelling d = Inr (r, d') \<Longrightarrow> P d' obs"
  using stable [OF requests(1), of d obs now j] by (simp add: run_tx_def)

lemma creates: "P d obs \<Longrightarrow> create_import tp now k p d = Inr (r, d') \<Longrightarrow> P d' obs"
  using stable [OF requests(2), of d obs now k p] by (simp add: run_tx_def)

lemma attaches: "P d obs \<Longrightarrow> create_file tp f d = Inr (x, d') \<Longrightarrow> P d' obs"
  using stable [OF requests(3), of d obs now f] by (simp add: run_tx_def)

lemma keeps_cancelImport: "keeps holds (cancelImport (buildImportService tp) j)"
  unfolding cancelImport_def buildImportService_simps requestCancellation_def
  by (intro keeps_intros keeps_world keeps_db_call) (rule cancels)

lemma keeps_createImport: "keeps holds (createImport (buildImportService tp) p)"
proof -
  let ?Q = "\<lambda>x :: import_row option. \<forall>r. x = Some r \<longrightarrow> (\<forall>d obs uuid bs. P d obs \<longrightarrow> P d ((storage_key (im_id r) uuid, bs) # obs))"
  have create: "keeps holds (createPendingImport tp k q)" for k q
    unfolding createPendingImport_def
    by (intro keeps_intros keeps_db_call) (rule creates)
  have attach: "keeps holds (attachUploadedFile tp j f)" for j f
    unfolding attachUploadedFile_def by (intro keeps_db_call) (rule attaches)
  show ?thesis
    unfolding createImport_def buildImportService_simps findByIdempotencyKey_def
  proof (rule keeps_bind_result [OF create, where Q = ?Q])
    fix w x w' assume w: "holds w" "createPendingImport tp (cp_idempotencyKey p) (cp_providerId p) w = (Inr x, w')"
    show "?Q x"
    proof (intro allI impI)
      fix r d obs uuid bs assume x: "x = Some r" "P d obs"
      with w(2) have "db_call tp (\<lambda>now. create_import tp now (cp_idempotencyKey p) (cp_providerId p)) w = (Inr r, w')"
        by (auto simp: createPendingImport_def catch_io_apply bind_io_apply split: prod.splits sum.splits if_splits)
      then show "P d ((storage_key (im_id r) uuid, bs) # obs)"
      proof (rule db_call_InrE)
        fix t v d1
        assume n: "next_tick tp w = (t, v)" and
          c: "create_import tp (w_now v) (cp_idempotencyKey p) (cp_providerId p) (w_db v) = Inr (r, d1)"
        from holds_tick [OF w(1) n] have "P (w_db v) (w_objects v)" by (simp add: holds_def)
        from uploads [OF this c x(2)] show ?thesis .
      qed
    qed
  qed (intro keeps_intros keeps_world attach keeps_minio_store, blast)
qed

end

sublocale bystander \<subseteq> aside: worker tp allowed "\<lambda>d obs. j \<noteq> i \<and> P d obs" j for j
proof
  show "allowed a \<Longrightarrow> j \<noteq> i \<and> P d obs \<Longrightarrow> j \<noteq> i \<and> P (action_db tp now a d) obs" for a d obs now
    by (blast intro: stable)
  show "j \<noteq> i \<and> P d obs \<Longrightarrow> identity_kept f \<Longrightarrow> status_only f \<Longrightarrow> update_import j f d = Inr (r, d') \<Longrightarrow>
      j \<noteq> i \<and> P d' obs" for d obs f r d'
    by (blast intro: marks)
  show "j \<noteq> i \<and> P d obs \<Longrightarrow> batch_ok input \<Longrightarrow> commit_batch_tx tp now j input d = Inr (res, d') \<Longrightarrow>
      j \<noteq> i \<and> P d' obs" for d obs input now res d'
    by (blast intro: commits)
qed

context bystander
begin

lemma keeps_delivery:
  assumes "j \<noteq> i" "holds w"
  shows "holds (snd (process tp (buildImportProcessor tp cfg) j w))"
proof -
  have "aside.holds j w" using assms by (simp add: aside.holds_def holds_def)
  with aside.keeps_run have "aside.holds j (snd (process tp (buildImportProcessor tp cfg) j w))" by (rule keepsD)
  then show ?thesis by (simp add: aside.holds_def holds_def)
qed

end

section \<open>Settled imports\<close>

definition has_row :: "jsstring \<Rightarrow> db \<Rightarrow> bool" where
  "has_row i d \<longleftrightarrow> find_import i d \<noteq> None"

definition settled :: "jsstring \<Rightarrow> db \<Rightarrow> bool" where
  "settled i d \<longleftrightarrow> (\<exists>r. find_import i d = Some r \<and> im_status r \<notin> {Pending, Processing})"

lemma settled_has_row: "settled i d \<Longrightarrow> has_row i d"
  by (auto simp: settled_def has_row_def)

lemma has_row_map:
  assumes "db_imports d' = map (\<lambda>r. if im_id r = j then g r else r) (db_imports d)" "identity_kept g"
  shows "has_row i d' \<longleftrightarrow> has_row i d"
proof -
  have "find_import i d' = map_option (\<lambda>r. if im_id r = j then g r else r) (find_import i d)"
    unfolding find_import_def assms(1)
    by (intro find_cong_map) (use assms(2) in \<open>simp add: identity_kept_def\<close>)
  then show ?thesis by (simp add: has_row_def)
qed

lemma has_row_update:
  assumes "update_import j g d = Inr (r, d')" "identity_kept g"
  shows "has_row i d' \<longleftrightarrow> has_row i d"
  using assms(1) by (rule update_import_InrE) (rule has_row_map [where j = j, OF _ assms(2)], simp)

lemma has_row_commit:
  assumes "commit_batch_tx tp now j input d = Inr (res, d')"
  shows "has_row i d' \<longleftrightarrow> has_row i d"
  using assms
proof (cases rule: commit_batch_txE)
  case (committed cur rs rows)
  show ?thesis by (rule has_row_map [OF committed(9)]) simp
qed simp

lemma has_row_create:
  "create_import tp now k p d = Inr (r, d') \<Longrightarrow> has_row i d \<Longrightarrow> has_row i d'"
  "create_file tp f d = Inr (x, d') \<Longrightarrow> has_row i d \<Longrightarrow> has_row i d'"
  by (auto simp: has_row_def create_file_other [where i = i] dest: create_import_other)

lemma settled_cancel:
  assumes "update_import i cancelling d = Inr (r, d')"
  shows "settled i d'"
proof -
  obtain r0 where "find_import i d = Some r0" "r = cancelling r0"
    using assms by (rule update_import_InrE)
  moreover have "im_id (cancelling x) = im_id x" for x by (simp add: cancelling_def)
  ultimately show ?thesis
    using find_import_update [OF assms] by (simp add: settled_def cancelling_def)
qed

lemma settled_action:
  assumes "harmless i a" "settled i d"
  shows "settled i (action_db tp now a d)"
proof (cases "touches i a")
  case True
  with assms(1) have "a = Cancel_Import i" by (simp add: harmless_def leaves_def)
  with assms(2) show ?thesis
    by (cases "update_import i cancelling d") (auto simp: run_tx_def intro: settled_cancel)
next
  case False
  from assms(2) obtain r where "find_import i d = Some r" "im_status r \<notin> {Pending, Processing}"
    unfolding settled_def by blast
  with action_other [OF False this(1)] show ?thesis unfolding settled_def by blast
qed

lemma harmless_requests:
  "harmless i (Cancel_Import j)" "harmless i (Create_Import k p)" "harmless i (Attach_File f)"
  "j \<noteq> i \<Longrightarrow> batch_ok input \<Longrightarrow> harmless i (Commit_Batch j input)"
  by (simp_all add: harmless_def leaves_def)

interpretation settling: bystander tp "harmless i" "\<lambda>d obs. settled i d" i for tp i
proof
  show "settled i d \<Longrightarrow> j \<noteq> i \<Longrightarrow> identity_kept g \<Longrightarrow> status_only g \<Longrightarrow> update_import j g d = Inr (r, d') \<Longrightarrow>
      settled i d'" for d j g r d'
    using update_other [of j g d r d' i] by (simp add: settled_def)
qed (simp_all add: harmless_requests settled_action)

interpretation present: bystander tp "harmless i" "\<lambda>d obs. has_row i d" i for tp i
proof
  show "has_row i d \<Longrightarrow> has_row i (action_db tp now a d)" for now a d
    by (cases a) (auto simp: run_tx_def has_row_update has_row_commit dest: has_row_create split: sum.splits)
qed (simp_all add: harmless_requests has_row_update)

interpretation own: worker tp "harmless i" "\<lambda>d obs. has_row i d" i for tp i
  by unfold_locales (simp_all add: has_row_update has_row_commit)

section \<open>Queued jobs\<close>

text \<open>Running operations only add to the queue, and a run of the worker only the job it works on.\<close>

definition on_queue :: "(jsstring list \<Rightarrow> bool) \<Rightarrow> world \<Rightarrow> bool" where
  "on_queue Q w \<longleftrightarrow> Q (w_queue w)"

lemma on_queue_calls:
  "keeps (on_queue Q) (db_query tp f)" "keeps (on_queue Q) (db_call tp g)" "keeps (on_queue Q) (minio_store tp key bs)"
  "keeps (on_queue Q) (minio_read tp key off)" "keeps (on_queue Q) (piscina_scoreBatch tp inputs)"
  unfolding db_query_def db_call_def minio_store_def minio_read_def piscina_scoreBatch_def
  by (rule keeps_call_tick; simp add: on_queue_def next_tick_same split: sum.split option.split)+

lemma on_queue_enqueue: "(\<And>q. Q q \<Longrightarrow> Q (q @ [i])) \<Longrightarrow> keeps (on_queue Q) (enqueueImportProcessing tp i)"
  unfolding enqueueImportProcessing_def by (rule keeps_call_tick) (simp_all add: on_queue_def next_tick_same)

lemma on_queue_process:
  "keeps (on_queue Q) isShuttingDown" "keeps (on_queue Q) (incrementCounter name labels v)"
  "keeps (on_queue Q) (incrementGauge name)" "keeps (on_queue Q) (decrementGauge name)"
  "keeps (on_queue Q) (observeHistogram name labels)" "keeps (on_queue Q) (generate tp)"
  unfolding isShuttingDown_def generate_def incrementCounter_def incrementGauge_def decrementGauge_def observeHistogram_def
  by (intro keeps_intros; simp add: on_queue_def)+

lemma on_queue_sleep: "keeps (on_queue Q) (sleep tp ms)"
  by (rule keepsI) (simp add: sleep_def on_queue_def next_tick_same split: prod.split)

lemmas on_queue_intros = keeps_intros on_queue_calls on_queue_process on_queue_sleep

lemma on_queue_finish: "keeps (on_queue Q) (finish outcome)"
  unfolding finish_def by (intro on_queue_intros)

lemma on_queue_marks:
  "keeps (on_queue Q) (markProcessing tp i)" "keeps (on_queue Q) (markCompleted tp i)"
  "keeps (on_queue Q) (markFailed tp i reason)" "keeps (on_queue Q) (markCancelled tp i)"
  unfolding markProcessing_def markCompleted_def markFailed_def markCancelled_def update_now_def
  by (intro on_queue_intros)+

lemma on_queue_commitBatch: "keeps (on_queue Q) (commitBatch tp cfg i input)"
  unfolding commitBatch_def commitBatchOnce_def
  by (intro backoff.keeps_execute on_queue_calls) (simp add: idle_def on_queue_sleep on_queue_process)

lemma on_queue_flush:
  assumes "\<And>q. Q q \<Longrightarrow> Q (q @ [i])"
  shows "keeps (on_queue Q) (flush tp (buildImportProcessor tp cfg) i p batch)"
  unfolding flush_def after_batch_def validateAndScoreBatch_def count_batch_def buildImportProcessor_simps findById_def
  by (intro on_queue_intros on_queue_commitBatch on_queue_marks on_queue_finish on_queue_enqueue assms)

lemma on_queue_run_lines:
  assumes "\<And>q. Q q \<Longrightarrow> Q (q @ [i])"
  shows "keeps (on_queue Q) (run_lines tp (buildImportProcessor tp cfg) i p batch ls)"
  by (induction ls arbitrary: batch)
    (auto intro!: keeps_intros on_queue_flush assms simp del: buildImportProcessor_simps)

lemma on_queue_delivery:
  assumes "\<And>q. Q q \<Longrightarrow> Q (q @ [i])"
  shows "keeps (on_queue Q) (process tp (buildImportProcessor tp cfg) i)"
  unfolding process_def process_file_def consume_def buildImportProcessor_simps findById_def getUploadedFile_def
  by (intro on_queue_intros on_queue_run_lines on_queue_flush on_queue_marks on_queue_finish assms)

lemma on_queue_pending: "keeps (on_queue Q) (createPendingImport tp k p)"
  unfolding createPendingImport_def by (intro on_queue_intros)

text \<open>The steps of an upload after its row was written.\<close>

lemma on_queue_upload:
  assumes "\<And>q. Q q \<Longrightarrow> Q (q @ [im_id created])"
  shows "keeps (on_queue Q) (bind_io (generate tp) (\<lambda>uuid.
      bind_io (minio_store tp (storage_key (im_id created) uuid) (cp_fileStream p)) (\<lambda>stored.
        then_io (attachUploadedFile tp (im_id created) (attach_input_of p stored))
          (then_io (enqueueImportProcessing tp (im_id created)) (return_io created)))))"
  unfolding attachUploadedFile_def by (intro on_queue_intros on_queue_enqueue assms)

lemma on_queue_createImport:
  assumes "\<And>q j. Q q \<Longrightarrow> Q (q @ [j])"
  shows "keeps (on_queue Q) (createImport (buildImportService tp) p)"
  unfolding createImport_def buildImportService_simps findByIdempotencyKey_def
  by (intro on_queue_intros on_queue_pending on_queue_upload assms)

lemma on_queue_cancelImport: "keeps (on_queue Q) (cancelImport (buildImportService tp) i)"
  unfolding cancelImport_def buildImportService_simps requestCancellation_def
  by (intro on_queue_intros)

definition queued :: "jsstring \<Rightarrow> world \<Rightarrow> bool" where
  "queued j w \<longleftrightarrow> j \<in> set (w_queue w)"

lemma queued_on_queue: "queued j = on_queue (\<lambda>q. j \<in> set q)"
  by (rule ext) (simp add: queued_def on_queue_def)

lemma queued_delivery: "keeps (queued j) (process tp (buildImportProcessor tp cfg) i)"
  and queued_requests: "keeps (queued j) (createImport (buildImportService tp) p)"
    "keeps (queued j) (cancelImport (buildImportService tp) i)"
  unfolding queued_on_queue
  by (intro on_queue_delivery on_queue_createImport on_queue_cancelImport; simp)+

section \<open>How a delivery ends\<close>

text \<open>When \<open>process\<close> returns, the import is settled or its job is in the queue again.\<close>

definition handed :: "jsstring \<Rightarrow> world \<Rightarrow> bool" where
  "handed i w \<longleftrightarrow> settled i (w_db w) \<or> queued i w"

abbreviation ensures :: "(world, exn, 'a) io \<Rightarrow> ('a \<Rightarrow> world \<Rightarrow> bool) \<Rightarrow> bool" where
  "ensures m Q \<equiv> triple (\<lambda>_. True) m Q (\<lambda>_ _. True)"

lemma ensures_any: "ensures m (\<lambda>_ _. True)"
  by (rule tripleI) simp_all

lemma ensures_bind: "(\<And>x. ensures (k x) Q) \<Longrightarrow> ensures (bind_io m k) Q"
  by (rule triple_bind [OF ensures_any])

lemma ensures_then: "ensures k Q \<Longrightarrow> ensures (then_io m k) Q"
  by (rule triple_then [OF ensures_any])

lemma ensures_pre: "ensures m Q \<Longrightarrow> triple P m Q (\<lambda>_ _. True)"
  by (rule triple_weaken) simp_all

lemma handed_finish: "keeps (handed i) (finish outcome)"
proof (rule keepsI)
  fix w assume h: "handed i w"
  obtain w' where "finish outcome w = (Inr (), w')" "w_db w' = w_db w" "w_queue w' = w_queue w"
    using finish_frame by blast
  with h show "handed i (snd (finish outcome w))" by (simp add: handed_def queued_def)
qed

lemma finished:
  assumes "ensures m (\<lambda>_. handed i)"
  shows "ensures (then_io m (finish outcome)) (\<lambda>_. handed i)"
  by (rule triple_then [OF assms], rule triple_weaken [OF handed_finish [folded triple_keeps]]) simp_all

lemma marked:
  assumes "\<And>now r. im_id (f now r) = im_id r" "\<And>now r. im_status (f now r) \<notin> {Pending, Processing}"
  shows "ensures (then_io (update_now tp i f) (return_io ())) (\<lambda>_. handed i)"
proof (rule tripleI)
  fix w x w' assume "then_io (update_now tp i f) (return_io ()) w = (Inr x, w')"
  then obtain r now t v d where u: "update_import i (f now) (w_db v) = Inr (r, d)" "w' = v\<lparr>w_db := d\<rparr>"
    by (auto simp: update_now_def then_io_apply bind_io_apply split: prod.splits sum.splits elim!: db_call_InrE)
  from u(1) obtain r0 where "r = f now r0" by (rule update_import_InrE)
  with find_import_update [OF u(1) assms(1)] assms(2) u(2) show "handed i w'"
    by (simp add: handed_def settled_def)
qed simp

lemma marks_hand:
  "ensures (markCompleted tp i) (\<lambda>_. handed i)" "ensures (markFailed tp i reason) (\<lambda>_. handed i)"
  "ensures (markCancelled tp i) (\<lambda>_. handed i)"
  unfolding markCompleted_def markFailed_def markCancelled_def
  by (rule marked; simp add: completed_at_def failed_at_def cancelled_at_def)+

lemma enqueue_hands: "ensures (enqueueImportProcessing tp i) (\<lambda>_. handed i)"
  by (rule tripleI) (auto simp: handed_def queued_def dest: enqueue_InrE)

text \<open>A flush that stops the run has handed the import over.\<close>

lemma stopping_hands: "ensures m (\<lambda>_. handed i) \<Longrightarrow>
    ensures (then_io m (then_io (finish outcome) (return_io False))) (\<lambda>continue w. continue \<or> handed i w)"
  unfolding then_io_assoc by (rule triple_then [OF finished triple_return]) simp_all

lemma after_batch_hands:
  "ensures (after_batch (buildImportProcessor tp cfg) i) (\<lambda>continue w. continue \<or> handed i w)"
  unfolding after_batch_def buildImportProcessor_simps
  by (intro ensures_bind triple_if stopping_hands marks_hand enqueue_hands triple_return) simp

lemma flush_hands:
  "ensures (flush tp (buildImportProcessor tp cfg) i p batch) (\<lambda>continue w. continue \<or> handed i w)"
  unfolding flush_def case_prod_beta
  by (intro triple_if triple_return ensures_bind ensures_then after_batch_hands) simp

lemma run_lines_hands:
  "ensures (run_lines tp (buildImportProcessor tp cfg) i p batch ls) (\<lambda>rest w. rest \<noteq> None \<or> handed i w)"
proof (induction ls arbitrary: batch)
  case Nil
  show ?case by (simp add: triple_return del: io_apply)
next
  case (Cons l ls)
  have "ensures (bind_io (flush tp (buildImportProcessor tp cfg) i p (batch @ [l])) (\<lambda>continue.
      if continue then run_lines tp (buildImportProcessor tp cfg) i p [] ls else return_io None))
    (\<lambda>rest w. rest \<noteq> None \<or> handed i w)"
    by (rule triple_bind [OF flush_hands], rule triple_if, rule triple_weaken [OF Cons.IH])
      (auto intro: triple_return)
  with Cons.IH show ?case by simp
qed

lemma last_flush_hands:
  "ensures (bind_io (flush tp (buildImportProcessor tp cfg) i p batch) (\<lambda>continue.
      if continue then then_io (markCompleted tp i) (finish ''completed'') else return_io ())) (\<lambda>_. handed i)"
proof (rule triple_bind [OF flush_hands], rule triple_if)
  show "triple (\<lambda>w. continue \<or> handed i w) (then_io (markCompleted tp i) (finish ''completed''))
      (\<lambda>_. handed i) (\<lambda>_ _. True)" for continue
    by (rule triple_weaken [OF finished [OF marks_hand(1)]]) simp_all
qed (simp add: triple_return del: io_apply)

lemma consume_hands: "ensures (consume tp (buildImportProcessor tp cfg) i row stream) (\<lambda>_. handed i)"
  unfolding consume_def buildImportProcessor_simps case_prod_beta
proof (rule triple_catch [OF triple_bind [OF run_lines_hands]])
  fix rest
  show "triple (\<lambda>w. rest \<noteq> None \<or> handed i w)
    (case rest of None \<Rightarrow> return_io ()
     | Some batch \<Rightarrow>
         if snd (parseNdjsonLines stream (im_checkpointOffset row) (im_checkpointLineNumber row)) then throw_io StreamError
         else bind_io (flush tp (buildImportProcessor tp cfg) i (im_providerId row) batch) (\<lambda>continue.
           if continue then then_io (markCompleted tp i) (finish ''completed'') else return_io ()))
    (\<lambda>_. handed i) (\<lambda>_ _. True)"
    by (intro triple_case_option triple_if triple_return triple_throw triple_weaken [OF last_flush_hands]) auto
qed (rule finished [OF marks_hand(2)])

lemma process_file_hands: "ensures (process_file tp (buildImportProcessor tp cfg) i row f) (\<lambda>_. handed i)"
  unfolding process_file_def buildImportProcessor_simps
proof (intro ensures_then triple_bind [where R = "\<lambda>s w. s \<noteq> None \<or> handed i w"])
  show "ensures (catch_io
      (bind_io (minio_read tp (uf_storageKey f) (im_checkpointOffset row)) (\<lambda>s. return_io (Some s)))
      (\<lambda>_. then_io (markFailed tp i ''Failed to read uploaded file'') (then_io (finish ''failed'') (return_io None))))
    (\<lambda>s w. s \<noteq> None \<or> handed i w)"
    unfolding then_io_assoc
    by (rule triple_catch [OF ensures_bind triple_then [OF finished [OF marks_hand(2)]]]; simp add: triple_return del: io_apply)
  show "triple (\<lambda>w. s \<noteq> None \<or> handed i w) (case s of None \<Rightarrow> return_io ()
      | Some s \<Rightarrow> consume tp (buildImportProcessor tp cfg) i row s) (\<lambda>_. handed i) (\<lambda>_ _. True)" for s
    by (intro triple_case_option triple_return triple_weaken [OF consume_hands]) auto
qed

lemma process_hands:
  "triple (present.holds i) (process tp (buildImportProcessor tp cfg) i) (\<lambda>_. handed i) (\<lambda>_ _. True)"
  unfolding process_def buildImportProcessor_simps
proof (rule triple_bind)
  show "triple (present.holds i) (findById tp i) (\<lambda>x w. x \<noteq> None \<and> x = find_import i (w_db w)) (\<lambda>_ _. True)"
    unfolding findById_def
  proof (rule tripleI)
    fix w x w' assume "present.holds i w" "db_query tp (find_import i) w = (Inr x, w')"
    then obtain t where t: "next_tick tp w = (t, w')" "x = find_import i (w_db w')" by (auto elim: db_query_InrE)
    from present.holds_tick [OF \<open>present.holds i w\<close> t(1)] have "has_row i (w_db w')"
      by (simp add: present.holds_def)
    with t(2) show "x \<noteq> None \<and> x = find_import i (w_db w')" by (simp add: has_row_def)
  qed simp
  show "triple (\<lambda>w. x \<noteq> None \<and> x = find_import i (w_db w)) (case x of None \<Rightarrow> return_io ()
      | Some row \<Rightarrow>
          if im_status row \<noteq> Pending \<and> im_status row \<noteq> Processing then return_io ()
          else then_io (incrementGauge ''active_imports'')
            (if im_cancelRequested row
             then then_io (markCancelled tp i) (finish ''cancelled'')
             else bind_io (getUploadedFile tp i) (\<lambda>uploadedFile. case uploadedFile of
               None \<Rightarrow> then_io (markFailed tp i ''Uploaded file metadata missing'') (finish ''failed'')
             | Some f \<Rightarrow> process_file tp (buildImportProcessor tp cfg) i row f)))
    (\<lambda>_. handed i) (\<lambda>_ _. True)" for x
  proof (intro triple_case_option triple_if triple_return)
    show "triple (\<lambda>w. x \<noteq> None \<and> x = find_import i (w_db w)) (then_io (incrementGauge ''active_imports'')
            (if im_cancelRequested row
             then then_io (markCancelled tp i) (finish ''cancelled'')
             else bind_io (getUploadedFile tp i) (\<lambda>uploadedFile. case uploadedFile of
               None \<Rightarrow> then_io (markFailed tp i ''Uploaded file metadata missing'') (finish ''failed'')
             | Some f \<Rightarrow> process_file tp (buildImportProcessor tp cfg) i row f)))
      (\<lambda>_. handed i) (\<lambda>_ _. True)" for row
      by (rule ensures_pre, intro ensures_then triple_if ensures_bind triple_case_option finished marks_hand process_file_hands)
  qed (auto simp: handed_def settled_def)
qed

section \<open>Every step keeps the job\<close>

definition accounted :: "jsstring \<Rightarrow> system \<Rightarrow> bool" where
  "accounted i s \<longleftrightarrow> has_row i (w_db (sy_world s)) \<and>
     (handed i (sy_world s) \<or> i \<in> set (sy_failed s))"

lemma starts_holds:
  "meanwhile i ts \<Longrightarrow> has_row i (w_db w) \<Longrightarrow> present.holds i (w\<lparr>w_schedule := ts\<rparr>)"
  "meanwhile i ts \<Longrightarrow> settled i (w_db w) \<Longrightarrow> settling.holds i (w\<lparr>w_schedule := ts\<rparr>)"
  by (simp_all add: present.holds_def settling.holds_def meanwhile_def)

lemma holds_row: "present.holds i w \<Longrightarrow> has_row i (w_db w)" "settling.holds i w \<Longrightarrow> settled i (w_db w)"
  by (simp_all add: present.holds_def settling.holds_def)

text \<open>An operation that keeps the three assertions keeps the job accounted for.\<close>

lemma accounted_kept:
  assumes "accounted i s" "meanwhile i ts" "m (sy_world s\<lparr>w_queue := queue, w_schedule := ts\<rparr>) = (res, w')"
    and "present.holds i (sy_world s\<lparr>w_queue := queue, w_schedule := ts\<rparr>) \<Longrightarrow>
      present.holds i (snd (m (sy_world s\<lparr>w_queue := queue, w_schedule := ts\<rparr>)))"
    and "settling.holds i (sy_world s\<lparr>w_queue := queue, w_schedule := ts\<rparr>) \<Longrightarrow>
      settling.holds i (snd (m (sy_world s\<lparr>w_queue := queue, w_schedule := ts\<rparr>)))"
    and "keeps (queued i) m" "i \<in> set (w_queue (sy_world s)) \<Longrightarrow> i \<in> set queue"
  shows "accounted i (s\<lparr>sy_world := w'\<rparr>)"
proof -
  let ?w = "sy_world s\<lparr>w_queue := queue, w_schedule := ts\<rparr>"
  have row: "has_row i (w_db ?w)" using assms(1) by (simp add: accounted_def)
  have "present.holds i ?w" using starts_holds(1) [OF assms(2), of "sy_world s\<lparr>w_queue := queue\<rparr>"] row by simp
  from assms(4) [OF this] assms(3) have "has_row i (w_db w')" by (simp add: holds_row)
  moreover have "settled i (w_db w')" if "settled i (w_db (sy_world s))"
  proof -
    have "settling.holds i ?w" using starts_holds(2) [OF assms(2), of "sy_world s\<lparr>w_queue := queue\<rparr>"] that by simp
    from assms(5) [OF this] assms(3) show ?thesis by (simp add: holds_row)
  qed
  moreover have "queued i w'" if "queued i (sy_world s)"
  proof -
    have "queued i ?w" using that assms(7) by (simp add: queued_def)
    from keepsD' [OF assms(6) this assms(3)] show ?thesis .
  qed
  ultimately show ?thesis using assms(1) by (auto simp: accounted_def handed_def)
qed

lemma accounted_upload:
  assumes "accounted i s" "meanwhile i ts"
    "createImport (buildImportService tp) p (sy_world s\<lparr>w_schedule := ts\<rparr>) = (res, w')"
  shows "accounted i (s\<lparr>sy_world := w'\<rparr>)"
proof -
  have "createImport (buildImportService tp) p (sy_world s\<lparr>w_queue := w_queue (sy_world s), w_schedule := ts\<rparr>) = (res, w')"
    using assms(3) by simp
  then show ?thesis
    by (rule accounted_kept [where m = "createImport (buildImportService tp) p", OF assms(1,2)])
      (simp_all only: keepsD queued_requests present.keeps_createImport settling.keeps_createImport)
qed

lemma accounted_cancel:
  assumes "accounted i s" "meanwhile i ts"
    "cancelImport (buildImportService tp) j (sy_world s\<lparr>w_schedule := ts\<rparr>) = (res, w')"
  shows "accounted i (s\<lparr>sy_world := w'\<rparr>)"
proof -
  have "cancelImport (buildImportService tp) j (sy_world s\<lparr>w_queue := w_queue (sy_world s), w_schedule := ts\<rparr>) = (res, w')"
    using assms(3) by simp
  then show ?thesis
    by (rule accounted_kept [where m = "cancelImport (buildImportService tp) j", OF assms(1,2)])
      (simp_all only: keepsD queued_requests present.keeps_cancelImport settling.keeps_cancelImport)
qed

text \<open>A delivery of another import's job, and one of its own.\<close>

lemma accounted_other:
  assumes "accounted i s" "meanwhile i ts" "w_queue (sy_world s) = q @ j # q'" "j \<noteq> i"
    "deliver_job tp cfg ts (q @ q') j (sy_world s) = (res, w')"
  shows "accounted i (s\<lparr>sy_world := w'\<rparr>)"
  by (rule accounted_kept [where m = "process tp (buildImportProcessor tp cfg) j",
        OF assms(1,2) assms(5) [unfolded deliver_job_def]])
    (use assms(3,4) in \<open>simp_all add: queued_delivery present.keeps_delivery settling.keeps_delivery\<close>)

lemma own_delivery:
  assumes "accounted i s" "meanwhile i ts" "deliver_job tp cfg ts queue i (sy_world s) = (res, w')"
  shows "has_row i (w_db w')" and "res = Inr () \<Longrightarrow> handed i w'"
proof -
  let ?w = "sy_world s\<lparr>w_queue := queue, w_schedule := ts\<rparr>"
  have "has_row i (w_db ?w)" using assms(1) by (simp add: accounted_def)
  then have h: "present.holds i ?w" using starts_holds(1) [OF assms(2), of "sy_world s\<lparr>w_queue := queue\<rparr>"] by simp
  note run = assms(3) [unfolded deliver_job_def]
  from keepsD' [OF own.keeps_run h run] show "has_row i (w_db w')" by (rule holds_row)
  show "handed i w'" if "res = Inr ()" using triple_InrD [OF process_hands h] run that by simp
qed

lemma accounted_more:
  "accounted i s \<Longrightarrow> accounted i (s\<lparr>sy_failed := sy_failed s @ ks\<rparr>)"
  "accounted i s \<Longrightarrow> accounted i (s\<lparr>sy_world := sy_world s\<lparr>w_queue := w_queue (sy_world s) @ ks\<rparr>\<rparr>)"
  by (auto simp: accounted_def handed_def queued_def)

lemma accounted_delivery:
  assumes "accounted i s" "meanwhile i ts" "w_queue (sy_world s) = q @ j # q'"
    "deliver_job tp cfg ts (q @ q') j (sy_world s) = (res, w')"
  shows "accounted i (s\<lparr>sy_world := w', sy_failed := sy_failed s @ [j]\<rparr>)"
    and "accounted i (s\<lparr>sy_world := w'\<lparr>w_queue := w_queue w' @ [j]\<rparr>\<rparr>)"
    and "res = Inr () \<Longrightarrow> accounted i (s\<lparr>sy_world := w'\<rparr>)"
proof -
  note own = own_delivery [OF assms(1,2)] and other = accounted_other [OF assms(1-3) _ assms(4)]
  have row: "has_row i (w_db w')" if "j = i" using own(1) assms(4) that by blast
  show "accounted i (s\<lparr>sy_world := w', sy_failed := sy_failed s @ [j]\<rparr>)"
    using row accounted_more(1) [OF other, of "[j]"] by (cases "j = i") (simp_all add: accounted_def)
  show "accounted i (s\<lparr>sy_world := w'\<lparr>w_queue := w_queue w' @ [j]\<rparr>\<rparr>)"
    using row accounted_more(2) [OF other, of "[j]"]
    by (cases "j = i") (simp_all add: accounted_def handed_def queued_def)
  show "accounted i (s\<lparr>sy_world := w'\<rparr>)" if "res = Inr ()"
    using own assms(4) that other by (cases "j = i") (auto simp: accounted_def)
qed

lemma accounted_step:
  assumes "system_step tp cfg i s s'" "accounted i s"
  shows "accounted i s'"
  using assms(1)
proof cases
  case (Job_Done ts q j q' w')
  with accounted_delivery(3) [OF assms(2)] show ?thesis by simp
next
  case (Job_Failed ts q j q' e w')
  with accounted_delivery(1) [OF assms(2)] show ?thesis by simp
next
  case (Job_Stalled ts q j q' res w')
  with accounted_delivery(2) [OF assms(2)] show ?thesis by simp
next
  case (Job_Stalled_Too_Often ts q j q' res w')
  with accounted_delivery(1) [OF assms(2)] show ?thesis by simp
next
  case (Upload ts p res w')
  with accounted_upload [OF assms(2)] show ?thesis by simp
next
  case (Cancel ts j res w')
  with accounted_cancel [OF assms(2)] show ?thesis by simp
qed (use assms(2) in \<open>simp_all add: accounted_def handed_def queued_def\<close>)

lemma execution_accounted:
  "execution tp cfg i s s' \<Longrightarrow> accounted i s \<Longrightarrow> accounted i s'"
  by (induction rule: execution.induct) (auto intro: accounted_step)

end
