(* ===== verification/Executions.thy ===== *)
theory Executions
  imports System
begin

text \<open>
  What holds in every execution of the system: no job is lost, what is recorded of an upload is
  exact, an import whose job is queued can be brought to its end, and an import whose job
  failed before it was settled cannot.
\<close>

section \<open>Every step keeps the record\<close>

text \<open>Object keys tell imports apart: identifiers are drawn without repetition and have no slash.\<close>

definition slash :: code_unit where "slash = of_char CHR ''/''"

definition identifiable :: "third_party \<Rightarrow> job \<Rightarrow> bool" where
  "identifiable tp job \<longleftrightarrow> inj (tp_uuid tp) \<and> (\<forall>n. slash \<notin> set (tp_uuid tp n)) \<and>
     (\<exists>uuid. jb_storageKey job = storage_key (jb_import job) uuid)"

definition sound_record :: "third_party \<Rightarrow> job \<Rightarrow> nat \<Rightarrow> db \<Rightarrow> (jsstring \<times> bytes) list \<Rightarrow> bool" where
  "sound_record tp job k d obs \<longleftrightarrow> identifiable tp job \<and> db_ok tp d \<and> progress tp job k d obs"

lemma storage_key_import:
  assumes "slash \<notin> set i" "slash \<notin> set j" "storage_key i u = storage_key j v"
  shows "i = j"
proof -
  have "i @ slash # (u @ js ''.ndjson'') = j @ slash # (v @ js ''.ndjson'')"
    using assms(3) by (simp add: storage_key_def js_simps slash_def)
  then have "takeWhile (\<lambda>c. c \<noteq> slash) (i @ slash # (u @ js ''.ndjson'')) =
      takeWhile (\<lambda>c. c \<noteq> slash) (j @ slash # (v @ js ''.ndjson''))" by (rule arg_cong)
  moreover have "takeWhile (\<lambda>c. c \<noteq> slash) (x @ slash # y) = x" if "slash \<notin> set x" for x y
    using that by (subst takeWhile_append2) auto
  ultimately show ?thesis using assms(1,2) by simp
qed

lemma drawn_id: "db_ok tp d \<Longrightarrow> find_import i d = Some r \<Longrightarrow> \<exists>n<db_next d. i = tp_uuid tp n"
  by (drule find_import_SomeD) (auto simp: db_ok_def ids_drawn_def list_all_iff)

lemma fresh_key:
  assumes "sound_record tp job k d obs" "create_import tp now key p d = Inr (r, d')"
  shows "storage_key (im_id r) uuid \<noteq> jb_storageKey job"
proof
  assume eq: "storage_key (im_id r) uuid = jb_storageKey job"
  from assms(1) obtain r0 where "find_import (jb_import job) d = Some r0"
    by (auto simp: sound_record_def elim: progressE)
  with assms(1) obtain n where n: "n < db_next d" "jb_import job = tp_uuid tp n"
    by (auto simp: sound_record_def dest: drawn_id)
  have new: "im_id r = tp_uuid tp (db_next d)"
    using assms(2) by (auto simp: create_import_def Let_def split: if_splits)
  from assms(1) eq obtain u where "storage_key (im_id r) uuid = storage_key (jb_import job) u" "inj (tp_uuid tp)"
    "\<And>n. slash \<notin> set (tp_uuid tp n)"
    by (auto simp: sound_record_def identifiable_def)
  with storage_key_import [of "im_id r" "jb_import job" uuid u] n new have "db_next d = n"
    by (simp add: inj_eq)
  with n(1) show False by simp
qed

lemma progress_other_update:
  assumes "progress tp job k d obs" "j \<noteq> jb_import job" "identity_kept g" "update_import j g d = Inr (r, d')"
  shows "progress tp job k d' obs"
  using assms(1)
proof (rule progressE)
  fix r0 f
  assume p: "find_import (jb_import job) d = Some r0" "im_providerId r0 = jb_provider job"
    "find_file (jb_import job) d = Some f" "uf_storageKey f = jb_storageKey job \<and> map_of obs (jb_storageKey job) = Some (jb_bytes job)"
    "k \<le> length (file_lines (jb_bytes job))" "im_checkpointLineNumber r0 = int k"
    "im_checkpointOffset r0 = offset_after (jb_bytes job) k"
    "im_status r0 = Completed \<longrightarrow> k = length (file_lines (jb_bytes job))"
    "recorded tp job (take k (file_lines (jb_bytes job))) r0 d"
  note same = update_import_same [OF assms(4)]
  have "find_import (jb_import job) d' = Some r0" using update_other [OF assms(4,2,3)] p(1) by simp
  moreover have "find_file (jb_import job) d' = Some f" using same p(3) by (simp add: find_file_def)
  moreover have "recorded tp job (take k (file_lines (jb_bytes job))) r0 d'"
    using same by (intro recorded_cong [OF p(9)]) (simp_all add: rejected_of_import_def transactions_of_import_def)
  ultimately show ?thesis unfolding progress_def using p(2,4-8) by blast
qed

lemma progress_object:
  "progress tp job k d obs \<Longrightarrow> key \<noteq> jb_storageKey job \<Longrightarrow> progress tp job k d ((key, bs) # obs)"
  unfolding progress_def by simp

interpretation recording: bystander tp "harmless (jb_import job)" "sound_record tp job k" "jb_import job" for tp job k
proof
  show "harmless (jb_import job) a \<Longrightarrow> sound_record tp job k d obs \<Longrightarrow> sound_record tp job k (action_db tp now a d) obs"
    for a d obs now
    by (simp add: sound_record_def harmless_def identifiable_def db_ok_action progress_action)
  show "sound_record tp job k d obs \<Longrightarrow> j \<noteq> jb_import job \<Longrightarrow> identity_kept g \<Longrightarrow> status_only g \<Longrightarrow>
      update_import j g d = Inr (r, d') \<Longrightarrow> sound_record tp job k d' obs" for d obs j g r d'
    unfolding sound_record_def by (blast intro: db_ok_update progress_other_update)
  show "sound_record tp job k d obs \<Longrightarrow> create_import tp now key p d = Inr (r, d') \<Longrightarrow> sound_record tp job k d2 obs2 \<Longrightarrow>
      sound_record tp job k d2 ((storage_key (im_id r) uuid, bs) # obs2)" for d obs now key p r d' d2 obs2 uuid bs
    using fresh_key [of tp job k d obs now key p r d' uuid] by (simp add: sound_record_def progress_object)
qed (simp_all add: harmless_requests)

definition recorded_from :: "third_party \<Rightarrow> job \<Rightarrow> nat \<Rightarrow> world \<Rightarrow> bool" where
  "recorded_from tp job k w \<longleftrightarrow> (\<exists>m\<ge>k. sound_record tp job m (w_db w) (w_objects w))"

lemma recording_starts:
  "meanwhile (jb_import job) ts \<Longrightarrow> sound_record tp job m (w_db w) (w_objects w) \<Longrightarrow>
   recording.holds job tp m (w\<lparr>w_schedule := ts\<rparr>)"
  "recording.holds job tp m w \<Longrightarrow> sound_record tp job m (w_db w) (w_objects w)"
  by (simp_all add: recording.holds_def meanwhile_def)

text \<open>What a bystander keeps, and what the import's own delivery does.\<close>

lemma recorded_kept:
  assumes "recorded_from tp job k w" "meanwhile (jb_import job) ts"
    and "\<And>n. recording.holds job tp n (w\<lparr>w_queue := queue, w_schedule := ts\<rparr>) \<Longrightarrow>
      recording.holds job tp n (snd (m (w\<lparr>w_queue := queue, w_schedule := ts\<rparr>)))"
    and "m (w\<lparr>w_queue := queue, w_schedule := ts\<rparr>) = (res, w')"
  shows "recorded_from tp job k w'"
proof -
  from assms(1) obtain n where n: "k \<le> n" "sound_record tp job n (w_db w) (w_objects w)"
    unfolding recorded_from_def by blast
  have "recording.holds job tp n (w\<lparr>w_queue := queue, w_schedule := ts\<rparr>)"
    using recording_starts(1) [OF assms(2), of tp n "w\<lparr>w_queue := queue\<rparr>"] n(2) by simp
  from recording_starts(2) [OF assms(3) [OF this]] assms(4) n(1) show ?thesis
    unfolding recorded_from_def by auto
qed

lemma consistent_holdsI:
  assumes "db_ok tp (w_db w)" "meanwhile i (w_schedule w)"
  shows "consistent.holds tp w"
proof -
  have "db_consistent tp (w_db w)" using assms(1) by (simp add: db_consistent_def)
  moreover have "list_all (\<lambda>t. list_all consistent_action (tk_actions t)) (w_schedule w)"
    using assms(2) by (auto simp: meanwhile_def harmless_def list_all_iff)
  ultimately show ?thesis by (simp add: consistent.holds_def)
qed

lemma consistent_db_ok: "consistent.holds tp w \<Longrightarrow> inj (tp_uuid tp) \<Longrightarrow> db_ok tp (w_db w)"
  unfolding consistent.holds_def by (simp add: db_consistent_def)

lemma harmless_parts:
  assumes "recording.holds job tp m w"
  shows "prog.holds job tp m w" "consistent.holds tp w"
proof -
  have sound: "db_ok tp (w_db w)" "progress tp job m (w_db w) (w_objects w)" "meanwhile (jb_import job) (w_schedule w)"
    using assms by (simp_all add: recording.holds_def sound_record_def meanwhile_def)
  from sound(1,3) show "consistent.holds tp w" by (rule consistent_holdsI)
  show "prog.holds job tp m w"
    using sound(2,3) by (auto simp: prog.holds_def meanwhile_def harmless_def list_all_iff)
qed

lemma own_record:
  assumes "short_lines (jb_bytes job)" "recording.holds job tp m w"
    and "process tp (buildImportProcessor tp cfg) (jb_import job) w = (res, w')"
  shows "recorded_from tp job m w'"
proof -
  note parts = harmless_parts [OF assms(2)]
  have "consistent.holds tp w'" by (rule keepsD' [OF accounting.keeps_run parts(2) assms(3)])
  moreover have id: "identifiable tp job" using assms(2) by (simp add: recording.holds_def sound_record_def)
  ultimately have "db_ok tp (w_db w')" by (simp add: consistent_db_ok identifiable_def)
  moreover have "at_least tp job m w'"
    using triple_InrD [OF process_triple [OF assms(1)] parts(1)] triple_InlD [OF process_triple [OF assms(1)] parts(1)]
      assms(3) by (cases res) auto
  ultimately show ?thesis
    using id by (auto simp: recorded_from_def at_least_def prog.holds_def sound_record_def)
qed

lemma recorded_mono: "recorded_from tp job m w \<Longrightarrow> k \<le> m \<Longrightarrow> recorded_from tp job k w"
  unfolding recorded_from_def by (meson le_trans)

lemma recorded_delivery:
  assumes "short_lines (jb_bytes job)" "recorded_from tp job k w" "meanwhile (jb_import job) ts"
    and "deliver_job tp cfg ts queue j w = (res, w')"
  shows "recorded_from tp job k w'"
proof (cases "j = jb_import job")
  case True
  from assms(2) obtain n where n: "k \<le> n" "sound_record tp job n (w_db w) (w_objects w)"
    unfolding recorded_from_def by blast
  have "recording.holds job tp n (w\<lparr>w_queue := queue, w_schedule := ts\<rparr>)"
    using recording_starts(1) [OF assms(3), of tp n "w\<lparr>w_queue := queue\<rparr>"] n(2) by simp
  from own_record [OF assms(1) this assms(4) [unfolded deliver_job_def True]] n(1) show ?thesis
    by (rule recorded_mono)
next
  case False
  show ?thesis
    by (rule recorded_kept [where m = "process tp (buildImportProcessor tp cfg) j",
          OF assms(2,3) recording.keeps_delivery [OF False] assms(4) [unfolded deliver_job_def]])
qed

lemma recorded_queue [simp]:
  "recorded_from tp job k (w\<lparr>w_queue := queue\<rparr>) = recorded_from tp job k w"
  "recorded_from tp job k (w\<lparr>w_shuttingDown := b\<rparr>) = recorded_from tp job k w"
  by (simp_all add: recorded_from_def)

lemma recorded_request:
  assumes "recorded_from tp job k w" "meanwhile (jb_import job) ts"
    and "m (w\<lparr>w_schedule := ts\<rparr>) = (res, w')" "\<And>n. keeps (recording.holds job tp n) m"
  shows "recorded_from tp job k w'"
proof -
  have "m (w\<lparr>w_queue := w_queue w, w_schedule := ts\<rparr>) = (res, w')" using assms(3) by simp
  from recorded_kept [where m = m, OF assms(1,2) keepsD [OF assms(4)] this] show ?thesis .
qed

lemma recorded_step:
  assumes "system_step tp cfg (jb_import job) s s'" "short_lines (jb_bytes job)" "recorded_from tp job k (sy_world s)"
  shows "recorded_from tp job k (sy_world s')"
  using assms(1)
proof cases
  case (Upload ts p res w')
  from recorded_request [OF assms(3) Upload(2,3) recording.keeps_createImport] Upload(1) show ?thesis by simp
next
  case (Cancel ts j res w')
  from recorded_request [OF assms(3) Cancel(2,3) recording.keeps_cancelImport] Cancel(1) show ?thesis by simp
next
  case (Job_Done ts q j q' w')
  from recorded_delivery [OF assms(2,3) Job_Done(2,4)] Job_Done(1) show ?thesis by simp
next
  case (Job_Failed ts q j q' e w')
  from recorded_delivery [OF assms(2,3) Job_Failed(2,4)] Job_Failed(1) show ?thesis by simp
next
  case (Job_Stalled ts q j q' res w')
  from recorded_delivery [OF assms(2,3) Job_Stalled(2,4)] Job_Stalled(1) show ?thesis by simp
next
  case (Job_Stalled_Too_Often ts q j q' res w')
  from recorded_delivery [OF assms(2,3) Job_Stalled_Too_Often(2,4)] Job_Stalled_Too_Often(1) show ?thesis by simp
qed (use assms(3) in simp_all)

lemma execution_recorded:
  assumes "execution tp cfg (jb_import job) s s'" "short_lines (jb_bytes job)" "recorded_from tp job k (sy_world s)"
  shows "recorded_from tp job k (sy_world s')"
  using assms(1,3) by (induction rule: execution.induct) (auto intro: recorded_step [OF _ assms(2)])

section \<open>A new upload\<close>

interpretation lawful: bystander tp consistent_action "\<lambda>d obs. db_consistent tp d" i for tp i
  by unfold_locales (auto simp: db_consistent_def intro: db_ok_update db_ok_action)

interpretation others: environment tp allowed "\<lambda>_ _. True" for tp allowed
  by unfold_locales simp

text \<open>The row of a new import, while nobody but a cancellation touches it.\<close>

definition untouched :: "jsstring \<Rightarrow> jsstring \<Rightarrow> db \<Rightarrow> bool" where
  "untouched i provider d \<longleftrightarrow> (\<exists>r. find_import i d = Some r \<and> im_providerId r = provider \<and> im_status r \<noteq> Completed \<and>
     im_checkpointLineNumber r = 0 \<and> im_checkpointOffset r = 0 \<and> im_processedCount r = 0)"

interpretation fresh: environment tp "harmless i" "\<lambda>d obs. untouched i provider d" for tp i provider
proof
  fix a d now assume a: "harmless i a" "untouched i provider d"
  show "untouched i provider (action_db tp now a d)"
  proof (cases "touches i a")
    case False
    with a(2) show ?thesis unfolding untouched_def by (blast dest: action_other)
  next
    case True
    with a(1) have c: "a = Cancel_Import i" by (simp add: harmless_def leaves_def)
    show ?thesis
    proof (cases "update_import i cancelling d")
      case (Inr q)
      then obtain r d' where u: "update_import i cancelling d = Inr (r, d')" by (cases q) auto
      obtain r0 where "find_import i d = Some r0" "r = cancelling r0" using u by (rule update_import_InrE)
      moreover have "im_id (cancelling x) = im_id x" for x by (simp add: cancelling_def)
      ultimately show ?thesis
        using find_import_update [OF u] a(2) u by (auto simp: untouched_def cancelling_def c run_tx_def)
    qed (use a(2) c in \<open>simp add: run_tx_def\<close>)
  qed
qed

definition job_of :: "import_row \<Rightarrow> create_import_params \<Rightarrow> jsstring \<Rightarrow> job" where
  "job_of r p uuid = \<lparr>jb_import = im_id r, jb_provider = cp_providerId p,
     jb_storageKey = storage_key (im_id r) uuid, jb_bytes = concat (cp_fileStream p)\<rparr>"

lemma job_of_simps [simp]:
  "jb_import (job_of r p uuid) = im_id r" "jb_provider (job_of r p uuid) = cp_providerId p"
  "jb_storageKey (job_of r p uuid) = storage_key (im_id r) uuid" "jb_bytes (job_of r p uuid) = concat (cp_fileStream p)"
  by (simp_all add: job_of_def)

lemma created_untouched:
  assumes "create_import tp now k p d = Inr (r, d')" "db_ok tp d" "inj (tp_uuid tp)"
  shows "untouched (im_id r) p d'"
proof -
  have r: "im_id r = tp_uuid tp (db_next d)" "db_imports d' = db_imports d @ [r]" "im_providerId r = p"
    "im_status r = Pending" "im_checkpointLineNumber r = 0" "im_checkpointOffset r = 0" "im_processedCount r = 0"
    using assms(1) by (auto simp: create_import_def Let_def split: if_splits)
  have "find_import (im_id r) d = None"
  proof (cases "find_import (im_id r) d")
    case (Some r0)
    from drawn_id [OF assms(2) this] obtain n where "n < db_next d" "tp_uuid tp n = tp_uuid tp (db_next d)"
      using r(1) by auto
    with assms(3) show ?thesis by (simp add: inj_eq)
  qed simp
  with r show ?thesis by (simp add: untouched_def find_import_def find_append)
qed

lemma createPendingImport_InrE:
  assumes "createPendingImport tp k p w = (Inr (Some r), w')"
  obtains t v d where "next_tick tp w = (t, v)" "create_import tp (w_now v) k p (w_db v) = Inr (r, d)"
    "w' = v\<lparr>w_db := d\<rparr>"
  using assms unfolding createPendingImport_def
  by (auto simp: catch_io_apply bind_io_apply split: prod.splits sum.splits if_splits elim: db_call_InrE)

lemma upload_starts:
  assumes "createImport (buildImportService tp) p w = (Inr r, w')" "w_queue w' \<noteq> w_queue w"
    and "db_ok tp (w_db w)" "inj (tp_uuid tp)" "meanwhile (im_id r) (w_schedule w)"
  obtains w1 where "createPendingImport tp (cp_idempotencyKey p) (cp_providerId p) w = (Inr (Some r), w1)"
    "fresh.holds (im_id r) (cp_providerId p) w1"
    "bind_io (generate tp) (\<lambda>uuid.
      bind_io (minio_store tp (storage_key (im_id r) uuid) (cp_fileStream p)) (\<lambda>stored.
        then_io (attachUploadedFile tp (im_id r) (attach_input_of p stored))
          (then_io (enqueueImportProcessing tp (im_id r)) (return_io r)))) w1 = (Inr r, w')"
proof (cases "createPendingImport tp (cp_idempotencyKey p) (cp_providerId p) w" rule: prod.exhaust)
  case (Pair res w1)
  with assms(1) obtain c where c: "res = Inr c" by (cases res) (simp_all add: createImport_def)
  show thesis
  proof (cases c)
    case None
    have "same_effects w w1" using Pair by (intro same_effectsI [OF same_effects_create])
    moreover from assms(1) Pair c None obtain x where
      "findByIdempotencyKey tp (cp_idempotencyKey p) w1 = (Inr x, w')"
      by (auto simp: createImport_def bind_io_apply split: prod.splits sum.splits option.splits)
    then have "same_effects w1 w'" by (intro same_effectsI [OF same_effects_find])
    ultimately show thesis using assms(2) by (simp add: same_effects_def)
  next
    case (Some created)
    have run: "bind_io (generate tp) (\<lambda>uuid.
        bind_io (minio_store tp (storage_key (im_id created) uuid) (cp_fileStream p)) (\<lambda>stored.
          then_io (attachUploadedFile tp (im_id created) (attach_input_of p stored))
            (then_io (enqueueImportProcessing tp (im_id created)) (return_io created)))) w1 = (Inr r, w')"
      using assms(1) Pair c Some by (simp add: createImport_def)
    then have r: "created = r" by (rule upload_stepsE) simp
    note pending = Pair [unfolded c Some r]
    from createPendingImport_InrE [OF pending] obtain t v d where
      v: "next_tick tp w = (t, v)" "create_import tp (w_now v) (cp_idempotencyKey p) (cp_providerId p) (w_db v) = Inr (r, d)"
        "w1 = v\<lparr>w_db := d\<rparr>" by blast
    have "others.holds (harmless (im_id r)) w" using assms(5) by (simp add: others.holds_def meanwhile_def)
    from others.holds_tick [OF this v(1)] have "meanwhile (im_id r) (w_schedule v)"
      by (simp add: others.holds_def meanwhile_def)
    moreover have "db_ok tp (w_db v)"
      using consistent.holds_tick [OF consistent_holdsI [OF assms(3,5)] v(1)] assms(4) by (rule consistent_db_ok)
    ultimately have "fresh.holds (im_id r) (cp_providerId p) w1"
      using created_untouched [OF v(2) _ assms(4)] v(3) by (simp add: fresh.holds_def meanwhile_def)
    from that [OF pending this run [unfolded r]] show thesis .
  qed
qed

lemma new_upload:
  assumes "createImport (buildImportService tp) p w = (Inr r, w')" "w_queue w' \<noteq> w_queue w"
    and "db_ok tp (w_db w)" "inj (tp_uuid tp)" "\<forall>n. slash \<notin> set (tp_uuid tp n)" "meanwhile (im_id r) (w_schedule w)"
  obtains uuid where "sound_record tp (job_of r p uuid) 0 (w_db w') (w_objects w')" "queued (im_id r) w'"
proof -
  from upload_starts [OF assms(1,2,3,4,6)] obtain w1 where
    w1: "fresh.holds (im_id r) (cp_providerId p) w1" and
    run: "bind_io (generate tp) (\<lambda>uuid.
      bind_io (minio_store tp (storage_key (im_id r) uuid) (cp_fileStream p)) (\<lambda>stored.
        then_io (attachUploadedFile tp (im_id r) (attach_input_of p stored))
          (then_io (enqueueImportProcessing tp (im_id r)) (return_io r)))) w1 = (Inr r, w')" by blast
  let ?fresh = "fresh.holds (im_id r) (cp_providerId p)"
  from run obtain uuid w2 s w3 x w4 y where
    steps: "generate tp w1 = (Inr uuid, w2)"
      "minio_store tp (storage_key (im_id r) uuid) (cp_fileStream p) w2 = (Inr s, w3)"
      "attachUploadedFile tp (im_id r) (attach_input_of p s) w3 = (Inr x, w4)"
      "enqueueImportProcessing tp (im_id r) w4 = (Inr y, w')" by (rule upload_stepsE)
  note stored = minio_store_InrE [OF steps(2)] and attached = attach_InrE [OF steps(3)] and
    sent = enqueue_InrE [OF steps(4)]
  have attach: "keeps ?fresh (attachUploadedFile tp (im_id r) f)" for f
    unfolding attachUploadedFile_def
    by (rule fresh.keeps_db_call) (simp add: untouched_def create_file_other)
  have "?fresh w2" using keepsD' [OF fresh.keeps_process(8) w1 steps(1)] .
  from keepsD' [OF fresh.keeps_minio_store this steps(2)] have "?fresh w3" by simp
  from keepsD' [OF fresh.keeps_adapters(3) keepsD' [OF attach this steps(3)] steps(4)]
  have "untouched (im_id r) (cp_providerId p) (w_db w')" by (simp add: fresh.holds_def)
  then obtain row where row: "find_import (im_id r) (w_db w') = Some row" "im_providerId row = cp_providerId p"
    "im_status row \<noteq> Completed" "im_checkpointLineNumber row = 0" "im_checkpointOffset row = 0"
    "im_processedCount row = 0"
    unfolding untouched_def by blast
  have ok: "db_ok tp (w_db w')"
    using keepsD' [OF lawful.keeps_createImport consistent_holdsI [OF assms(3,6)] assms(1)] assms(4)
    by (rule consistent_db_ok)
  then have count: "counters_ok (w_db w') row"
    using find_import_SomeD [OF row(1)] by (simp add: db_ok_def list_all_iff)
  from attached obtain f where f: "find_file (im_id r) (w_db w4) = Some f" "uf_storageKey f = storage_key (im_id r) uuid"
    using stored by (auto simp: attach_input_of_def)
  have kept: "find_file (im_id r) (w_db w') = Some f" using sent f(1) by (blast intro: grows_fileD)
  have "map_of (w_objects w') (storage_key (im_id r) uuid) = Some (concat (cp_fileStream p))"
    using stored attached sent by (simp add: same_effects_def)
  with fresh_progress [of "job_of r p uuid" "w_db w'" row f "w_objects w'" tp] row count kept f(2)
  have "progress tp (job_of r p uuid) 0 (w_db w') (w_objects w')" by simp
  with ok assms(4,5) have "sound_record tp (job_of r p uuid) 0 (w_db w') (w_objects w')"
    by (auto simp: sound_record_def identifiable_def)
  moreover have "queued (im_id r) w'" using sent by (simp add: queued_def)
  ultimately show thesis by (rule that)
qed

section \<open>One more delivery\<close>

lemma cancelled_process:
  assumes "still (s, q, True, st) tp job k w" "st \<in> {Pending, Processing}"
  shows "\<exists>w'. process tp (buildImportProcessor tp cfg) (jb_import job) w = (Inr (), w') \<and>
    still (s, q, True, Cancelled) tp job k w'"
proof -
  let ?i = "jb_import job" and ?w1 = "snd (incrementGauge ''active_imports'' w)"
  from assms(1) obtain row where q: "w_schedule w = []" "find_import ?i (w_db w) = Some row"
    "view_of w row = (s, q, True, st)" unfolding still_def by blast
  have g: "incrementGauge ''active_imports'' w = (Inr (), ?w1)" by (simp add: incrementGauge_def)
  have "still (s, q, True, st) tp job k ?w1" using still_gauge(1) assms(1) by (blast dest: keepsD)
  from still_markCancelled [OF this] obtain w2 where
    m: "markCancelled tp ?i ?w1 = (Inr (), w2)" "still (s, q, True, Cancelled) tp job k w2" by blast
  obtain w3 where w3: "finish ''cancelled'' w2 = (Inr (), w3)" "w_db w3 = w_db w2" "w_queue w3 = w_queue w2"
    "w_objects w3 = w_objects w2" "w_schedule w3 = w_schedule w2" "w_shuttingDown w3 = w_shuttingDown w2"
    using finish_frame [of "''cancelled''" w2] by auto
  have "process tp (buildImportProcessor tp cfg) ?i w = (Inr (), w3)"
    using q g m(1) w3(1) assms(2) by (auto simp: process_def findById_def view_of_def)
  moreover have "still (s, q, True, Cancelled) tp job k w3" using m(2) w3 by (simp add: still_def view_of_def)
  ultimately show ?thesis by blast
qed

text \<open>How a job ends when its worker is left in peace.\<close>

definition ended :: "third_party \<Rightarrow> job \<Rightarrow> world \<Rightarrow> bool" where
  "ended tp job w \<longleftrightarrow> (\<exists>r. find_import (jb_import job) (w_db w) = Some r \<and>
     (im_status r = Completed \<or> im_status r = Cancelled \<or>
      im_status r = Failed \<and> recorded tp job (file_lines (jb_bytes job)) r (w_db w)))"

lemma left_in_peace:
  assumes "w_schedule w = []" "\<not> w_shuttingDown w" "progress tp job k (w_db w) (w_objects w)" "short_lines (jb_bytes job)"
    and "find_import (jb_import job) (w_db w) = Some row" "im_status row \<in> {Pending, Processing}"
    and "classify_all tp (file_lines (jb_bytes job)) = Inr cs" "list_all (storable tp) cs"
    and "\<forall>m<length (file_lines (jb_bytes job)). tp_range tp (offset_after (jb_bytes job) m) (int (length (jb_bytes job)))"
  shows "\<exists>w'. process tp (buildImportProcessor tp cfg) (jb_import job) w = (Inr (), w') \<and> ended tp job w'"
proof -
  have st: "still (False, w_queue w, im_cancelRequested row, im_status row) tp job k w"
    using assms(1-3,5) by (simp add: still_def view_of_def)
  have k: "k \<le> length (file_lines (jb_bytes job))" using assms(3) by (rule progressE)
  consider (cancelled) "im_cancelRequested row"
    | (served) "\<not> im_cancelRequested row" "tp_range tp (offset_after (jb_bytes job) k) (int (length (jb_bytes job)))"
    | (refused) "\<not> im_cancelRequested row" "\<not> tp_range tp (offset_after (jb_bytes job) k) (int (length (jb_bytes job)))"
    by blast
  then show ?thesis
  proof cases
    case cancelled
    with st have "still (False, w_queue w, True, im_status row) tp job k w" by simp
    from cancelled_process [OF this assms(6), of cfg] show ?thesis
      by (auto simp: still_def view_of_def ended_def)
  next
    case served
    with st have "calm tp job k w" by (auto simp: calm_def)
    from calm_process [OF this assms(4,7,8,5,6) served(2), of cfg] show ?thesis by (auto simp: ended_def)
  next
    case refused
    with st have "still (False, w_queue w, False, im_status row) tp job k w" by simp
    from refused_process [OF this assms(6) refused(2), of cfg] obtain w' where
      w': "process tp (buildImportProcessor tp cfg) (jb_import job) w = (Inr (), w')"
        "still (False, w_queue w, False, Failed) tp job k w'" by blast
    have "k = length (file_lines (jb_bytes job))" using refused(2) assms(9) k le_neq_implies_less by blast
    with still_recorded [OF w'(2)] w'(1) show ?thesis by (auto simp: ended_def view_of_def)
  qed
qed

section \<open>An example\<close>

lemma no_slash: "\<forall>n. slash \<notin> set (tp_uuid no_third_party n)" "inj (tp_uuid no_third_party)"
proof -
  have "\<not> is_digit slash" by (simp add: is_digit_def slash_def)
  then show "\<forall>n. slash \<notin> set (tp_uuid no_third_party n)"
    using decimal_nonneg_digits [OF of_nat_0_le_iff] by (auto simp: list_all_iff)
  show "inj (tp_uuid no_third_party)" using no_third_party_ids by (simp add: ids_fit_def)
qed

definition first_upload :: create_import_params where
  "first_upload = sample_params\<lparr>cp_fileStream := [[0x5b, 0x5d, 0x0a]]\<rparr>"

lemma upload_lines:
  "short_lines (concat (cp_fileStream first_upload))"
  "classify_all no_third_party (file_lines (concat (cp_fileStream first_upload))) = Inr [sample_class]"
  "length (file_lines (concat (cp_fileStream first_upload))) = 1"
proof -
  have "concat (cp_fileStream first_upload) = jb_bytes sample_job" by (simp add: first_upload_def sample_job_def)
  then show "short_lines (concat (cp_fileStream first_upload))"
    "classify_all no_third_party (file_lines (concat (cp_fileStream first_upload))) = Inr [sample_class]"
    "length (file_lines (concat (cp_fileStream first_upload))) = 1"
    using sample_job_lines sample_classes by simp_all
qed

lemma first_upload_accepted:
  obtains w' where "createImport (buildImportService no_third_party) first_upload (world_of empty_db) = (Inr created_row, w')"
    "w_queue w' = [js ''0'']" "find_import (js ''0'') (w_db w') = Some created_row"
proof -
  have "createPendingImport no_third_party (cp_idempotencyKey first_upload) (cp_providerId first_upload)
      (world_of empty_db) = (Inr (Some created_row), created_world)"
    using sample_create by (simp add: first_upload_def sample_params_def created_world_def)
  then have "\<exists>w'. createImport (buildImportService no_third_party) first_upload (world_of empty_db) = (Inr created_row, w') \<and>
      w_queue w' = [js ''0''] \<and> find_import (js ''0'') (w_db w') = Some created_row"
    using created_world_facts
    by (auto simp: createImport_def bind_io_apply then_io_apply generate_def minio_store_def attachUploadedFile_def
        enqueueImportProcessing_def quiet_call quiet_db_call create_file_def file_row_of_def find_file_def
        find_import_def created_world_def world_of_def)
  with that show thesis by blast
qed

text \<open>The upload has a record, and one delivery of its job, with nothing else going on, returns.\<close>

lemma sample_system:
  obtains w' uuid w'' where
    "createImport (buildImportService no_third_party) first_upload (world_of empty_db) = (Inr created_row, w')"
    "w_queue w' = [js ''0'']" "find_import (js ''0'') (w_db w') = Some created_row"
    "sound_record no_third_party (job_of created_row first_upload uuid) 0 (w_db w') (w_objects w')"
    "execution no_third_party default_retry (js ''0'') \<lparr>sy_world = w', sy_failed = []\<rparr> \<lparr>sy_world = w'', sy_failed = []\<rparr>"
    "ended no_third_party (job_of created_row first_upload uuid) w''"
proof -
  obtain w' where
    w': "createImport (buildImportService no_third_party) first_upload (world_of empty_db) = (Inr created_row, w')"
      "w_queue w' = [js ''0'']" "find_import (js ''0'') (w_db w') = Some created_row" by (rule first_upload_accepted)
  have "w_queue w' \<noteq> w_queue (world_of empty_db)" "meanwhile (im_id created_row) (w_schedule (world_of empty_db))"
    using w'(2) by (simp_all add: world_of_def meanwhile_def)
  from new_upload [OF w'(1) this(1) _ no_slash(2,1) this(2)] obtain uuid where
    s: "sound_record no_third_party (job_of created_row first_upload uuid) 0 (w_db w') (w_objects w')"
    by (auto simp: empty_db_ok world_of_def)
  let ?job = "job_of created_row first_upload uuid" and ?v = "w'\<lparr>w_shuttingDown := False\<rparr>"
  let ?w = "?v\<lparr>w_queue := [] @ [], w_schedule := []\<rparr>"
  have i: "jb_import ?job = js ''0''" using created_world_facts(3) by simp
  have p: "progress no_third_party ?job 0 (w_db ?w) (w_objects ?w)" using s by (simp add: sound_record_def)
  have f: "find_import (jb_import ?job) (w_db ?w) = Some created_row" "im_status created_row \<in> {Pending, Processing}"
    using w'(3) i by (simp_all add: created_row_def one_import_row_def)
  have r: "\<forall>m<length (file_lines (jb_bytes ?job)).
      tp_range no_third_party (offset_after (jb_bytes ?job) m) (int (length (jb_bytes ?job)))"
    using upload_lines(3) by (simp add: offset_after_def)
  have short: "short_lines (jb_bytes ?job)" "classify_all no_third_party (file_lines (jb_bytes ?job)) = Inr [sample_class]"
    using upload_lines by simp_all
  from left_in_peace [OF _ _ p short(1) f short(2) sample_storable r, of default_retry] obtain w'' where
    run: "deliver_job no_third_party default_retry [] ([] @ []) (js ''0'') ?v = (Inr (), w'')" "ended no_third_party ?job w''"
    unfolding deliver_job_def i by auto
  let ?s = "\<lparr>sy_world = w', sy_failed = [] :: jsstring list\<rparr>"
  have "execution no_third_party default_retry (js ''0'') ?s (?s\<lparr>sy_world := (sy_world ?s)\<lparr>w_shuttingDown := False\<rparr>\<rparr>)"
    by (rule execution_one [OF system_step.Start])
  moreover have "system_step no_third_party default_retry (js ''0'') (?s\<lparr>sy_world := ?v\<rparr>) (?s\<lparr>sy_world := ?v, sy_world := w''\<rparr>)"
    by (rule system_step.Job_Done [where ts = "[]" and q = "[]" and q' = "[]" and j = "js ''0''"])
      (use run(1) w'(2) in \<open>simp_all add: meanwhile_def\<close>)
  ultimately have "execution no_third_party default_retry (js ''0'') ?s \<lparr>sy_world = w'', sy_failed = []\<rparr>"
    by (auto intro: execution.step)
  from that [OF w' s this run(2)] show thesis .
qed

section \<open>An import without a job\<close>

definition unfinished :: "third_party \<Rightarrow> jsstring \<Rightarrow> db \<Rightarrow> bool" where
  "unfinished tp i d \<longleftrightarrow> db_ok tp d \<and> inj (tp_uuid tp) \<and> (\<exists>r. find_import i d = Some r \<and> im_status r \<noteq> Completed)"

lemma unfinished_cancel:
  assumes "unfinished tp i d" "update_import i cancelling d = Inr (r, d')"
  shows "\<exists>r. find_import i d' = Some r \<and> im_status r \<noteq> Completed"
proof -
  obtain r0 where "r = cancelling r0" using assms(2) by (rule update_import_InrE)
  moreover have "im_id (cancelling x) = im_id x" for x by (simp add: cancelling_def)
  ultimately show ?thesis using find_import_update [OF assms(2)] by (simp add: cancelling_def)
qed

interpretation waiting: bystander tp "harmless i" "\<lambda>d obs. unfinished tp i d" i for tp i
proof
  fix a d now assume a: "harmless i a" "unfinished tp i d"
  have "\<exists>r. find_import i (action_db tp now a d) = Some r \<and> im_status r \<noteq> Completed"
  proof (cases "touches i a")
    case True
    with a(1) have "a = Cancel_Import i" by (simp add: harmless_def leaves_def)
    with a(2) show ?thesis
      by (cases "update_import i cancelling d") (auto simp: run_tx_def unfinished_def dest: unfinished_cancel [OF a(2)])
  qed (use a(2) in \<open>auto simp: unfinished_def dest: action_other\<close>)
  then show "unfinished tp i (action_db tp now a d)"
    using a by (simp add: unfinished_def harmless_def db_ok_action)
next
  show "unfinished tp i d \<Longrightarrow> j \<noteq> i \<Longrightarrow> identity_kept g \<Longrightarrow> status_only g \<Longrightarrow> update_import j g d = Inr (r, d') \<Longrightarrow>
      unfinished tp i d'" for d j g r d'
    using update_other [of j g d r d' i] db_ok_update [of tp d j g r d'] by (simp add: unfinished_def)
qed (simp_all add: harmless_requests)

definition jobless :: "third_party \<Rightarrow> jsstring \<Rightarrow> system \<Rightarrow> bool" where
  "jobless tp i s \<longleftrightarrow> unfinished tp i (w_db (sy_world s)) \<and> \<not> queued i (sy_world s)"

lemma not_queued: "\<not> queued i w \<longleftrightarrow> on_queue (\<lambda>q. i \<notin> set q) w"
  by (simp add: queued_def on_queue_def)

text \<open>An upload never enqueues an import that exists.\<close>

lemma jobless_upload:
  "keeps (\<lambda>w. waiting.holds i tp w \<and> on_queue (\<lambda>q. i \<notin> set q) w) (createImport (buildImportService tp) p)"
proof -
  let ?I = "\<lambda>w. waiting.holds i tp w \<and> on_queue (\<lambda>q. i \<notin> set q) w"
  have upload: "keeps (on_queue (\<lambda>q. i \<notin> set q)) (case x of
      None \<Rightarrow> bind_io (db_query tp (find_import_by_key (cp_idempotencyKey p))) (\<lambda>existing. case existing of
          Some r \<Rightarrow> return_io r
        | None \<Rightarrow> throw_io (AppError INTERNAL_SERVER ''IMPORT_CREATE_FAILED'' ''Failed to create import''))
    | Some created \<Rightarrow> bind_io (generate tp) (\<lambda>uuid.
        bind_io (minio_store tp (storage_key (im_id created) uuid) (cp_fileStream p)) (\<lambda>stored.
          then_io (attachUploadedFile tp (im_id created) (attach_input_of p stored))
            (then_io (enqueueImportProcessing tp (im_id created)) (return_io created)))))"
    if "\<forall>r. x = Some r \<longrightarrow> im_id r \<noteq> i" for x :: "import_row option"
    by (intro on_queue_intros on_queue_upload) (use that in auto)
  have "on_queue (\<lambda>q. i \<notin> set q) (snd (createImport (buildImportService tp) p w))" if w: "?I w" for w
  proof (cases "createPendingImport tp (cp_idempotencyKey p) (cp_providerId p) w" rule: prod.exhaust)
    case (Pair res w1)
    with w have w1: "on_queue (\<lambda>q. i \<notin> set q) w1" by (blast dest: keepsD' [OF on_queue_pending])
    show ?thesis
    proof (cases res)
      case (Inr x)
      have "\<forall>r. x = Some r \<longrightarrow> im_id r \<noteq> i"
      proof (intro allI impI)
        fix r assume x: "x = Some r"
        show "im_id r \<noteq> i"
        proof (rule createPendingImport_InrE [OF Pair [unfolded Inr x]])
          fix t v d assume n: "next_tick tp w = (t, v)" and
            c: "create_import tp (w_now v) (cp_idempotencyKey p) (cp_providerId p) (w_db v) = Inr (r, d)"
          from waiting.holds_tick [OF conjunct1 [OF w] n] have "unfinished tp i (w_db v)"
            by (simp add: waiting.holds_def)
          then obtain m where "m < db_next (w_db v)" "i = tp_uuid tp m" "inj (tp_uuid tp)"
            by (auto simp: unfinished_def dest: drawn_id)
          with c show ?thesis by (auto simp: create_import_def Let_def inj_eq split: if_splits)
        qed
      qed
      from keepsD [OF upload [OF this] w1] Pair Inr show ?thesis
        unfolding createImport_def buildImportService_simps findByIdempotencyKey_def by simp
    qed (use Pair w1 in \<open>simp add: createImport_def\<close>)
  qed
  then show ?thesis using waiting.keeps_createImport [of i tp p] by (auto simp: keeps_def)
qed

lemma jobless_holds:
  assumes "jobless tp i s" "meanwhile i ts" "i \<notin> set queue"
  shows "waiting.holds i tp (sy_world s\<lparr>w_queue := queue, w_schedule := ts\<rparr>) \<and>
    on_queue (\<lambda>q. i \<notin> set q) (sy_world s\<lparr>w_queue := queue, w_schedule := ts\<rparr>)"
  using assms by (simp add: jobless_def waiting.holds_def meanwhile_def on_queue_def)

lemma jobless_world: "waiting.holds i tp w \<and> on_queue (\<lambda>q. i \<notin> set q) w \<Longrightarrow> jobless tp i (s\<lparr>sy_world := w\<rparr>)"
  by (simp add: jobless_def waiting.holds_def on_queue_def queued_def)

lemma jobless_request:
  assumes "jobless tp i s" "meanwhile i ts" "m (sy_world s\<lparr>w_schedule := ts\<rparr>) = (res, w')"
    and "keeps (\<lambda>w. waiting.holds i tp w \<and> on_queue (\<lambda>q. i \<notin> set q) w) m"
  shows "jobless tp i (s\<lparr>sy_world := w'\<rparr>)"
proof -
  have "m (sy_world s\<lparr>w_queue := w_queue (sy_world s), w_schedule := ts\<rparr>) = (res, w')" using assms(3) by simp
  from keepsD' [OF assms(4) jobless_holds [OF assms(1,2)] this] assms(1) show ?thesis
    by (intro jobless_world) (simp add: jobless_def queued_def)
qed

lemma jobless_delivery:
  assumes "jobless tp i s" "meanwhile i ts" "w_queue (sy_world s) = q @ j # q'"
    and "deliver_job tp cfg ts (q @ q') j (sy_world s) = (res, w')"
  shows "jobless tp i (s\<lparr>sy_world := w'\<rparr>)" "j \<noteq> i"
proof -
  let ?w = "sy_world s\<lparr>w_queue := q @ q', w_schedule := ts\<rparr>"
  have ji: "j \<noteq> i" "i \<notin> set (q @ q')" using assms(1,3) by (auto simp: jobless_def queued_def)
  then show "j \<noteq> i" by simp
  note h = jobless_holds [OF assms(1,2) ji(2)]
  from waiting.keeps_delivery [OF ji(1) conjunct1 [OF h], of cfg] assms(4) have "waiting.holds i tp w'"
    by (simp add: deliver_job_def)
  moreover have "on_queue (\<lambda>q. i \<notin> set q) w'"
    using on_queue_delivery [of "\<lambda>q. i \<notin> set q" j tp cfg] ji(1) assms(4) h
    by (auto simp: deliver_job_def dest: keepsD')
  ultimately show "jobless tp i (s\<lparr>sy_world := w'\<rparr>)" by (intro jobless_world) simp
qed

lemma jobless_more:
  "jobless tp i s \<Longrightarrow> jobless tp i (s\<lparr>sy_failed := ks\<rparr>)"
  "jobless tp i s \<Longrightarrow> j \<noteq> i \<Longrightarrow> jobless tp i (s\<lparr>sy_world := sy_world s\<lparr>w_queue := w_queue (sy_world s) @ [j]\<rparr>\<rparr>)"
  "jobless tp i s \<Longrightarrow> jobless tp i (s\<lparr>sy_world := sy_world s\<lparr>w_shuttingDown := b\<rparr>\<rparr>)"
  by (simp_all add: jobless_def queued_def)

lemma jobless_step:
  assumes "system_step tp cfg i s s'" "jobless tp i s"
  shows "jobless tp i s'"
  using assms(1)
proof cases
  case (Upload ts p res w')
  from jobless_request [OF assms(2) Upload(2,3) jobless_upload] Upload(1) show ?thesis by simp
next
  case (Cancel ts j res w')
  from jobless_request [OF assms(2) Cancel(2,3)
      keeps_conj [OF waiting.keeps_cancelImport on_queue_cancelImport]] Cancel(1) show ?thesis by simp
next
  case (Job_Done ts q j q' w')
  from jobless_delivery [OF assms(2) Job_Done(2-4)] Job_Done(1) show ?thesis by simp
next
  case (Job_Failed ts q j q' e w')
  from jobless_more(1) [OF jobless_delivery(1) [OF assms(2) Job_Failed(2-4)]] Job_Failed(1) show ?thesis by simp
next
  case (Job_Stalled ts q j q' res w')
  from jobless_more(2) [OF jobless_delivery [OF assms(2) Job_Stalled(2-4)]] Job_Stalled(1) show ?thesis by simp
next
  case (Job_Stalled_Too_Often ts q j q' res w')
  from jobless_more(1) [OF jobless_delivery(1) [OF assms(2) Job_Stalled_Too_Often(2-4)]] Job_Stalled_Too_Often(1)
  show ?thesis by simp
qed (use jobless_more(3) [OF assms(2)] in simp_all)

lemma execution_jobless: "execution tp cfg i s s' \<Longrightarrow> jobless tp i s \<Longrightarrow> jobless tp i s'"
  by (induction rule: execution.induct) (auto intro: jobless_step)

section \<open>Properties\<close>

text \<open>C2. No job is lost: an import whose job is in the queue is, after any execution of the
  system, either settled, or its job is still in the queue, or it is among the failed jobs
  that are kept; whatever fails, is cancelled, restarted, stalls or dies meanwhile.\<close>

theorem no_job_lost:
  assumes "execution tp cfg i s s'" "find_import i (w_db (sy_world s)) = Some r" "i \<in> set (w_queue (sy_world s))"
  shows "(\<exists>r'. find_import i (w_db (sy_world s')) = Some r' \<and> im_status r' \<notin> {Pending, Processing}) \<or>
    i \<in> set (w_queue (sy_world s')) \<or> i \<in> set (sy_failed s')"
proof -
  have "accounted i s" using assms(2,3) by (simp add: accounted_def handed_def queued_def has_row_def)
  from execution_accounted [OF assms(1) this] show ?thesis
    by (auto simp: accounted_def handed_def queued_def settled_def)
qed


text \<open>C3. An import can always be brought to its end: after any execution, an import with a job in
  the queue is settled, or starting the worker and delivering that job once, with nothing else
  going on, ends it: completed, cancelled, or (when the storage refuses a range at the very end
  of the file) marked failed with every line recorded.\<close>

theorem import_can_be_finished:
  assumes "execution tp cfg (jb_import job) s s'" "sound_record tp job k (w_db (sy_world s)) (w_objects (sy_world s))"
    and "short_lines (jb_bytes job)" "classify_all tp (file_lines (jb_bytes job)) = Inr cs" "list_all (storable tp) cs"
    and "\<forall>m<length (file_lines (jb_bytes job)). tp_range tp (offset_after (jb_bytes job) m) (int (length (jb_bytes job)))"
    and "jb_import job \<in> set (w_queue (sy_world s'))" "\<not> settled (jb_import job) (w_db (sy_world s'))"
  shows "\<exists>s''. execution tp cfg (jb_import job) s' s'' \<and> ended tp job (sy_world s'') \<and> sy_failed s'' = sy_failed s'"
proof -
  let ?i = "jb_import job"
  obtain q q' where q: "w_queue (sy_world s') = q @ ?i # q'" using assms(7) by (metis in_set_conv_decomp)
  define v where "v = s'\<lparr>sy_world := sy_world s'\<lparr>w_shuttingDown := False\<rparr>\<rparr>"
  let ?w = "sy_world v\<lparr>w_queue := q @ q', w_schedule := []\<rparr>"
  have "recorded_from tp job k (sy_world s)" using assms(2) by (auto simp: recorded_from_def)
  from execution_recorded [OF assms(1,3) this] obtain m where
    p: "progress tp job m (w_db ?w) (w_objects ?w)" by (auto simp: recorded_from_def sound_record_def v_def)
  then obtain row where row: "find_import ?i (w_db ?w) = Some row" by (rule progressE)
  with assms(8) have "im_status row \<in> {Pending, Processing}" by (auto simp: settled_def v_def)
  from left_in_peace [OF _ _ p assms(3) row this assms(4,5,6), of cfg] obtain w' where
    w': "deliver_job tp cfg [] (q @ q') ?i (sy_world v) = (Inr (), w')" "ended tp job w'"
    by (auto simp: deliver_job_def v_def)
  have "execution tp cfg ?i s' v" unfolding v_def by (rule execution_one [OF system_step.Start])
  moreover have "system_step tp cfg ?i v (v\<lparr>sy_world := w'\<rparr>)"
    by (rule system_step.Job_Done [OF _ _ w'(1)]) (simp_all add: meanwhile_def v_def q)
  ultimately have "execution tp cfg ?i s' (v\<lparr>sy_world := w'\<rparr>)" by (rule execution.step)
  with w'(2) show ?thesis by (intro exI [of _ "v\<lparr>sy_world := w'\<rparr>"]) (simp add: v_def)
qed

theorem no_job_lost_witness:
  "\<exists>s s'. execution no_third_party default_retry (js ''0'') s s' \<and> w_queue (sy_world s) = [js ''0''] \<and>
     ((\<exists>r'. find_import (js ''0'') (w_db (sy_world s')) = Some r' \<and> im_status r' \<notin> {Pending, Processing}) \<or>
      js ''0'' \<in> set (w_queue (sy_world s')) \<or> js ''0'' \<in> set (sy_failed s'))"
proof -
  obtain w' w'' where
    s: "w_queue w' = [js ''0'']" "find_import (js ''0'') (w_db w') = Some created_row"
    "execution no_third_party default_retry (js ''0'') \<lparr>sy_world = w', sy_failed = []\<rparr> \<lparr>sy_world = w'', sy_failed = []\<rparr>"
    by (rule sample_system)
  from no_job_lost [OF s(3)] s(1,2) have
    "(\<exists>r'. find_import (js ''0'') (w_db w'') = Some r' \<and> im_status r' \<notin> {Pending, Processing}) \<or>
      js ''0'' \<in> set (w_queue w'')" by simp
  with s(1,3) show ?thesis
    by (intro exI [of _ "\<lparr>sy_world = w', sy_failed = []\<rparr>"] exI [of _ "\<lparr>sy_world = w'', sy_failed = []\<rparr>"]) simp
qed


theorem import_can_be_finished_witness:
  "\<exists>s s'' uuid. w_queue (sy_world s) = [js ''0''] \<and> execution no_third_party default_retry (js ''0'') s s'' \<and>
     ended no_third_party (job_of created_row first_upload uuid) (sy_world s'')"
proof -
  obtain w' :: world and uuid where
    s: "w_queue w' = [js ''0'']" "find_import (js ''0'') (w_db w') = Some created_row"
    "sound_record no_third_party (job_of created_row first_upload uuid) 0 (w_db w') (w_objects w')"
    by (rule sample_system)
  let ?s = "\<lparr>sy_world = w', sy_failed = [] :: jsstring list\<rparr>" and ?job = "job_of created_row first_upload uuid"
  have i: "jb_import ?job = js ''0''" using created_world_facts(3) by simp
  have r: "\<forall>m<length (file_lines (jb_bytes ?job)).
      tp_range no_third_party (offset_after (jb_bytes ?job) m) (int (length (jb_bytes ?job)))"
    using upload_lines(3) by (simp add: offset_after_def)
  have q: "jb_import ?job \<in> set (w_queue (sy_world ?s))" "\<not> settled (jb_import ?job) (w_db (sy_world ?s))"
    unfolding i using s(1,2) by (simp_all add: settled_def) (simp add: created_row_def one_import_row_def)
  from s(3) upload_lines(1,2) have p: "sound_record no_third_party ?job 0 (w_db (sy_world ?s)) (w_objects (sy_world ?s))"
    "short_lines (jb_bytes ?job)" "classify_all no_third_party (file_lines (jb_bytes ?job)) = Inr [sample_class]"
    by simp_all
  from import_can_be_finished [OF execution.begins p sample_storable r q, of default_retry]
  obtain s'' where "execution no_third_party default_retry (js ''0'') ?s s''" "ended no_third_party ?job (sy_world s'')"
    unfolding i by blast
  with s(1) show ?thesis by (intro exI [of _ ?s] exI [of _ s''] exI [of _ uuid]) simp
qed

text \<open>A failed job strands its import: nothing in the program enqueues the job of an existing import again, so an
  import whose job is not in the queue and that is not completed never is.\<close>

theorem failed_job_strands_import:
  assumes "find_import i (w_db (sy_world s)) = Some r" "im_status r \<noteq> Completed" "i \<notin> set (w_queue (sy_world s))"
    and "db_ok tp (w_db (sy_world s))" "inj (tp_uuid tp)" "execution tp cfg i s s'"
  shows "i \<notin> set (w_queue (sy_world s')) \<and>
    (\<exists>r'. find_import i (w_db (sy_world s')) = Some r' \<and> im_status r' \<noteq> Completed)"
proof -
  have "jobless tp i s" using assms by (simp add: jobless_def unfinished_def queued_def)
  from execution_jobless [OF assms(6) this] show ?thesis by (simp add: jobless_def unfinished_def queued_def)
qed

text \<open>Such a state is reached: the object store fails on the read, and the database on the statement
  that would mark the import failed.\<close>

definition outage :: "tick list" where
  "outage = [quiet_tick, quiet_tick, quiet_tick, quiet_tick\<lparr>tk_fault := Fail_Before StorageError\<rparr>,
     quiet_tick\<lparr>tk_fault := Fail_Before PrismaInit\<rparr>]"

lemma outage_fails:
  assumes "find_import i (w_db w) = Some r" "im_status r = Pending" "\<not> im_cancelRequested r"
    and "find_file i (w_db w) = Some f"
  shows "\<exists>w' r'. deliver_job tp cfg outage queue i w = (Inl PrismaInit, w') \<and> w_queue w' = queue \<and>
    find_import i (w_db w') = Some r' \<and> im_status r' = Processing"
proof -
  have tick: "next_tick tp v = (t, v\<lparr>w_schedule := ts\<rparr>)"
    if "w_schedule v = t # ts" "tk_elapsed t = 0" "tk_actions t = []" for v t ts
    using that by (simp add: next_tick_def)
  obtain d where u: "update_import i (processing_at (w_now w)) (w_db w) = Inr (processing_at (w_now w) r, d)"
    using assms(1) by (auto simp: update_import_def)
  have "im_id (processing_at now x) = im_id x" for now x by (simp add: processing_at_def)
  from find_import_update [OF u this] have d: "find_import i d = Some (processing_at (w_now w) r)" by simp
  show ?thesis
    using assms u d
    by (simp add: deliver_job_def process_def process_file_def findById_def getUploadedFile_def db_query_def call_def outage_def
        tick quiet_tick_def incrementGauge_def bind_io_apply then_io_apply catch_io_apply markProcessing_def update_now_def
        db_call_def minio_read_def markFailed_def processing_at_def)
qed

theorem failed_job_strands_import_witness:
  "\<exists>s. execution no_third_party default_retry (js ''0'')
       \<lparr>sy_world = snd (createImport (buildImportService no_third_party) first_upload (world_of empty_db)), sy_failed = []\<rparr> s \<and>
     sy_failed s = [js ''0''] \<and>
     (\<forall>s'. execution no_third_party default_retry (js ''0'') s s' \<longrightarrow>
        (\<exists>r. find_import (js ''0'') (w_db (sy_world s')) = Some r \<and> im_status r \<noteq> Completed))"
proof -
  obtain w' uuid where
    s: "createImport (buildImportService no_third_party) first_upload (world_of empty_db) = (Inr created_row, w')"
      "w_queue w' = [js ''0'']" "find_import (js ''0'') (w_db w') = Some created_row"
      "sound_record no_third_party (job_of created_row first_upload uuid) 0 (w_db w') (w_objects w')"
    by (rule sample_system)
  have ok: "db_ok no_third_party (w_db w')" using s(4) by (simp add: sound_record_def)
  obtain f where f: "find_file (js ''0'') (w_db w') = Some f"
    using s(4) created_world_facts(3) by (auto simp: sound_record_def elim!: progressE)
  have "im_status created_row = Pending" "\<not> im_cancelRequested created_row"
    by (simp_all add: created_row_def one_import_row_def)
  from outage_fails [OF s(3) this f, of no_third_party default_retry "[]"] obtain w'' r where
    d: "deliver_job no_third_party default_retry outage [] (js ''0'') w' = (Inl PrismaInit, w'')" "w_queue w'' = []"
      "find_import (js ''0'') (w_db w'') = Some r" "im_status r \<noteq> Completed" by auto
  have m: "meanwhile i outage" for i by (simp add: meanwhile_def outage_def quiet_tick_def)
  have "consistent.holds no_third_party (w'\<lparr>w_queue := [], w_schedule := outage\<rparr>)"
    by (rule consistent_holdsI [where i = "js ''0''"]) (simp_all add: ok m)
  from keepsD' [OF accounting.keeps_run this d(1) [unfolded deliver_job_def]] no_slash(2)
  have ok': "db_ok no_third_party (w_db w'')" by (rule consistent_db_ok)
  let ?s = "\<lparr>sy_world = w', sy_failed = [] :: jsstring list\<rparr>"
  let ?t = "?s\<lparr>sy_world := w'', sy_failed := sy_failed ?s @ [js ''0'']\<rparr>"
  have "system_step no_third_party default_retry (js ''0'') ?s ?t"
    by (rule system_step.Job_Failed [OF m, where q = "[]" and q' = "[]"]) (use s(2) d(1) in simp_all)
  then have e: "execution no_third_party default_retry (js ''0'') ?s ?t" by (rule execution_one)
  have "\<exists>r. find_import (js ''0'') (w_db (sy_world s')) = Some r \<and> im_status r \<noteq> Completed"
    if "execution no_third_party default_retry (js ''0'') ?t s'" for s'
    using failed_job_strands_import [OF _ d(4) _ _ no_slash(2) that] d(2,3) ok' by simp
  with e s(1) show ?thesis by (intro exI [of _ ?t]) simp
qed

end
