(* ===== verification/Overlap.thy ===== *)
theory Overlap
  imports Progress
begin

text \<open>
  Two batch transactions at the same time.  \<open>commitBatchOnce\<close> of
  \<open>src/modules/imports/imports.repository.ts\<close> reads the checkpoint (\<open>findUniqueOrThrow\<close>, no
  lock) and then writes, in a transaction of PostgreSQL's default isolation level, Read
  Committed.  Elsewhere a transaction is one atomic step, which is right while one worker at a
  time holds an import; here it is two, the guard and the writes, as another worker that was
  handed the same job (after a stall of the first) can come in between.  The writes stay one
  step: they are visible together at the commit, and the rows of the import and of equal keys are
  locked until then.

  The accounting invariant survives every such interleaving, and no transaction is stored
  twice; the guard does not, so a batch can be counted twice, and its rejections stored twice.
\<close>

section \<open>The transaction in two steps\<close>

definition commit_guard :: "jsstring \<Rightarrow> commit_input \<Rightarrow> db \<Rightarrow> exn + bool" where
  "commit_guard importId input d =
     (case find_import importId d of
        None \<Rightarrow> Inl (PrismaKnown ''P2025'')
      | Some current \<Rightarrow> Inr (ci_checkpointLineNumber input \<le> im_checkpointLineNumber current))"

definition commit_writes ::
  "third_party \<Rightarrow> int \<Rightarrow> jsstring \<Rightarrow> commit_input \<Rightarrow> commit_result tx" where
  "commit_writes tp now importId input d =
     (case (if ci_acceptedTransactions input = [] then Inr (0, d)
            else create_many_transactions tp now importId (ci_acceptedTransactions input) d) of
        Inl e \<Rightarrow> Inl e
      | Inr (n, d1) \<Rightarrow>
          (case (if ci_rejectedRecords input = [] then Inr ((), d1)
                 else create_many_rejected tp now importId (ci_rejectedRecords input) d1) of
             Inl e \<Rightarrow> Inl e
           | Inr (_, d2) \<Rightarrow>
               (case update_import importId (advance_import input (int n)) d2 of
                  Inl e \<Rightarrow> Inl e
                | Inr (_, d3) \<Rightarrow>
                    Inr (\<lparr>cr_acceptedCount = int n,
                          cr_duplicateCount = int (length (ci_acceptedTransactions input)) - int n\<rparr>, d3))))"

lemma commit_in_two_steps:
  "commit_batch_tx tp now i input d =
     (case commit_guard i input d of
        Inl e \<Rightarrow> Inl e
      | Inr done \<Rightarrow>
          if done then Inr (\<lparr>cr_acceptedCount = 0, cr_duplicateCount = 0\<rparr>, d)
          else commit_writes tp now i input d)"
  by (simp add: commit_batch_tx_def commit_guard_def commit_writes_def split: option.split)

section \<open>Sessions\<close>

text \<open>The transactions under way for one import: waiting to read, having passed the guard, ended.\<close>

datatype session = Reading commit_input | Writing commit_input | Ended "exn + commit_result"

inductive session_step ::
  "third_party \<Rightarrow> jsstring \<Rightarrow> session list \<times> db \<Rightarrow> session list \<times> db \<Rightarrow> bool"
  for tp :: third_party and i :: jsstring where
  Read_Checkpoint: "k < length ss \<Longrightarrow> ss ! k = Reading input \<Longrightarrow> commit_guard i input d = Inr False \<Longrightarrow>
    session_step tp i (ss, d) (ss[k := Writing input], d)"
| Already_Done: "k < length ss \<Longrightarrow> ss ! k = Reading input \<Longrightarrow> commit_guard i input d = Inr True \<Longrightarrow>
    session_step tp i (ss, d) (ss[k := Ended (Inr \<lparr>cr_acceptedCount = 0, cr_duplicateCount = 0\<rparr>)], d)"
| No_Import: "k < length ss \<Longrightarrow> ss ! k = Reading input \<Longrightarrow> commit_guard i input d = Inl e \<Longrightarrow>
    session_step tp i (ss, d) (ss[k := Ended (Inl e)], d)"
| Write: "k < length ss \<Longrightarrow> ss ! k = Writing input \<Longrightarrow> commit_writes tp now i input d = Inr (res, d') \<Longrightarrow>
    session_step tp i (ss, d) (ss[k := Ended (Inr res)], d')"
| Roll_Back: "k < length ss \<Longrightarrow> ss ! k = Writing input \<Longrightarrow> session_step tp i (ss, d) (ss[k := Ended (Inl e)], d)"

inductive_cases session_stepE: "session_step tp i (ss, d) s'"

inductive sessions ::
  "third_party \<Rightarrow> jsstring \<Rightarrow> session list \<times> db \<Rightarrow> session list \<times> db \<Rightarrow> bool"
  for tp :: third_party and i :: jsstring where
  open_sessions: "sessions tp i s s"
| interleave: "sessions tp i s s' \<Longrightarrow> session_step tp i s' s'' \<Longrightarrow> sessions tp i s s''"

section \<open>What survives\<close>

text \<open>The writes are those of a transaction that found an older checkpoint.\<close>

definition rewound :: "commit_input \<Rightarrow> import_row \<Rightarrow> import_row" where
  "rewound input r = r\<lparr>im_checkpointLineNumber := ci_checkpointLineNumber input - 1\<rparr>"

definition rewind :: "jsstring \<Rightarrow> commit_input \<Rightarrow> db \<Rightarrow> db" where
  "rewind i input d = run_tx (update_import i (rewound input)) d"

lemma rewind_db:
  "rewind i input d = (if find_import i d = None then d
     else d\<lparr>db_imports := map (\<lambda>r. if im_id r = i then rewound input r else r) (db_imports d)\<rparr>)"
  by (auto simp: rewind_def run_tx_def update_import_def split: option.split)

lemma find_rewind: "find_import i (rewind i input d) = map_option (rewound input) (find_import i d)"
proof (cases "find_import i d")
  case None
  then show ?thesis by (simp add: rewind_db)
next
  case (Some r)
  have id: "im_id (rewound input x) = im_id x" for x by (simp add: rewound_def)
  obtain d' where u: "update_import i (rewound input) d = Inr (rewound input r, d')"
    using Some by (auto simp: update_import_def)
  with find_import_update [OF u id] Some show ?thesis by (simp add: rewind_def run_tx_def)
qed

lemma advance_rewound [simp]: "advance_import input n (rewound input r) = advance_import input n r"
  by (simp add: advance_import_def rewound_def)

lemma create_many_imports:
  "create_many_transactions tp now i ts (d\<lparr>db_imports := rs\<rparr>) =
     map_sum id (map_prod id (\<lambda>d. d\<lparr>db_imports := rs\<rparr>)) (create_many_transactions tp now i ts d)"
  "create_many_rejected tp now i rejs (d\<lparr>db_imports := rs\<rparr>) =
     map_sum id (map_prod id (\<lambda>d. d\<lparr>db_imports := rs\<rparr>)) (create_many_rejected tp now i rejs d)"
  by (simp_all add: create_many_transactions_def create_many_rejected_def split: sum.split prod.split)

lemma create_many_keeps_imports:
  "create_many_transactions tp now i ts d = Inr (n, d') \<Longrightarrow> db_imports d' = db_imports d"
  "create_many_rejected tp now i rejs d = Inr (u, d') \<Longrightarrow> db_imports d' = db_imports d"
  by (auto simp: create_many_transactions_def create_many_rejected_def split: sum.splits prod.splits)

lemma update_rewound:
  "update_import i (advance_import input n)
      (d\<lparr>db_imports := map (\<lambda>r. if im_id r = i then rewound input r else r) (db_imports d)\<rparr>) =
    update_import i (advance_import input n) d"
proof -
  let ?f = "\<lambda>r. if im_id r = i then rewound input r else r"
  have id: "im_id (rewound input x) = im_id x" for x by (simp add: rewound_def)
  have "find_import i (d\<lparr>db_imports := map ?f (db_imports d)\<rparr>) = map_option ?f (find_import i d)"
    unfolding find_import_def by (simp, intro find_cong_map) (simp add: id)
  moreover have "map (\<lambda>r. if im_id r = i then advance_import input n r else r) (map ?f (db_imports d)) =
      map (\<lambda>r. if im_id r = i then advance_import input n r else r) (db_imports d)"
    by (simp add: id)
  ultimately show ?thesis
  proof (cases "find_import i d")
    case (Some r)
    moreover from Some have "im_id r = i" by (simp add: find_import_SomeD)
    ultimately show ?thesis
      using \<open>find_import i (d\<lparr>db_imports := map ?f (db_imports d)\<rparr>) = map_option ?f (find_import i d)\<close>
        \<open>map _ (map ?f (db_imports d)) = _\<close>
      by (simp add: update_import_def del: map_map)
  qed (simp add: update_import_def)
qed

lemma writes_rewound:
  assumes "find_import i d = Some r"
  shows "commit_writes tp now i input (rewind i input d) = commit_writes tp now i input d"
proof -
  let ?rs = "map (\<lambda>r. if im_id r = i then rewound input r else r) (db_imports d)"
  let ?g = "map_sum id (map_prod id (\<lambda>d. d\<lparr>db_imports := ?rs\<rparr>))"
  let ?first = "if ci_acceptedTransactions input = [] then Inr (0, d)
      else create_many_transactions tp now i (ci_acceptedTransactions input) d"
  let ?second = "\<lambda>d1. if ci_rejectedRecords input = [] then Inr ((), d1)
      else create_many_rejected tp now i (ci_rejectedRecords input) d1"
  have w: "rewind i input d = d\<lparr>db_imports := ?rs\<rparr>" using assms by (simp add: rewind_db)
  have first: "(if ci_acceptedTransactions input = [] then Inr (0, d\<lparr>db_imports := ?rs\<rparr>)
      else create_many_transactions tp now i (ci_acceptedTransactions input) (d\<lparr>db_imports := ?rs\<rparr>)) = ?g ?first"
    by (simp add: create_many_imports)
  have second: "(if ci_rejectedRecords input = [] then Inr ((), d1\<lparr>db_imports := ?rs\<rparr>)
      else create_many_rejected tp now i (ci_rejectedRecords input) (d1\<lparr>db_imports := ?rs\<rparr>)) = ?g (?second d1)" for d1
    by (simp add: create_many_imports)
  have keep1: "db_imports d1 = db_imports d" if "?first = Inr (n, d1)" for n d1
    using that create_many_keeps_imports(1) by (auto split: if_splits)
  have keep2: "db_imports d2 = db_imports d1" if "?second d1 = Inr (u, d2)" for d1 u d2
    using that create_many_keeps_imports(2) by (auto split: if_splits)
  show ?thesis
  proof (cases ?first)
    case (Inl e)
    then show ?thesis unfolding commit_writes_def w first by simp
  next
    case (Inr p)
    obtain n d1 where p: "p = (n, d1)" by (cases p)
    note f = Inr [unfolded p]
    show ?thesis
    proof (cases "?second d1")
      case (Inl e)
      then show ?thesis unfolding commit_writes_def w first f by (simp add: second [unfolded Inl] del: if_split)
    next
      case (Inr q)
      obtain u d2 where q: "q = (u, d2)" by (cases q)
      have rows: "db_imports d2 = db_imports d" using keep1 [OF f] keep2 [OF Inr [unfolded q]] by simp
      have "update_import i (advance_import input (int n)) (d2\<lparr>db_imports := ?rs\<rparr>) =
          update_import i (advance_import input (int n)) d2"
        using update_rewound [of i input "int n" d2] unfolding rows .
      with Inr q show ?thesis unfolding commit_writes_def w first f by (simp add: second [unfolded Inr q])
    qed
  qed
qed

lemma writes_as_commit:
  assumes "find_import i d = Some r"
  shows "commit_batch_tx tp now i input (rewind i input d) = commit_writes tp now i input d"
  using assms writes_rewound [OF assms, of tp now input]
  by (simp add: commit_in_two_steps commit_guard_def find_rewind) (simp add: rewound_def)

lemma db_ok_writes:
  assumes "commit_writes tp now i input d = Inr (res, d')" "db_ok tp d" "find_import i d = Some r" "batch_ok input"
  shows "db_ok tp d'"
proof -
  have "status_only (rewound input)" by (simp add: status_only_def rewound_def)
  then have "db_ok tp (rewind i input d)"
    using assms(2) by (auto simp: rewind_def run_tx_def split: sum.split intro: db_ok_update)
  moreover have "commit_batch_tx tp now i input (rewind i input d) = Inr (res, d')"
    using writes_as_commit [OF assms(3)] assms(1) by simp
  ultimately show ?thesis using assms(4) by (blast intro: db_ok_commit)
qed

lemma writes_need_import: "commit_writes tp now i input d = Inr (res, d') \<Longrightarrow> find_import i d \<noteq> None"
  by (auto simp: commit_writes_def update_import_def find_import_def create_many_keeps_imports
      split: sum.splits prod.splits if_splits option.splits)

fun honest :: "session \<Rightarrow> bool" where
  "honest (Reading input) = batch_ok input"
| "honest (Writing input) = batch_ok input"
| "honest (Ended res) = True"

text \<open>C25. The accounting invariant holds however the statements of concurrent batches of one import
  interleave: no transaction key is stored twice, and the counters are the numbers of rows.\<close>

theorem overlap_keeps_accounting:
  assumes "sessions tp i (ss, d) (ss', d')" "db_ok tp d" "list_all honest ss"
  shows "db_ok tp d' \<and> list_all honest ss'"
  using assms
proof (induction "(ss, d)" "(ss', d')" arbitrary: ss' d' rule: sessions.induct)
  case (interleave s')
  obtain ss1 d1 where s': "s' = (ss1, d1)" by (cases s')
  with interleave have ok: "db_ok tp d1" "list_all honest ss1" by simp_all
  have other: "list_all honest (ss1[k := x])" if "honest x" for k x
    using ok(2) that set_update_subset_insert [of ss1 k x] by (auto simp: list_all_iff)
  from interleave(3) [unfolded s'] show ?case
  proof cases
    case (Write k input now res)
    then have "batch_ok input" using ok(2) by (metis honest.simps(2) list_all_length)
    with Write ok(1) show ?thesis
      using writes_need_import [of tp now i input d1] by (auto intro: db_ok_writes other)
  qed (use ok other in \<open>auto simp: list_all_length\<close>)
qed simp

lemma transaction_rows_again:
  "transaction_rows tp now i k ts = Inr rs \<Longrightarrow> \<exists>rs'. transaction_rows tp now' i k' ts = Inr rs'"
proof (induction ts arbitrary: k k' rs)
  case (Cons t ts)
  then obtain r rest where r: "transaction_row_of tp now i k t = Inr r" "transaction_rows tp now i (k + 1) ts = Inr rest"
    by (auto split: sum.splits)
  from Cons.IH [OF r(2), of "k' + 1"] obtain rest' where "transaction_rows tp now' i (k' + 1) ts = Inr rest'" by blast
  moreover have "\<exists>r'. transaction_row_of tp now' i k' t = Inr r'"
    using r(1) by (auto simp: transaction_row_of_def split: sum.splits option.splits)
  ultimately show ?case by auto
qed simp

lemma rejected_rows_again:
  "rejected_rows tp now i k xs = Inr rs \<Longrightarrow> \<exists>rs'. rejected_rows tp now' i k' xs = Inr rs'"
proof (induction xs arbitrary: k k' rs)
  case (Cons x xs)
  then obtain raw rest where r: "tp_jsonb tp (rj_rawValue x) = Inr raw" "rejected_rows tp now i (k + 1) xs = Inr rest"
    by (auto split: sum.splits)
  from Cons.IH [OF r(2), of "k' + 1"] r(1) show ?case by auto
qed simp

lemma committed_counts:
  assumes "commit_batch_tx tp now i input d = Inr (res, d')" "find_import i d = Some r"
    and "im_checkpointLineNumber r < ci_checkpointLineNumber input"
  obtains n rows where "find_import i d' = Some (advance_import input n r)"
    "rejected_of_import i d' = rejected_of_import i d @ rows" "length rows = length (ci_rejectedRecords input)"
proof (rule committed_rows [OF assms])
  fix new rows
  assume c: "find_import i d' = Some (advance_import input (int (length new)) r)"
    "rejected_of_import i d' = rejected_of_import i d @ rows"
    "list_all2 (rejected_as tp) (ci_rejectedRecords input) rows"
  show thesis by (rule that [OF c(1,2)]) (simp add: list_all2_lengthD [OF c(3)])
qed

text \<open>The writes of a batch that passed the guard and was committed meanwhile succeed again.\<close>

lemma writes_again:
  assumes "commit_batch_tx tp now i input d = Inr (res, d1)" "find_import i d = Some r"
    and "im_checkpointLineNumber r < ci_checkpointLineNumber input"
  shows "\<exists>res2 d2. commit_writes tp now2 i input d1 = Inr (res2, d2)"
proof -
  from assms(1) show ?thesis
  proof (cases rule: commit_batch_txE)
    case (committed cur rs rows)
    obtain n where f: "find_import i d1 = Some (advance_import input n r)" by (rule committed_counts [OF assms])
    let ?d = "rewind i input d1"
    have "find_import i ?d = Some (rewound input (advance_import input n r))" using f by (simp add: find_rewind)
    moreover have "im_checkpointLineNumber (rewound input (advance_import input n r)) < ci_checkpointLineNumber input"
      by (simp add: rewound_def)
    moreover obtain rs2 where "transaction_rows tp now2 i (db_next ?d) (ci_acceptedTransactions input) = Inr rs2"
      using transaction_rows_again [OF committed(3)] by blast
    moreover obtain rows2 where
      "rejected_rows tp now2 i (db_next ?d + length rs2) (ci_rejectedRecords input) = Inr rows2"
      using rejected_rows_again [OF committed(4)] by blast
    ultimately obtain res2 d2 where "commit_batch_tx tp now2 i input ?d = Inr (res2, d2)"
      using commit_batch_tx_returns by blast
    with writes_as_commit [OF f] show ?thesis by auto
  qed (use assms in simp)
qed

text \<open>Two workers with one batch, both past the guard before either commits: the batch is counted
  twice and each of its rejections is stored twice, and both are told that they committed.\<close>

theorem overlapping_commits_count_twice:
  assumes "commit_batch_tx tp now i input d = Inr (res, d1)" "find_import i d = Some r"
    and "im_checkpointLineNumber r < ci_checkpointLineNumber input"
  shows "\<exists>res2 d2 r2. sessions tp i ([Reading input, Reading input], d) ([Ended (Inr res), Ended (Inr res2)], d2) \<and>
    find_import i d2 = Some r2 \<and>
    im_processedCount r2 = im_processedCount r + 2 * int (ci_processedDelta input) \<and>
    im_rejectedCount r2 = im_rejectedCount r + 2 * int (length (ci_rejectedRecords input)) \<and>
    length (rejected_of_import i d2) = length (rejected_of_import i d) + 2 * length (ci_rejectedRecords input)"
proof -
  have guard: "commit_guard i input d = Inr False" using assms(2,3) by (simp add: commit_guard_def)
  with assms(1) have w1: "commit_writes tp now i input d = Inr (res, d1)" by (simp add: commit_in_two_steps)
  from writes_again [OF assms] obtain res2 d2 where w2: "commit_writes tp now i input d1 = Inr (res2, d2)" by blast
  obtain n1 rows1 where
    1: "find_import i d1 = Some (advance_import input n1 r)" "rejected_of_import i d1 = rejected_of_import i d @ rows1"
      "length rows1 = length (ci_rejectedRecords input)" by (rule committed_counts [OF assms])
  let ?r1 = "rewound input (advance_import input n1 r)" and ?d1 = "rewind i input d1"
  have c2: "commit_batch_tx tp now i input ?d1 = Inr (res2, d2)" "find_import i ?d1 = Some ?r1"
    "im_checkpointLineNumber ?r1 < ci_checkpointLineNumber input"
    using w2 writes_as_commit [OF 1(1)] 1(1) by (simp_all add: find_rewind) (simp add: rewound_def)
  obtain n2 rows2 where
    2: "find_import i d2 = Some (advance_import input n2 ?r1)" "rejected_of_import i d2 = rejected_of_import i ?d1 @ rows2"
      "length rows2 = length (ci_rejectedRecords input)" by (rule committed_counts [OF c2])
  have same: "rejected_of_import i ?d1 = rejected_of_import i d1" by (simp add: rewind_db rejected_of_import_def)
  let ?s0 = "[Reading input, Reading input]" and ?s1 = "[Writing input, Reading input]"
    and ?s2 = "[Writing input, Writing input]" and ?s3 = "[Ended (Inr res), Writing input]"
  have "session_step tp i (?s0, d) (?s1, d)" "session_step tp i (?s1, d) (?s2, d)"
    "session_step tp i (?s2, d) (?s3, d1)" "session_step tp i (?s3, d1) ([Ended (Inr res), Ended (Inr res2)], d2)"
    using session_step.Read_Checkpoint [of 0 ?s0 input i d tp] session_step.Read_Checkpoint [of 1 ?s1 input i d tp]
      session_step.Write [of 0 ?s2 input tp now i d res d1] session_step.Write [of 1 ?s3 input tp now i d1 res2 d2]
      guard w1 w2 by simp_all
  from sessions.interleave [OF sessions.interleave [OF sessions.interleave [OF sessions.interleave
      [OF sessions.open_sessions this(1)] this(2)] this(3)] this(4)]
  have "sessions tp i (?s0, d) ([Ended (Inr res), Ended (Inr res2)], d2)" .
  then show ?thesis
    using 1(2,3) 2 same by (intro exI [of _ res2] exI [of _ d2]) (simp add: advance_import_def rewound_def)
qed

definition one_rejection :: commit_input where
  "one_rejection =
     \<lparr>ci_acceptedTransactions = [],
      ci_rejectedRecords = [\<lparr>rj_lineNumber = 1, rj_reasonCode = ''INVALID_JSON'',
        rj_message = ''Line is not valid JSON'', rj_rawValue = JStr []\<rparr>],
      ci_processedDelta = 1, ci_checkpointOffset = 3, ci_checkpointLineNumber = 1\<rparr>"

lemma one_rejection_commits:
  "\<exists>res d. commit_batch_tx no_third_party 9 (js ''0'') one_rejection one_import_db = Inr (res, d)"
  by (rule commit_batch_tx_returns [of _ _ one_import_row _ _ _ "[]"])
    (simp_all add: one_rejection_def)

theorem overlapping_commits_count_twice_witness:
  "\<exists>ss d. sessions no_third_party (js ''0'') ([Reading one_rejection, Reading one_rejection], one_import_db) (ss, d) \<and>
     length (rejected_of_import (js ''0'') d) = 2"
proof -
  have f: "find_import (js ''0'') one_import_db = Some one_import_row"
    "im_checkpointLineNumber one_import_row < ci_checkpointLineNumber one_rejection"
    by (simp_all add: one_rejection_def)
  from one_rejection_commits obtain res d1 where
    "commit_batch_tx no_third_party 9 (js ''0'') one_rejection one_import_db = Inr (res, d1)" by blast
  from overlapping_commits_count_twice [OF this f] obtain ss d where
    "sessions no_third_party (js ''0'') ([Reading one_rejection, Reading one_rejection], one_import_db) (ss, d)"
    "length (rejected_of_import (js ''0'') d) =
      length (rejected_of_import (js ''0'') one_import_db) + 2 * length (ci_rejectedRecords one_rejection)" by blast
  then show ?thesis
    by (intro exI [of _ ss] exI [of _ d]) (simp add: one_rejection_def rejected_of_import_def)
qed

lemma one_import_db_ok: "db_ok no_third_party one_import_db"
  using db_ok_create_import [OF empty_db_ok one_import_db_created] no_third_party_ids by (simp add: ids_fit_def)

theorem overlap_keeps_accounting_witness:
  "\<exists>ss d. sessions no_third_party (js ''0'') ([Reading one_rejection], one_import_db) (ss, d) \<and>
     ss \<noteq> [Reading one_rejection] \<and> db_ok no_third_party d"
proof -
  have "commit_guard (js ''0'') one_rejection one_import_db = Inr False"
    by (simp add: commit_guard_def one_rejection_def)
  then have "session_step no_third_party (js ''0'') ([Reading one_rejection], one_import_db) ([Writing one_rejection], one_import_db)"
    using session_step.Read_Checkpoint [of 0 "[Reading one_rejection]" one_rejection "js ''0''" one_import_db] by simp
  then have s: "sessions no_third_party (js ''0'') ([Reading one_rejection], one_import_db) ([Writing one_rejection], one_import_db)"
    by (rule sessions.interleave [OF sessions.open_sessions])
  have "list_all honest [Reading one_rejection]" by (simp add: batch_ok_def one_rejection_def)
  from overlap_keeps_accounting [OF s one_import_db_ok this] s show ?thesis by blast
qed

end
