(* ===== verification/Http.thy ===== *)
theory Http
  imports Service
begin

text \<open>
  What the server answers: responses with a status and a JSON body, the error bodies of
  \<open>sendError\<close>, \<open>handleControllerError\<close> and \<open>createUncaughtErrorHandler\<close>, the envelope
  \<open>ResponseJSON\<close> with its \<open>sanitize\<close>, and the middleware in \<open>src/shared/middleware\<close> that
  decides whether a request goes on (\<open>authenticate\<close>, \<open>basicAuth\<close>, \<open>requestId\<close>).

  A body is the JSON value the client receives: a \<open>Date\<close> is its \<open>toISOString\<close> text, a property
  that is \<open>undefined\<close> is left out.
\<close>

section \<open>Responses\<close>

record response =
  rs_status :: nat
  rs_body :: json

definition CONFLICT :: nat where "CONFLICT = 409"

definition UNAUTHORIZED_MESSAGE :: string where
  "UNAUTHORIZED_MESSAGE = ''You are not authorized to execute this operation''"

definition BAD_REQUEST_MESSAGE :: string where
  "BAD_REQUEST_MESSAGE = ''You made a bad request''"

definition INTERNAL_SERVER_MESSAGE :: string where
  "INTERNAL_SERVER_MESSAGE = ''Internal error''"

definition obj :: "(string \<times> json) list \<Rightarrow> json" where
  "obj ps = JObj (map (\<lambda>(k, v). (js k, v)) ps)"

definition chars :: "string \<Rightarrow> json" where
  "chars s = JStr (js s)"

definition number :: "int \<Rightarrow> json" where
  "number n = JNum (Fin (of_int n))"

definition date :: "int \<Rightarrow> json" where
  "date t = JStr (to_iso_string t)"

definition nullable :: "('a \<Rightarrow> json) \<Rightarrow> 'a option \<Rightarrow> json" where
  "nullable f x = (case x of None \<Rightarrow> JNull | Some a \<Rightarrow> f a)"

section \<open>Errors\<close>

definition error_body :: "jsstring \<Rightarrow> string \<Rightarrow> string \<Rightarrow> json" where
  "error_body requestId code message =
     obj [(''error'', obj [(''code'', chars code), (''message'', chars message),
                            (''requestId'', JStr requestId)])]"

fun sendError :: "jsstring \<Rightarrow> exn \<Rightarrow> response" where
  "sendError requestId (AppError status code message) =
     \<lparr>rs_status = status, rs_body = error_body requestId code message\<rparr>"
| "sendError requestId _ =
     \<lparr>rs_status = INTERNAL_SERVER,
      rs_body = error_body requestId ''INTERNAL_ERROR'' ''An unexpected error occurred''\<rparr>"

definition unCaughtErrorHandler :: response where
  "unCaughtErrorHandler =
     \<lparr>rs_status = 500, rs_body = obj [(''error'', chars ''Internal server error'')]\<rparr>"

section \<open>ResponseJSON\<close>

definition SENSITIVE_FIELDS :: "jsstring list" where
  "SENSITIVE_FIELDS = [js ''password'']"

text \<open>\<open>result[key] = value\<close>; an assignment to \<open>__proto__\<close> makes no property.\<close>

definition assign_property :: "jsstring \<Rightarrow> json \<Rightarrow> (jsstring \<times> json) list \<Rightarrow> (jsstring \<times> json) list" where
  "assign_property k v ps = (if k = js ''__proto__'' then ps else set_property k v ps)"

fun sanitize :: "json \<Rightarrow> json" where
  "sanitize (JArr xs) = JArr (map sanitize xs)"
| "sanitize (JObj ps) =
     JObj (fold (\<lambda>(k, v) result.
             if k \<in> set SENSITIVE_FIELDS \<or> v = JNull then result
             else assign_property k (sanitize v) result) ps [])"
| "sanitize v = v"

definition ResponseJSON :: "string \<Rightarrow> nat \<Rightarrow> bool \<Rightarrow> json option \<Rightarrow> json" where
  "ResponseJSON msg statusCode error data =
     obj ([(''msg'', chars msg), (''error'', JBool error), (''statusCode'', number (int statusCode))] @
          (case data of None \<Rightarrow> [] | Some d \<Rightarrow> [(''data'', sanitize d)]))"

fun handleControllerError :: "exn \<Rightarrow> response" where
  "handleControllerError (ApiError status message) =
     \<lparr>rs_status = status, rs_body = ResponseJSON message status True None\<rparr>"
| "handleControllerError _ =
     \<lparr>rs_status = INTERNAL_SERVER,
      rs_body = ResponseJSON INTERNAL_SERVER_MESSAGE INTERNAL_SERVER True None\<rparr>"

section \<open>Middleware\<close>

text \<open>A middleware answers the request, or passes it on.\<close>

datatype 'a middleware = Answer response | Pass 'a

definition after_prefix :: "string \<Rightarrow> jsstring option \<Rightarrow> jsstring option" where
  "after_prefix p header =
     (case header of
        None \<Rightarrow> None
      | Some h \<Rightarrow> if take (length p) h = js p then Some (drop (length p) h) else None)"

definition unauthorized :: response where
  "unauthorized =
     \<lparr>rs_status = UNAUTHORIZED, rs_body = obj [(''message'', chars UNAUTHORIZED_MESSAGE)]\<rparr>"

text \<open>\<open>verify\<close> is \<open>jwt.verify\<close> with the secret of the process.\<close>

definition authenticate :: "(jsstring \<Rightarrow> exn + json) \<Rightarrow> jsstring option \<Rightarrow> json middleware" where
  "authenticate verify authHeader =
     (case after_prefix ''Bearer '' authHeader of
        None \<Rightarrow> Answer unauthorized
      | Some token \<Rightarrow>
          if token = [] then Answer unauthorized
          else (case verify token of Inl _ \<Rightarrow> Answer unauthorized | Inr user \<Rightarrow> Pass user))"

definition basicAuth :: "jsstring \<Rightarrow> jsstring \<Rightarrow> jsstring option \<Rightarrow> unit middleware" where
  "basicAuth username password header =
     (case after_prefix ''Basic '' header of
        Some provided \<Rightarrow>
          if provided \<noteq> [] \<and> utf8_decode (base64url_decode provided) = username @ js '':'' @ password
          then Pass ()
          else Answer \<lparr>rs_status = 401, rs_body = obj [(''message'', chars ''Authentication required'')]\<rparr>
      | None \<Rightarrow> Answer \<lparr>rs_status = 401, rs_body = obj [(''message'', chars ''Authentication required'')]\<rparr>)"

text \<open>The identifier of a request: its header, or the fresh \<open>uuid\<close>.\<close>

definition requestId :: "jsstring \<Rightarrow> jsstring option \<Rightarrow> jsstring" where
  "requestId uuid header = (case header of None \<Rightarrow> uuid | Some h \<Rightarrow> if h = [] then uuid else h)"

section \<open>Nothing sensitive in an envelope\<close>

text \<open>No \<open>password\<close> and no null property at any depth.\<close>

fun hides :: "json \<Rightarrow> bool" where
  "hides (JArr xs) \<longleftrightarrow> list_all hides xs"
| "hides (JObj ps) \<longleftrightarrow> list_all (\<lambda>(k, v). k \<notin> set SENSITIVE_FIELDS \<and> v \<noteq> JNull \<and> hides v) ps"
| "hides _ \<longleftrightarrow> True"

text \<open>Objects with ordinary property names, each once.\<close>

fun plain :: "json \<Rightarrow> bool" where
  "plain (JArr xs) \<longleftrightarrow> list_all plain xs"
| "plain (JObj ps) \<longleftrightarrow>
     distinct (map fst ps) \<and>
     list_all (\<lambda>(k, v). k \<noteq> js ''__proto__'' \<and> index_of_key k = None \<and> plain v) ps"
| "plain _ \<longleftrightarrow> True"

lemma set_insert_index: "set (insert_index n k v ps) = insert (k, v) (set ps)"
  by (induction ps rule: insert_index.induct) (auto split: option.splits)

lemma list_all_set_property:
  assumes "list_all (\<lambda>(k, v). P k v) ps" "P k v"
  shows "list_all (\<lambda>(k, v). P k v) (set_property k v ps)"
  using assms
  by (auto simp: set_property_def list_all_iff set_insert_index split: option.splits)

lemma sanitize_not_null: "v \<noteq> JNull \<Longrightarrow> sanitize v \<noteq> JNull"
  by (cases v) simp_all

lemma list_all_fold:
  assumes "list_all Q ps" "I r" "\<And>x r. Q x \<Longrightarrow> I r \<Longrightarrow> I (f x r)"
  shows "I (fold f ps r)"
  using assms(1,2) by (induction ps arbitrary: r) (auto intro: assms(3))

lemma hides_sanitize: "hides (sanitize v)"
proof (induction v rule: sanitize.induct)
  case (2 ps)
  have "list_all (\<lambda>(k, v). k \<notin> set SENSITIVE_FIELDS \<and> v \<noteq> JNull \<longrightarrow> hides (sanitize v)) ps"
    using 2 by (auto simp: list_all_iff)
  then show ?case
    unfolding sanitize.simps hides.simps
    by (rule list_all_fold)
      (auto simp: assign_property_def sanitize_not_null intro!: list_all_set_property)
qed (auto simp: list_all_iff)

lemma fold_append_plain:
  assumes "list_all (\<lambda>(k, v). g v = v \<and> c k v \<and> k \<noteq> js ''__proto__'' \<and> index_of_key k = None) ps"
    and "distinct (map fst (r @ ps))"
  shows "fold (\<lambda>(k, v) result. if \<not> c k v then result else assign_property k (g v) result) ps r = r @ ps"
  using assms
proof (induction ps arbitrary: r)
  case (Cons p ps)
  obtain k v where p: "p = (k, v)" by (cases p)
  have "k \<notin> fst ` set r" using Cons.prems(2) p by auto
  then have "assign_property k (g v) r = r @ [p]"
    using Cons.prems(1) p by (auto simp: assign_property_def set_property_def)
  with Cons.prems Cons.IH [of "r @ [p]"] p show ?case by auto
qed simp

lemma sanitize_plain: "plain v \<Longrightarrow> hides v \<Longrightarrow> sanitize v = v"
proof (induction v rule: sanitize.induct)
  case (1 xs)
  then show ?case by (auto simp: list_all_iff intro: map_idI)
next
  case (2 ps)
  have IH: "sanitize b = b" if "(a, b) \<in> set ps" "a \<notin> set SENSITIVE_FIELDS" "b \<noteq> JNull" "plain b" "hides b"
    for a b using 2(1) that by blast
  have Q: "a \<notin> set SENSITIVE_FIELDS" "b \<noteq> JNull" "hides b" "plain b" "a \<noteq> js ''__proto__''"
      "index_of_key a = None" if "(a, b) \<in> set ps" for a b
    using 2(2,3) that by (force simp: list_all_iff)+
  have "distinct (map fst ps)" using 2(2) by simp
  have f: "fold (\<lambda>(k, v) result.
          if \<not> (k \<notin> set SENSITIVE_FIELDS \<and> v \<noteq> JNull) then result
          else assign_property k (sanitize v) result) ps [] = [] @ ps"
    by (rule fold_append_plain)
      (use IH \<open>distinct (map fst ps)\<close> in \<open>auto simp: list_all_iff dest: Q\<close>)
  then show ?case by simp
qed simp_all

text \<open>What goes out in the envelope of the auth endpoints has no \<open>password\<close> and no null
  property at any depth, in whatever value the handler put in; a value that had none already
  goes out unchanged.\<close>

theorem sanitize_hides_passwords:
  "hides (sanitize v) \<and> (plain v \<and> hides v \<longrightarrow> sanitize v = v)"
  by (blast intro: hides_sanitize sanitize_plain)

theorem sanitize_hides_passwords_witness:
  "sanitize (obj [(''user'', obj [(''password'', chars ''secret''), (''id'', chars ''7'')])]) =
     obj [(''user'', obj [(''id'', chars ''7'')])] \<and>
   sanitize (obj [(''id'', chars ''7'')]) = obj [(''id'', chars ''7'')]"
proof
  show "sanitize (obj [(''user'', obj [(''password'', chars ''secret''), (''id'', chars ''7'')])]) =
     obj [(''user'', obj [(''id'', chars ''7'')])]" by code_simp
  have "plain (obj [(''id'', chars ''7'')])" by code_simp
  moreover have "hides (obj [(''id'', chars ''7'')])" by code_simp
  ultimately show "sanitize (obj [(''id'', chars ''7'')]) = obj [(''id'', chars ''7'')]"
    using sanitize_hides_passwords by blast
qed

end
