(* ===== verification/Controller.thy ===== *)
theory Controller
  imports Http Processor
begin

text \<open>
  The HTTP handlers of \<open>src/modules/imports/imports.controller.ts\<close> over \<open>ImportService\<close>, the
  routes of \<open>imports.routes.ts\<close> and the response schemas of \<open>imports.validation.ts\<close> that
  \<open>imports.openapi.ts\<close> documents for them.

  A handler is an operation that returns the responses it sent; a handler that throws has
  sent none, and Express 4 does not see the rejection of its promise.

  The upload handler reacts to the events of busboy: fields, the file part, its size limit, a
  parse error, the end.  \<open>createImport\<close> starts with the file part; \<open>Settled\<close> is the moment its
  promise settles, anywhere among the later events.  The other actions of the world come from
  the schedule, as everywhere.
\<close>

section \<open>Constants\<close>

definition MAX_UPLOAD_BYTES :: nat where
  "MAX_UPLOAD_BYTES = 2 * 1024 * 1024 * 1024"

definition ALLOWED_EXTENSIONS :: "string list" where
  "ALLOWED_EXTENSIONS = [''.ndjson'', ''.jsonl'']"

definition DEFAULT_REJECTIONS_LIMIT :: rat where
  "DEFAULT_REJECTIONS_LIMIT = 50"

definition MAX_REJECTIONS_LIMIT :: rat where
  "MAX_REJECTIONS_LIMIT = 200"

text \<open>\<open>toLowerCase\<close> on every code unit whose lower case has an ASCII letter in it; the others are
  kept.\<close>

definition lower_unit :: "code_unit \<Rightarrow> jsstring" where
  "lower_unit c =
     (if 65 \<le> c \<and> c \<le> 90 then [c + 32]
      else if c = 0x130 then [0x69, 0x307]
      else if c = 0x212A then [0x6B]
      else [c])"

definition js_lower :: "jsstring \<Rightarrow> jsstring" where
  "js_lower s = concat (map lower_unit s)"

text \<open>From the last dot on.\<close>

definition fileExtension :: "jsstring \<Rightarrow> jsstring" where
  "fileExtension filename =
     (if 46 \<in> set filename
      then js_lower (46 # rev (takeWhile (\<lambda>c. c \<noteq> 46) (rev filename)))
      else [])"

section \<open>Bodies\<close>

fun status_text :: "import_status \<Rightarrow> string" where
  "status_text Pending = ''pending''"
| "status_text Processing = ''processing''"
| "status_text Completed = ''completed''"
| "status_text Failed = ''failed''"
| "status_text Cancelling = ''cancelling''"
| "status_text Cancelled = ''cancelled''"

definition created_response :: "import_row \<Rightarrow> response" where
  "created_response r =
     \<lparr>rs_status = ACCEPTED,
      rs_body = obj [(''id'', JStr (im_id r)), (''status'', chars (status_text (im_status r))),
                     (''createdAt'', date (im_createdAt r))]\<rparr>"

definition status_response :: "import_row \<Rightarrow> response" where
  "status_response r =
     \<lparr>rs_status = OK,
      rs_body = obj
        [(''id'', JStr (im_id r)), (''status'', chars (status_text (im_status r))),
         (''progress'', obj
            [(''processed'', number (im_processedCount r)), (''accepted'', number (im_acceptedCount r)),
             (''rejected'', number (im_rejectedCount r)), (''duplicates'', number (im_duplicateCount r))]),
         (''startedAt'', nullable date (im_startedAt r)),
         (''completedAt'', nullable date (im_completedAt r)),
         (''failureReason'', nullable chars (im_failureReason r))]\<rparr>"

definition cancelled_response :: "import_row \<Rightarrow> response" where
  "cancelled_response r =
     \<lparr>rs_status = OK,
      rs_body = obj [(''id'', JStr (im_id r)), (''status'', chars (status_text (im_status r)))]\<rparr>"

definition summary_response :: "jsstring \<Rightarrow> import_summary \<Rightarrow> response" where
  "summary_response importId s =
     \<lparr>rs_status = OK,
      rs_body = obj
        [(''importId'', JStr importId),
         (''totals'', obj
            [(''accepted'', number (su_accepted s)), (''rejected'', number (su_rejected s)),
             (''duplicates'', number (su_duplicates s))]),
         (''byCurrency'', JArr (map (\<lambda>c. obj
            [(''currency'', JStr (cs_currency c)),
             (''transactionCount'', number (int (cs_transactionCount c))),
             (''totalAmount'', JNum (js_to_number (cs_totalAmount c)))]) (su_byCurrency s))),
         (''byRiskLevel'', obj
            [(''low'', number (int (rc_low (su_byRiskLevel s)))),
             (''medium'', number (int (rc_medium (su_byRiskLevel s)))),
             (''high'', number (int (rc_high (su_byRiskLevel s))))])]\<rparr>"

definition rejections_response :: "rejection_page \<Rightarrow> response" where
  "rejections_response page =
     \<lparr>rs_status = OK,
      rs_body = obj
        [(''items'', JArr (map (\<lambda>item. obj
            [(''lineNumber'', number (it_lineNumber item)), (''reason'', chars (it_reasonCode item)),
             (''message'', chars (it_message item)), (''rawValue'', it_rawValue item)]) (rp_items page))),
         (''nextCursor'', nullable JStr (rp_nextCursor page))]\<rparr>"

section \<open>Reading handlers\<close>

text \<open>\<open>try { ... } catch (err) { sendError(req, res, err) }\<close>\<close>

definition answering :: "jsstring \<Rightarrow> (world, exn, response) io \<Rightarrow> (world, exn, response list) io" where
  "answering rid m =
     bind_io (catch_io m (\<lambda>err. return_io (sendError rid err))) (\<lambda>r. return_io [r])"

definition createGetImportHandler ::
  "import_service_deps \<Rightarrow> jsstring \<Rightarrow> jsstring \<Rightarrow> (world, exn, response list) io" where
  "createGetImportHandler deps rid i =
     answering rid (bind_io (getImport deps i) (\<lambda>found. return_io (status_response found)))"

definition createCancelImportHandler ::
  "import_service_deps \<Rightarrow> jsstring \<Rightarrow> jsstring \<Rightarrow> (world, exn, response list) io" where
  "createCancelImportHandler deps rid i =
     answering rid (bind_io (cancelImport deps i) (\<lambda>cancelled. return_io (cancelled_response cancelled)))"

definition createSummaryHandler ::
  "import_service_deps \<Rightarrow> jsstring \<Rightarrow> jsstring \<Rightarrow> (world, exn, response list) io" where
  "createSummaryHandler deps rid i =
     answering rid (bind_io (service_getSummary deps i) (\<lambda>s. return_io (summary_response i s)))"

text \<open>A query parameter, as Express parses it: absent, a text, an array, an object.\<close>

datatype query = Absent | Text jsstring | Several "query list" | Fields "(jsstring \<times> query) list"

fun join_commas :: "jsstring list \<Rightarrow> jsstring" where
  "join_commas [] = []"
| "join_commas [s] = s"
| "join_commas (s # ss) = s @ js '','' @ join_commas ss"

text \<open>Its conversion to a string; an object with a property \<open>toString\<close> of its own has none.\<close>

fun query_text :: "query \<Rightarrow> jsstring option" where
  "query_text Absent = Some []"
| "query_text (Text s) = Some s"
| "query_text (Several qs) =
     (let ts = map query_text qs in
      if None \<in> set ts then None else Some (join_commas (map the ts)))"
| "query_text (Fields fs) =
     (if js ''toString'' \<in> fst ` set fs then None else Some (js ''[object Object]''))"

text \<open>\<open>Number(req.query.limit)\<close>.\<close>

definition query_number :: "query \<Rightarrow> exn + jsnum" where
  "query_number q =
     (if q = Absent then Inr NaN
      else case query_text q of None \<Rightarrow> Inl TypeError | Some s \<Rightarrow> Inr (js_to_number s))"

definition rejections_limit :: "jsnum \<Rightarrow> rat" where
  "rejections_limit rawLimit =
     (case rawLimit of
        Fin x \<Rightarrow> if 0 < x then min x MAX_REJECTIONS_LIMIT else DEFAULT_REJECTIONS_LIMIT
      | _ \<Rightarrow> DEFAULT_REJECTIONS_LIMIT)"

definition createRejectionsHandler ::
  "import_service_deps \<Rightarrow> jsstring \<Rightarrow> jsstring \<Rightarrow> query \<Rightarrow> query \<Rightarrow> (world, exn, response list) io" where
  "createRejectionsHandler deps rid i limit cursor =
     answering rid
       (bind_io (lift_io (query_number limit)) (\<lambda>rawLimit.
        bind_io (service_getRejections deps i (rejections_limit rawLimit)
                  (case cursor of Text c \<Rightarrow> Some c | _ \<Rightarrow> None)) (\<lambda>page.
          return_io (rejections_response page))))"

section \<open>The upload handler\<close>

record file_info =
  fi_filename :: "jsstring option"     \<comment> \<open>busboy leaves it \<open>undefined\<close> for a file part without a name\<close>
  fi_mimeType :: jsstring

datatype upload_event =
    Field jsstring jsstring
  | is_File: File file_info "bytes list"        \<comment> \<open>the part and the chunks its stream delivers\<close>
  | Limit                              \<comment> \<open>the stream of the part reached \<open>MAX_UPLOAD_BYTES\<close>\<close>
  | Settled                            \<comment> \<open>the promise of \<open>createImport\<close> settles\<close>
  | Malformed "string option"          \<comment> \<open>\<open>error\<close>, with the message of an \<open>Error\<close>\<close>
  | Close

record upload =
  up_providerId :: "jsstring option"
  up_sawFile :: bool
  up_responded :: bool
  up_responses :: "response list"
  up_created :: "(exn + import_row) option"   \<comment> \<open>what the started \<open>createImport\<close> comes to\<close>

definition start_upload :: upload where
  "start_upload =
     \<lparr>up_providerId = None, up_sawFile = False, up_responded = False, up_responses = [],
      up_created = None\<rparr>"

definition respondOnce :: "response \<Rightarrow> upload \<Rightarrow> upload" where
  "respondOnce r u =
     (if up_responded u then u
      else u\<lparr>up_responded := True, up_responses := up_responses u @ [r]\<rparr>)"

definition errorOnce :: "jsstring \<Rightarrow> exn \<Rightarrow> upload \<Rightarrow> upload" where
  "errorOnce rid err u = respondOnce (sendError rid err) u"

text \<open>The promise runs to its end, whether it is fulfilled or rejected.\<close>

definition settle :: "('w, 'e, 'a) io \<Rightarrow> ('w, 'f, 'e + 'a) io" where
  "settle m w = (case m w of (r, w') \<Rightarrow> (Inr r, w'))"

definition upload_params :: "jsstring \<Rightarrow> jsstring \<Rightarrow> file_info \<Rightarrow> jsstring \<Rightarrow> bytes list \<Rightarrow> create_import_params" where
  "upload_params key providerId info filename chunks =
     \<lparr>cp_idempotencyKey = key, cp_providerId = providerId, cp_fileStream = chunks,
      cp_originalFilename = filename, cp_mimeType = fi_mimeType info\<rparr>"

definition refuse :: "jsstring \<Rightarrow> nat \<Rightarrow> string \<Rightarrow> string \<Rightarrow> upload \<Rightarrow> (world, exn, upload) io" where
  "refuse rid status code message u = return_io (errorOnce rid (AppError status code message) u)"

text \<open>The listener of \<open>file\<close>.\<close>

definition on_file ::
  "import_service_deps \<Rightarrow> jsstring \<Rightarrow> jsstring \<Rightarrow> file_info \<Rightarrow> bytes list \<Rightarrow> upload \<Rightarrow> (world, exn, upload) io" where
  "on_file deps rid key info chunks u0 =
     (let u = u0\<lparr>up_sawFile := True\<rparr>
      in case up_providerId u of
           None \<Rightarrow> refuse rid BAD_REQUEST ''PROVIDER_ID_REQUIRED''
                     ''providerId field must be sent before the file part'' u
         | Some providerId \<Rightarrow>
             if providerId = [] then refuse rid BAD_REQUEST ''PROVIDER_ID_REQUIRED''
                     ''providerId field must be sent before the file part'' u
             else if \<not> providerIdSchema_ok providerId
             then refuse rid BAD_REQUEST ''INVALID_PROVIDER_ID'' ''providerId is invalid'' u
             else (case fi_filename info of
                     None \<Rightarrow> throw_io TypeError
                   | Some filename \<Rightarrow>
                       if fileExtension filename \<notin> js ` set ALLOWED_EXTENSIONS
                       then refuse rid UNSUPPORTED_MEDIA_TYPE ''UNSUPPORTED_FILE_TYPE''
                              ''Only .ndjson/.jsonl files are accepted'' u
                       else bind_io (settle (createImport deps
                                       (upload_params key providerId info filename chunks))) (\<lambda>result.
                              return_io (u\<lparr>up_created := Some result\<rparr>))))"

text \<open>\<open>.then(...)\<close> and \<open>.catch(...)\<close>.\<close>

definition on_settled :: "jsstring \<Rightarrow> upload \<Rightarrow> upload" where
  "on_settled rid u =
     (case up_created u of
        None \<Rightarrow> u
      | Some (Inr created) \<Rightarrow> respondOnce (created_response created) u
      | Some (Inl err) \<Rightarrow> errorOnce rid err u)"

fun on_event ::
  "import_service_deps \<Rightarrow> jsstring \<Rightarrow> jsstring \<Rightarrow> upload_event \<Rightarrow> upload \<Rightarrow> (world, exn, upload) io" where
  "on_event deps rid key (Field name value) u =
     return_io (if name = js ''providerId'' then u\<lparr>up_providerId := Some value\<rparr> else u)"
| "on_event deps rid key (File info chunks) u = on_file deps rid key info chunks u"
| "on_event deps rid key Limit u =
     return_io (if up_created u = None then u
       else errorOnce rid (AppError PAYLOAD_TOO_LARGE ''IMPORT_FILE_TOO_LARGE''
              ''The uploaded file exceeds the allowed size'') u)"
| "on_event deps rid key Settled u = return_io (on_settled rid u)"
| "on_event deps rid key (Malformed message) u =
     refuse rid BAD_REQUEST ''MALFORMED_UPLOAD''
       (case message of Some m \<Rightarrow> m | None \<Rightarrow> ''Malformed upload'') u"
| "on_event deps rid key Close u =
     (if up_sawFile u then return_io u
      else refuse rid BAD_REQUEST ''FILE_REQUIRED'' ''A file part is required'' u)"

fun run_upload ::
  "import_service_deps \<Rightarrow> jsstring \<Rightarrow> jsstring \<Rightarrow> upload_event list \<Rightarrow> upload \<Rightarrow> (world, exn, upload) io" where
  "run_upload deps rid key [] u = return_io u"
| "run_upload deps rid key (e # es) u =
     bind_io (on_event deps rid key e u) (run_upload deps rid key es)"

text \<open>The request: \<open>rq_upload\<close> is what busboy makes of it, an exception of its constructor or its
  events.\<close>

record import_request =
  rq_id :: jsstring
  rq_idempotencyKey :: "jsstring option"
  rq_isMultipart :: bool
  rq_upload :: "exn + upload_event list"

definition createImportHandler ::
  "import_service_deps \<Rightarrow> import_request \<Rightarrow> (world, exn, response list) io" where
  "createImportHandler deps rq =
     (let rid = rq_id rq; key = (case rq_idempotencyKey rq of None \<Rightarrow> [] | Some k \<Rightarrow> k)
      in if key = [] then
           return_io [sendError rid (AppError BAD_REQUEST ''IDEMPOTENCY_KEY_REQUIRED''
                        ''Idempotency-Key header is required'')]
         else bind_io (findExistingByIdempotencyKey deps key) (\<lambda>existing.
           case existing of
             Some r \<Rightarrow> return_io [created_response r]
           | None \<Rightarrow>
               if \<not> rq_isMultipart rq then
                 return_io [sendError rid (AppError UNSUPPORTED_MEDIA_TYPE ''INVALID_CONTENT_TYPE''
                              ''Expected multipart/form-data'')]
               else bind_io (lift_io (rq_upload rq)) (\<lambda>events.
                      bind_io (run_upload deps rid key events start_upload) (\<lambda>u.
                        return_io (up_responses u)))))"

section \<open>One answer\<close>

text \<open>\<open>responded\<close> is set exactly when the one response has been sent.\<close>

definition answered_ok :: "upload \<Rightarrow> bool" where
  "answered_ok u \<longleftrightarrow> length (up_responses u) = (if up_responded u then 1 else 0)"

lemma answered_ok_start [simp]: "answered_ok start_upload"
  by (simp add: answered_ok_def start_upload_def)

lemma answered_ok_update [simp]:
  "answered_ok (u\<lparr>up_providerId := p\<rparr>) = answered_ok u" "answered_ok (u\<lparr>up_sawFile := b\<rparr>) = answered_ok u"
  "answered_ok (u\<lparr>up_created := c\<rparr>) = answered_ok u"
  by (simp_all add: answered_ok_def)

lemma answered_ok_respond [simp]: "answered_ok u \<Longrightarrow> answered_ok (respondOnce r u)"
  "answered_ok u \<Longrightarrow> answered_ok (errorOnce rid err u)"
  by (simp_all add: answered_ok_def respondOnce_def errorOnce_def)

lemma respond_fields [simp]:
  "up_responded (respondOnce r u)" "up_responded (errorOnce rid err u)"
  "up_created (respondOnce r u) = up_created u" "up_created (errorOnce rid err u) = up_created u"
  "up_sawFile (respondOnce r u) = up_sawFile u" "up_sawFile (errorOnce rid err u) = up_sawFile u"
  by (simp_all add: respondOnce_def errorOnce_def)

lemma settle_apply: "settle m w = (Inr (fst (m w)), snd (m w))"
  by (simp add: settle_def split: prod.splits)

text \<open>What one event does to the state of an upload.\<close>

lemma on_file_cases:
  assumes "on_file deps rid key info chunks u w = (Inr u', w')"
  obtains (refused) status code message where "status \<in> {BAD_REQUEST, UNSUPPORTED_MEDIA_TYPE}"
      "u' = errorOnce rid (AppError status code message) (u\<lparr>up_sawFile := True\<rparr>)" "w' = w"
  | (started) p where "cp_idempotencyKey p = key" "cp_fileStream p = chunks"
      "u' = u\<lparr>up_sawFile := True, up_created := Some (fst (createImport deps p w))\<rparr>"
      "w' = snd (createImport deps p w)"
proof (cases "\<exists>status\<in>{BAD_REQUEST, UNSUPPORTED_MEDIA_TYPE}. \<exists>code message.
    u' = errorOnce rid (AppError status code message) (u\<lparr>up_sawFile := True\<rparr>) \<and> w' = w")
  case False
  let ?u = "u\<lparr>up_sawFile := True\<rparr>"
  have no: "refuse rid BAD_REQUEST code message ?u w \<noteq> (Inr u', w')"
    "refuse rid UNSUPPORTED_MEDIA_TYPE code message ?u w \<noteq> (Inr u', w')" for code message
    using False by (auto simp: refuse_def)
  from assms obtain providerId where p: "up_providerId u = Some providerId"
    using no by (cases "up_providerId u") (simp_all add: on_file_def Let_def)
  with assms obtain filename where f: "fi_filename info = Some filename"
    using no by (cases "fi_filename info") (simp_all add: on_file_def Let_def p split: if_splits)
  let ?m = "createImport deps (upload_params key providerId info filename chunks)"
  have "(bind_io (settle ?m) (\<lambda>result. return_io (?u\<lparr>up_created := Some result\<rparr>)) :: (world, exn, upload) io) w =
      (Inr u', w')"
    using assms p f no by (simp add: on_file_def Let_def split: if_splits)
  then have "u' = ?u\<lparr>up_created := Some (fst (?m w))\<rparr>" "w' = snd (?m w)"
    by (simp_all add: settle_apply bind_io_apply)
  then show thesis by (intro started) (simp_all add: upload_params_def)
qed (use refused in blast)

lemma on_event_answered:
  assumes "on_event deps rid key e u w = (Inr u', w')"
  shows "(answered_ok u \<longrightarrow> answered_ok u') \<and> (up_responded u \<longrightarrow> up_responded u') \<and>
    (up_created u \<noteq> None \<longrightarrow> up_created u' \<noteq> None) \<and>
    (\<not> is_File e \<longrightarrow> up_sawFile u' = up_sawFile u) \<and>
    (is_File e \<longrightarrow> up_responded u' \<or> up_created u' \<noteq> None) \<and>
    (e = Settled \<longrightarrow> up_created u \<noteq> None \<longrightarrow> up_responded u') \<and>
    (e = Close \<longrightarrow> \<not> up_sawFile u \<longrightarrow> up_responded u')"
proof (cases e)
  case (File info chunks)
  with assms have "on_file deps rid key info chunks u w = (Inr u', w')" by simp
  then show ?thesis using File by (cases rule: on_file_cases) auto
qed (use assms in \<open>auto simp: refuse_def on_settled_def split: option.splits sum.splits if_splits\<close>)

lemma run_upload_StepE:
  assumes "run_upload deps rid key (e # es) u w = (Inr u', w')"
  obtains u1 w1 where "on_event deps rid key e u w = (Inr u1, w1)"
    "run_upload deps rid key es u1 w1 = (Inr u', w')"
  using assms by (auto elim: bind_io_InrE)

lemma run_upload_answered:
  assumes "run_upload deps rid key es u w = (Inr u', w')"
  shows "(answered_ok u \<longrightarrow> answered_ok u') \<and> (up_responded u \<longrightarrow> up_responded u')"
  using assms
proof (induction es arbitrary: u w)
  case (Cons e es)
  from Cons.prems obtain u1 w1 where 1: "on_event deps rid key e u w = (Inr u1, w1)"
    "run_upload deps rid key es u1 w1 = (Inr u', w')" by (rule run_upload_StepE)
  from on_event_answered [OF 1(1)] Cons.IH [OF 1(2)] show ?case by blast
qed simp

text \<open>What busboy and the promise promise: the events end with \<open>close\<close>, and an upload that has
  started settles.\<close>

definition upload_complete :: "upload_event list \<Rightarrow> bool" where
  "upload_complete es \<longleftrightarrow>
     Close \<in> set es \<and>
     (case dropWhile (\<lambda>e. \<not> is_File e) es of [] \<Rightarrow> True | _ # later \<Rightarrow> Settled \<in> set later)"

lemma settled_answers:
  assumes "run_upload deps rid key es u w = (Inr u', w')" "Settled \<in> set es"
    and "up_responded u \<or> up_created u \<noteq> None"
  shows "up_responded u'"
  using assms
proof (induction es arbitrary: u w)
  case (Cons e es)
  from Cons.prems(1) obtain u1 w1 where 1: "on_event deps rid key e u w = (Inr u1, w1)"
    "run_upload deps rid key es u1 w1 = (Inr u', w')" by (rule run_upload_StepE)
  note o = on_event_answered [OF 1(1)] and r = run_upload_answered [OF 1(2)]
  show ?case
  proof (cases "e = Settled")
    case True
    with o r Cons.prems(3) show ?thesis by blast
  next
    case False
    with Cons.prems(2,3) o show ?thesis by (intro Cons.IH [OF 1(2)]) auto
  qed
qed simp

lemma close_answers:
  assumes "run_upload deps rid key es u w = (Inr u', w')" "Close \<in> set es"
    and "list_all (\<lambda>e. \<not> is_File e) es" "\<not> up_sawFile u"
  shows "up_responded u'"
  using assms
proof (induction es arbitrary: u w)
  case (Cons e es)
  from Cons.prems(1) obtain u1 w1 where 1: "on_event deps rid key e u w = (Inr u1, w1)"
    "run_upload deps rid key es u1 w1 = (Inr u', w')" by (rule run_upload_StepE)
  note o = on_event_answered [OF 1(1)] and r = run_upload_answered [OF 1(2)]
  show ?case
  proof (cases "e = Close")
    case True
    with o r Cons.prems(4) show ?thesis by blast
  next
    case False
    with Cons.prems o show ?thesis by (intro Cons.IH [OF 1(2)]) auto
  qed
qed simp

lemma complete_answers:
  assumes "run_upload deps rid key es u w = (Inr u', w')" "upload_complete es" "\<not> up_sawFile u"
  shows "up_responded u'"
  using assms
proof (induction es arbitrary: u w)
  case (Cons e es)
  from Cons.prems(1) obtain u1 w1 where 1: "on_event deps rid key e u w = (Inr u1, w1)"
    "run_upload deps rid key es u1 w1 = (Inr u', w')" by (rule run_upload_StepE)
  note o = on_event_answered [OF 1(1)] and r = run_upload_answered [OF 1(2)]
  show ?case
  proof (cases "is_File e")
    case True
    then have "Settled \<in> set es" using Cons.prems(2) by (simp add: upload_complete_def)
    with True o settled_answers [OF 1(2)] show ?thesis by blast
  next
    case False
    show ?thesis
    proof (cases "e = Close")
      case True
      with o r Cons.prems(3) show ?thesis by blast
    next
      case no: False
      with False Cons.prems(2) have "upload_complete es"
        by (auto simp: upload_complete_def)
      with False o Cons.prems(3) show ?thesis by (intro Cons.IH [OF 1(2)]) auto
    qed
  qed
qed (simp add: upload_complete_def)

text \<open>The ways the handler can return.\<close>

lemma import_handler_cases:
  assumes "createImportHandler deps rq w = (Inr rs, w')"
  obtains (no_key) code message where "rs = [sendError (rq_id rq) (AppError BAD_REQUEST code message)]" "w' = w"
  | (known) key r where "rq_idempotencyKey rq = Some key"
      "sd_findByIdempotencyKey deps key w = (Inr (Some r), w')" "rs = [created_response r]"
  | (other_type) key code message where "rq_idempotencyKey rq = Some key"
      "sd_findByIdempotencyKey deps key w = (Inr None, w')"
      "rs = [sendError (rq_id rq) (AppError UNSUPPORTED_MEDIA_TYPE code message)]"
  | (upload) key w1 es u where "rq_idempotencyKey rq = Some key"
      "sd_findByIdempotencyKey deps key w = (Inr None, w1)" "rq_upload rq = Inr es"
      "run_upload deps (rq_id rq) key es start_upload w1 = (Inr u, w')" "rs = up_responses u"
proof (cases "rq_idempotencyKey rq = None \<or> rq_idempotencyKey rq = Some []")
  case True
  with assms show ?thesis by (auto simp: createImportHandler_def simp del: sendError.simps intro: no_key)
next
  case False
  then obtain key where k: "rq_idempotencyKey rq = Some key" "key \<noteq> []" by auto
  with assms obtain x w1 where f: "sd_findByIdempotencyKey deps key w = (Inr x, w1)"
    and rest: "(case x of
             Some r \<Rightarrow> return_io [created_response r]
           | None \<Rightarrow>
               if \<not> rq_isMultipart rq then
                 return_io [sendError (rq_id rq) (AppError UNSUPPORTED_MEDIA_TYPE ''INVALID_CONTENT_TYPE''
                              ''Expected multipart/form-data'')]
               else bind_io (lift_io (rq_upload rq)) (\<lambda>events.
                      bind_io (run_upload deps (rq_id rq) key events start_upload) (\<lambda>u.
                        return_io (up_responses u)))) w1 = (Inr rs, w')"
    by (auto simp: createImportHandler_def Let_def findExistingByIdempotencyKey_def elim: bind_io_InrE)
  show ?thesis
  proof (cases x)
    case (Some r)
    with rest f k show ?thesis by (auto intro: known)
  next
    case None
    show ?thesis
    proof (cases "rq_isMultipart rq")
      case False
      with None rest f k show ?thesis by (auto simp del: sendError.simps intro: other_type)
    next
      case True
      with None rest obtain es u where "rq_upload rq = Inr es"
        "run_upload deps (rq_id rq) key es start_upload w1 = (Inr u, w')" "rs = up_responses u"
        by (auto elim!: bind_io_InrE)
      with None f k show ?thesis by (auto intro: upload)
    qed
  qed
qed

section \<open>Accepted means registered\<close>

text \<open>A response is the 202 of an import registered under the key, or an error.\<close>

definition sound_answer :: "jsstring \<Rightarrow> jsstring \<Rightarrow> world \<Rightarrow> response \<Rightarrow> bool" where
  "sound_answer rid key w x \<longleftrightarrow>
     (\<exists>r. x = created_response r \<and> registered key (im_id r) w) \<or> (\<exists>err. x = sendError rid err)"

definition sound_upload :: "jsstring \<Rightarrow> jsstring \<Rightarrow> world \<Rightarrow> upload \<Rightarrow> bool" where
  "sound_upload rid key w u \<longleftrightarrow>
     (\<forall>x\<in>set (up_responses u). sound_answer rid key w x) \<and>
     (\<forall>r. up_created u = Some (Inr r) \<longrightarrow> registered key (im_id r) w)"

lemma sound_respond:
  "sound_upload rid key w u \<Longrightarrow> sound_upload rid key w (errorOnce rid err u)"
  "sound_upload rid key w u \<Longrightarrow> registered key (im_id r) w \<Longrightarrow>
     sound_upload rid key w (respondOnce (created_response r) u)"
  by (auto simp: sound_upload_def sound_answer_def errorOnce_def respondOnce_def simp del: sendError.simps)

lemma sound_start [simp]: "sound_upload rid key w start_upload"
  by (simp add: sound_upload_def start_upload_def)

lemma sound_upload_fields [simp]:
  "sound_upload rid key w (u\<lparr>up_providerId := p\<rparr>) = sound_upload rid key w u"
  "sound_upload rid key w (u\<lparr>up_sawFile := b\<rparr>) = sound_upload rid key w u"
  by (simp_all add: sound_upload_def)

text \<open>The upload handler needs more of the ports: starting an import keeps what is registered.\<close>

locale upload_ports = import_ports +
  assumes create_keeps: "keeps (registered k i) (createImport deps p)"
begin

lemma sound_answer_create:
  "sound_answer rid key w x \<Longrightarrow> sound_answer rid key (snd (createImport deps p w)) x"
  unfolding sound_answer_def by (blast intro: keepsD [OF create_keeps])

lemma on_event_sound:
  assumes "on_event deps rid key e u w = (Inr u', w')" "sound_upload rid key w u"
  shows "sound_upload rid key w' u'"
proof (cases e)
  case (File info chunks)
  with assms(1) have "on_file deps rid key info chunks u w = (Inr u', w')" by simp
  then show ?thesis
  proof (cases rule: on_file_cases)
    case (refused status code message)
    with assms(2) show ?thesis by (simp add: sound_respond)
  next
    case (started p)
    have "registered key (im_id r) w'" if "fst (createImport deps p w) = Inr r" for r
    proof -
      have "createImport deps p w = (Inr r, w')" using that started(4) by (simp add: prod_eq_iff)
      from create_registers [OF this] started(1) show ?thesis by simp
    qed
    with assms(2) started show ?thesis by (auto simp: sound_upload_def sound_answer_create)
  qed
next
  case Settled
  with assms have u': "u' = on_settled rid u" "w' = w" by simp_all
  have "registered key (im_id r) w" if "up_created u = Some (Inr r)" for r
    using assms(2) that by (simp add: sound_upload_def)
  with u' assms(2) show ?thesis
    by (simp add: on_settled_def sound_respond split: option.splits sum.splits)
qed (use assms in \<open>auto simp: refuse_def split: option.splits if_splits intro: sound_respond\<close>)

lemma run_upload_sound:
  "run_upload deps rid key es u w = (Inr u', w') \<Longrightarrow> sound_upload rid key w u \<Longrightarrow> sound_upload rid key w' u'"
  by (induction es arbitrary: u w) (auto elim!: bind_io_InrE dest: on_event_sound)

lemma handler_sound:
  assumes "createImportHandler deps rq w = (Inr rs, w')" "x \<in> set rs"
  obtains (accepted) key r where "rq_idempotencyKey rq = Some key" "x = created_response r"
      "registered key (im_id r) w'"
  | (failed) err where "x = sendError (rq_id rq) err"
  using assms(1)
proof (cases rule: import_handler_cases)
  case (known key r)
  with assms(2) find_new [OF known(2)] show ?thesis by (auto intro: accepted)
next
  case (upload key w1 es u)
  have "sound_answer (rq_id rq) key w' x"
    using run_upload_sound [OF upload(4) sound_start] upload(5) assms(2) by (simp add: sound_upload_def)
  then consider r where "x = created_response r" "registered key (im_id r) w'"
    | err where "x = sendError (rq_id rq) err"
    unfolding sound_answer_def by blast
  then show ?thesis by cases (fact accepted [OF upload(1)], fact failed)
qed (use assms(2) failed in \<open>auto simp del: sendError.simps\<close>)

text \<open>A key that is registered: the request is answered before its body is read.\<close>

lemma handler_known:
  assumes "registered key i w" "rq_idempotencyKey rq = Some key" "key \<noteq> []"
    and "createImportHandler deps rq w = (Inr rs, w')"
  shows "\<exists>r. rs = [created_response r] \<and> im_id r = i \<and> same_effects w w'"
proof -
  from assms(2-4) obtain x w1 where f: "sd_findByIdempotencyKey deps key w = (Inr x, w1)"
    by (auto simp: createImportHandler_def Let_def findExistingByIdempotencyKey_def elim: bind_io_InrE)
  from find_taken [OF assms(1) f] obtain r where "x = Some r" "im_id r = i" "same_effects w w1" by blast
  with assms(2-4) f show ?thesis
    by (auto simp: createImportHandler_def Let_def findExistingByIdempotencyKey_def)
qed

end

lemma growing_create: "keeps (growing.holds d0) (createImport (buildImportService tp) p)"
  unfolding createImport_def buildImportService_simps createPendingImport_def findByIdempotencyKey_def
    attachUploadedFile_def
  by (intro keeps_intros growing.keeps_world growing.keeps_db_call growing.keeps_minio_store)
    (blast intro: grows_trans grows_create_import grows_create_file)+

interpretation uploads: upload_ports "buildImportService tp" for tp
  by unfold_locales (rule registered_keeps [OF growing_create])

section \<open>Answers to uploads: properties\<close>

text \<open>C11. Whatever the fields, files, limits, errors and the outcome of the upload, and in
  whatever order their events come, at most one response is sent; and exactly one when the
  events end with \<open>close\<close> and a started upload settles.\<close>

theorem upload_answered_once:
  assumes "createImportHandler deps rq w = (Inr rs, w')"
  shows "length rs \<le> 1 \<and>
    ((\<forall>es. rq_upload rq = Inr es \<longrightarrow> upload_complete es) \<longrightarrow> length rs = 1)"
  using assms
proof (cases rule: import_handler_cases)
  case (upload key w1 es u)
  have "answered_ok u" using run_upload_answered [OF upload(4)] by simp
  moreover have "up_responded u" if "upload_complete es"
    using complete_answers [OF upload(4) that] by (simp add: start_upload_def)
  ultimately show ?thesis using upload(3,5) by (auto simp: answered_ok_def)
qed (simp_all del: sendError.simps)

text \<open>C14. A 202 is only sent for an import that is registered under the key of the request and
  has the identifier in the body; every other response is an error in the contract's format.\<close>

theorem accepted_is_registered:
  assumes "createImportHandler (buildImportService tp) rq w = (Inr rs, w')" "x \<in> set rs"
  shows "(\<exists>key r r'. rq_idempotencyKey rq = Some key \<and> x = created_response r \<and>
      find_import_by_key key (w_db w') = Some r' \<and> im_id r' = im_id r) \<or>
    (\<exists>err. x = sendError (rq_id rq) err)"
  using assms by (rule uploads.handler_sound) (auto simp: registered_def)

text \<open>A request whose key is registered is answered with that import before its body is
  read: no upload event is looked at, nothing is stored or enqueued, under any schedule.\<close>

theorem known_key_answers_at_once:
  assumes "find_import_by_key key (w_db w) = Some r" "rq_idempotencyKey rq = Some key" "key \<noteq> []"
    and "createImportHandler (buildImportService tp) rq w = (Inr rs, w')"
  shows "\<exists>r'. rs = [created_response r'] \<and> im_id r' = im_id r \<and>
    w_objects w' = w_objects w \<and> w_queue w' = w_queue w"
proof -
  have "registered key (im_id r) w" using assms(1) by (simp add: registered_def)
  from uploads.handler_known [OF this assms(2-4)] show ?thesis by (simp add: same_effects_def)
qed

text \<open>The decision on a file part, from the fields before it.\<close>

fun provider_of :: "(jsstring \<times> jsstring) list \<Rightarrow> jsstring option \<Rightarrow> jsstring option" where
  "provider_of [] p = p"
| "provider_of ((name, value) # fs) p =
     provider_of fs (if name = js ''providerId'' then Some value else p)"

definition refusal :: "jsstring option \<Rightarrow> file_info \<Rightarrow> (nat \<times> string) option" where
  "refusal provider info =
     (if provider = None \<or> provider = Some [] then Some (400, ''PROVIDER_ID_REQUIRED'')
      else if 200 < length (the provider) then Some (400, ''INVALID_PROVIDER_ID'')
      else if fi_filename info \<noteq> None \<and>
        fileExtension (the (fi_filename info)) \<notin> {js ''.ndjson'', js ''.jsonl''}
      then Some (415, ''UNSUPPORTED_FILE_TYPE'')
      else None)"

lemma run_fields:
  "run_upload deps rid key (map (\<lambda>(n, v). Field n v) fs @ es) u =
     run_upload deps rid key es (u\<lparr>up_providerId := provider_of fs (up_providerId u)\<rparr>)"
  by (induction fs arbitrary: u) (auto simp: bind_io_def)

lemma run_responded:
  assumes "up_responded u" "list_all (\<lambda>e. \<not> is_File e) es"
  shows "\<exists>u'. run_upload deps rid key es u w = (Inr u', w) \<and> up_responses u' = up_responses u"
  using assms
proof (induction es arbitrary: u)
  case (Cons e es)
  have "\<exists>u1. on_event deps rid key e u w = (Inr u1, w) \<and> up_responses u1 = up_responses u \<and> up_responded u1"
    using Cons.prems
    by (cases e) (auto simp: refuse_def on_settled_def errorOnce_def respondOnce_def
        split: option.splits sum.splits)
  then obtain u1 where 1: "on_event deps rid key e u w = (Inr u1, w)" "up_responses u1 = up_responses u"
    "up_responded u1" by blast
  with Cons.IH [OF 1(3)] Cons.prems(2) show ?case by simp
qed simp

lemma run_cons: "on_event deps rid key e u w = (Inr u1, w1) \<Longrightarrow>
    run_upload deps rid key (e # es) u w = run_upload deps rid key es u1 w1"
  by simp

lemma handler_uploads:
  assumes "rq_idempotencyKey rq = Some key" "key \<noteq> []" "rq_isMultipart rq" "rq_upload rq = Inr es"
    and "sd_findByIdempotencyKey deps key w = (Inr None, w1)"
  shows "createImportHandler deps rq w =
    bind_io (run_upload deps (rq_id rq) key es start_upload) (\<lambda>u. return_io (up_responses u)) w1"
  using assms by (simp add: createImportHandler_def Let_def findExistingByIdempotencyKey_def bind_io_apply)

text \<open>C15. The decision table of the file part: with no provider before the file, an invalid one,
  or another extension, the request is answered with the error of the table, and has done
  nothing but look up its key.\<close>

theorem refused_upload_does_nothing:
  assumes "rq_idempotencyKey rq = Some key" "key \<noteq> []" "rq_isMultipart rq"
    and "rq_upload rq = Inr (map (\<lambda>(n, v). Field n v) fs @ File info chunks # rest)"
    and "list_all (\<lambda>e. \<not> is_File e) rest"
    and "refusal (provider_of fs None) info = Some (status, code)"
    and "sd_findByIdempotencyKey deps key w = (Inr None, w1)"
  shows "\<exists>message. createImportHandler deps rq w =
    (Inr [sendError (rq_id rq) (AppError status code message)], w1)"
proof -
  let ?u = "start_upload\<lparr>up_providerId := provider_of fs None\<rparr>"
  have "\<exists>message. on_file deps (rq_id rq) key info chunks ?u w1 =
      (Inr (errorOnce (rq_id rq) (AppError status code message) (?u\<lparr>up_sawFile := True\<rparr>)), w1)"
    using assms(6)
    by (auto simp: on_file_def refuse_def refusal_def providerIdSchema_ok_def ALLOWED_EXTENSIONS_def Let_def
        BAD_REQUEST_def UNSUPPORTED_MEDIA_TYPE_def Suc_le_eq split: if_splits option.splits)
  then obtain message where
    f: "on_file deps (rq_id rq) key info chunks ?u w1 =
      (Inr (errorOnce (rq_id rq) (AppError status code message) (?u\<lparr>up_sawFile := True\<rparr>)), w1)" by blast
  let ?u1 = "errorOnce (rq_id rq) (AppError status code message) (?u\<lparr>up_sawFile := True\<rparr>)"
  have "up_responses ?u1 = [sendError (rq_id rq) (AppError status code message)]"
    by (simp add: errorOnce_def respondOnce_def start_upload_def)
  with run_responded [OF _ assms(5), of ?u1 deps "rq_id rq" key w1]
  obtain u2 where "run_upload deps (rq_id rq) key rest ?u1 w1 = (Inr u2, w1)"
    "up_responses u2 = [sendError (rq_id rq) (AppError status code message)]" by auto
  moreover have "run_upload deps (rq_id rq) key (map (\<lambda>(n, v). Field n v) fs @ File info chunks # rest)
      start_upload w1 = run_upload deps (rq_id rq) key rest ?u1 w1"
    unfolding run_fields using f by (simp add: start_upload_def)
  ultimately show ?thesis
    using handler_uploads [OF assms(1-4,7)] by (auto simp: bind_io_apply simp del: sendError.simps)
qed

text \<open>What busboy delivers of a file of these bytes: at most \<open>MAX_UPLOAD_BYTES\<close>, and \<open>limit\<close> when
  there are more.\<close>

definition part_events :: "file_info \<Rightarrow> bytes \<Rightarrow> upload_event list" where
  "part_events info bs =
     File info [take MAX_UPLOAD_BYTES bs] # (if MAX_UPLOAD_BYTES < length bs then [Limit] else [])"

text \<open>A file that is too large is answered with 413, but its import is created like any
  other, from the bytes up to the limit: the client is told of a failure while the truncated
  file is stored, enqueued and will be processed.\<close>

theorem oversize_upload_is_imported:
  assumes "rq_idempotencyKey rq = Some key" "key \<noteq> []" "rq_isMultipart rq"
    and "rq_upload rq = Inr (Field (js ''providerId'') provider # part_events info bs @ [Settled, Close])"
    and "refusal (Some provider) info = None" "fi_filename info = Some filename"
    and "MAX_UPLOAD_BYTES < length bs"
    and "sd_findByIdempotencyKey deps key w = (Inr None, w1)"
    and "createImport deps (upload_params key provider info filename [take MAX_UPLOAD_BYTES bs]) w1 = (Inr r, w2)"
  shows "createImportHandler deps rq w =
    (Inr [sendError (rq_id rq) (AppError 413 ''IMPORT_FILE_TOO_LARGE''
       ''The uploaded file exceeds the allowed size'')], w2)"
proof -
  let ?u = "start_upload\<lparr>up_providerId := Some provider\<rparr>"
  let ?u1 = "?u\<lparr>up_sawFile := True, up_created := Some (Inr r)\<rparr>"
  have f: "on_file deps (rq_id rq) key info [take MAX_UPLOAD_BYTES bs] ?u w1 = (Inr ?u1, w2)"
    using assms(5,6,9)
    by (auto simp: on_file_def refusal_def providerIdSchema_ok_def ALLOWED_EXTENSIONS_def Let_def settle_apply
        bind_io_apply Suc_le_eq split: if_splits)
  show ?thesis
    using handler_uploads [OF assms(1-4,8)] f assms(7)
    by (simp add: bind_io_apply part_events_def on_settled_def errorOnce_def respondOnce_def start_upload_def
        PAYLOAD_TOO_LARGE_def)
qed

text \<open>The failures that end the handler without an answer: the lookup of the key, the
  constructor of busboy (a multipart request without a boundary), and a file part without a
  file name.  Express 4 does not handle the rejection of an async handler.\<close>

theorem upload_handler_rejects:
  assumes "rq_idempotencyKey rq = Some key" "key \<noteq> []" "rq_isMultipart rq"
    and "sd_findByIdempotencyKey deps key w = (found, w1)"
    and "\<exists>e. found = Inl e \<or> found = Inr None \<and>
      (rq_upload rq = Inl e \<or>
       e = TypeError \<and> (\<exists>provider info chunks es. providerIdSchema_ok provider \<and> fi_filename info = None \<and>
         rq_upload rq = Inr (Field (js ''providerId'') provider # File info chunks # es)))"
  shows "\<exists>e. createImportHandler deps rq w = (Inl e, w1)"
proof (cases found)
  case (Inl e)
  with assms(1-4) show ?thesis
    by (simp add: createImportHandler_def Let_def findExistingByIdempotencyKey_def)
next
  case (Inr x)
  with assms(5) have x: "found = Inr None" by auto
  show ?thesis
  proof (cases "rq_upload rq")
    case (Inl e)
    with assms(1-4) x show ?thesis
      by (simp add: createImportHandler_def Let_def findExistingByIdempotencyKey_def bind_io_apply)
  next
    case (Inr es)
    with assms(5) x obtain provider info chunks es' where
      p: "providerIdSchema_ok provider" "fi_filename info = None"
        "es = Field (js ''providerId'') provider # File info chunks # es'" by auto
    have "on_file deps (rq_id rq) key info chunks (start_upload\<lparr>up_providerId := Some provider\<rparr>) w1 =
        (Inl TypeError, w1)"
      using p(1,2) by (auto simp: on_file_def Let_def providerIdSchema_ok_def)
    with handler_uploads [OF assms(1-3) Inr assms(4) [unfolded x]] p(3) show ?thesis
      by (simp add: bind_io_apply)
  qed
qed

section \<open>Concrete uploads\<close>

definition sample_info :: file_info where
  "sample_info = \<lparr>fi_filename = Some (js ''a.ndjson''), fi_mimeType = js ''text/plain''\<rparr>"

definition sample_request :: "upload_event list \<Rightarrow> import_request" where
  "sample_request es =
     \<lparr>rq_id = js ''r1'', rq_idempotencyKey = Some (js ''key''), rq_isMultipart = True, rq_upload = Inr es\<rparr>"

lemma sample_request_simps [simp]:
  "rq_idempotencyKey (sample_request es) = Some (js ''key'')" "rq_isMultipart (sample_request es)"
  "rq_upload (sample_request es) = Inr es" "js ''key'' \<noteq> []"
  by (simp_all add: sample_request_def js_def)

lemma sample_lookup: "sd_findByIdempotencyKey (buildImportService no_third_party) (js ''key'') (world_of empty_db) =
    (Inr None, world_of empty_db)"
  by (simp add: findByIdempotencyKey_def world_of_def find_import_by_key_def empty_db_def)

lemma sample_not_refused: "refusal (Some (js ''p'')) sample_info = None"
  by code_simp

lemma sample_create_upload:
  "\<exists>w'. createImport (buildImportService no_third_party)
      (upload_params (js ''key'') (js ''p'') sample_info (js ''a.ndjson'') chunks) (world_of empty_db) =
     (Inr created_row, w') \<and> w_queue w' = [js ''0''] \<and> w_schedule w' = []"
proof -
  have "createPendingImport no_third_party (js ''key'') (js ''p'') (world_of empty_db) =
      (Inr (Some created_row), created_world)"
    using sample_create by (simp add: created_world_def)
  then show ?thesis
    using created_world_facts
    by (auto simp: createImport_def bind_io_apply then_io_apply generate_def minio_store_def attachUploadedFile_def
        enqueueImportProcessing_def quiet_call quiet_db_call create_file_def file_row_of_def find_file_def
        find_import_def created_world_def world_of_def upload_params_def)
qed

definition small_upload :: "upload_event list" where
  "small_upload = [Field (js ''providerId'') (js ''p''), File sample_info [[0x7b, 0x7d]], Settled, Close]"

lemma sample_upload:
  "\<exists>w'. createImportHandler (buildImportService no_third_party) (sample_request small_upload) (world_of empty_db) =
     (Inr [created_response created_row], w') \<and> w_queue w' = [js ''0''] \<and> w_schedule w' = []"
proof -
  obtain w' where c: "createImport (buildImportService no_third_party)
      (upload_params (js ''key'') (js ''p'') sample_info (js ''a.ndjson'') [[0x7b, 0x7d]]) (world_of empty_db) =
     (Inr created_row, w')" "w_queue w' = [js ''0'']" "w_schedule w' = []"
    using sample_create_upload by blast
  let ?u = "start_upload\<lparr>up_providerId := Some (js ''p'')\<rparr>"
  have "on_file (buildImportService no_third_party) rid (js ''key'') sample_info [[0x7b, 0x7d]] ?u (world_of empty_db) =
      (Inr (?u\<lparr>up_sawFile := True, up_created := Some (Inr created_row)\<rparr>), w')" for rid
  proof -
    have "fileExtension (js ''a.ndjson'') \<in> js ` set ALLOWED_EXTENSIONS" "providerIdSchema_ok (js ''p'')"
      by code_simp+
    with c(1) show ?thesis
      by (auto simp: on_file_def Let_def settle_apply bind_io_apply sample_info_def js_simps)
  qed
  then show ?thesis
    using handler_uploads [OF _ _ _ _ sample_lookup, of "sample_request small_upload" small_upload] c(2,3)
    by (simp add: small_upload_def bind_io_apply on_settled_def respondOnce_def start_upload_def)
qed

theorem upload_answered_once_witness:
  "\<exists>rs w'. createImportHandler (buildImportService no_third_party) (sample_request small_upload)
       (world_of empty_db) = (Inr rs, w') \<and> length rs = 1"
proof -
  obtain w' where h: "createImportHandler (buildImportService no_third_party) (sample_request small_upload)
      (world_of empty_db) = (Inr [created_response created_row], w')" using sample_upload by blast
  have "upload_complete small_upload" by (simp add: upload_complete_def small_upload_def)
  then have "\<forall>es. rq_upload (sample_request small_upload) = Inr es \<longrightarrow> upload_complete es" by simp
  from mp [OF conjunct2 [OF upload_answered_once [OF h]] this] h show ?thesis by blast
qed

theorem accepted_is_registered_witness:
  "\<exists>w' r. createImportHandler (buildImportService no_third_party) (sample_request small_upload)
       (world_of empty_db) = (Inr [created_response created_row], w') \<and>
     ((\<exists>key r0. created_response created_row = created_response r0 \<and>
        find_import_by_key key (w_db w') = Some r \<and> im_id r = im_id r0) \<or>
      (\<exists>err. created_response created_row = sendError (js ''r1'') err))"
proof -
  obtain w' where h: "createImportHandler (buildImportService no_third_party) (sample_request small_upload)
      (world_of empty_db) = (Inr [created_response created_row], w')" using sample_upload by blast
  from accepted_is_registered [OF h, of "created_response created_row"] h show ?thesis
    by (auto simp: sample_request_def simp del: sendError.simps)
qed

theorem known_key_answers_at_once_witness:
  "createImportHandler (buildImportService no_third_party) (sample_request small_upload) created_world =
     (Inr [created_response created_row], created_world)"
proof -
  have f: "find_import_by_key (js ''key'') (w_db created_world) = Some created_row"
    by (rule created_world_facts(2))
  have h: "createImportHandler (buildImportService no_third_party) (sample_request small_upload) created_world =
      (Inr [created_response created_row], created_world)"
    using f created_world_facts
    by (simp add: createImportHandler_def Let_def findExistingByIdempotencyKey_def findByIdempotencyKey_def)
  from known_key_answers_at_once [OF f _ _ h] h show ?thesis by simp
qed

definition text_info :: file_info where
  "text_info = \<lparr>fi_filename = Some (js ''a.ndjson.TXT''), fi_mimeType = js ''text/plain''\<rparr>"

theorem refused_upload_does_nothing_witness:
  "\<exists>message. createImportHandler (buildImportService no_third_party)
       (sample_request (map (\<lambda>(n, v). Field n v) [(js ''providerId'', js ''p'')] @ File text_info [[1, 2]] # [Close]))
       (world_of empty_db) =
     (Inr [sendError (js ''r1'') (AppError 415 ''UNSUPPORTED_FILE_TYPE'' message)], world_of empty_db)"
proof -
  have "refusal (provider_of [(js ''providerId'', js ''p'')] None) text_info = Some (415, ''UNSUPPORTED_FILE_TYPE'')"
    by code_simp
  from refused_upload_does_nothing [OF _ _ _ _ _ this sample_lookup,
      of "sample_request (map (\<lambda>(n, v). Field n v) [(js ''providerId'', js ''p'')] @ File text_info [[1, 2]] # [Close])"
         "[[1, 2]]" "[Close]"]
  show ?thesis by (simp add: sample_request_def)
qed

theorem oversize_upload_is_imported_witness:
  "\<exists>w'. createImportHandler (buildImportService no_third_party)
       (sample_request (Field (js ''providerId'') (js ''p'') #
          part_events sample_info (replicate (MAX_UPLOAD_BYTES + 1) 0) @ [Settled, Close])) (world_of empty_db) =
     (Inr [sendError (js ''r1'') (AppError 413 ''IMPORT_FILE_TOO_LARGE''
        ''The uploaded file exceeds the allowed size'')], w') \<and> w_queue w' = [js ''0'']"
proof -
  let ?bs = "replicate (MAX_UPLOAD_BYTES + 1) 0 :: bytes"
  obtain w' where c: "createImport (buildImportService no_third_party)
      (upload_params (js ''key'') (js ''p'') sample_info (js ''a.ndjson'') [take MAX_UPLOAD_BYTES ?bs])
      (world_of empty_db) = (Inr created_row, w')" "w_queue w' = [js ''0'']"
    using sample_create_upload by blast
  have "createImportHandler (buildImportService no_third_party)
       (sample_request (Field (js ''providerId'') (js ''p'') # part_events sample_info ?bs @ [Settled, Close]))
       (world_of empty_db) =
     (Inr [sendError (rq_id (sample_request (Field (js ''providerId'') (js ''p'') #
        part_events sample_info ?bs @ [Settled, Close]))) (AppError 413 ''IMPORT_FILE_TOO_LARGE''
        ''The uploaded file exceeds the allowed size'')], w')"
    by (rule oversize_upload_is_imported [OF _ _ _ _ sample_not_refused _ _ sample_lookup c(1)])
      (simp_all add: sample_info_def)
  with c(2) show ?thesis by (auto simp: sample_request_def)
qed

definition nameless_info :: file_info where
  "nameless_info = \<lparr>fi_filename = None, fi_mimeType = js ''application/octet-stream''\<rparr>"

theorem upload_handler_rejects_witness:
  "\<exists>e. createImportHandler (buildImportService no_third_party)
      (sample_request [Field (js ''providerId'') (js ''p''), File nameless_info [], Close]) (world_of empty_db) =
    (Inl e, world_of empty_db)"
proof (rule upload_handler_rejects [OF _ _ _ sample_lookup])
  have "providerIdSchema_ok (js ''p'')" "fi_filename nameless_info = None"
    by (simp_all add: providerIdSchema_ok_def nameless_info_def)
  then show "\<exists>e. (Inr None :: exn + import_row option) = Inl e \<or> (Inr None :: exn + import_row option) = Inr None \<and>
      (rq_upload (sample_request [Field (js ''providerId'') (js ''p''), File nameless_info [], Close]) = Inl e \<or>
       e = TypeError \<and> (\<exists>provider info chunks es. providerIdSchema_ok provider \<and> fi_filename info = None \<and>
         rq_upload (sample_request [Field (js ''providerId'') (js ''p''), File nameless_info [], Close]) =
           Inr (Field (js ''providerId'') provider # File info chunks # es)))"
    by auto
qed simp_all

section \<open>Answers to reads: properties\<close>

lemma answering_InrE:
  assumes "answering rid m w = (Inr rs, w')"
  obtains (answer) x where "m w = (Inr x, w')" "rs = [x]"
  | (failure) e where "m w = (Inl e, w')" "rs = [sendError rid e]"
  using assms
  by (auto simp: answering_def bind_io_apply catch_io_apply simp del: sendError.simps
      split: prod.splits sum.splits)



lemma slice_to_length: "0 \<le> limit \<Longrightarrow> of_nat (length (slice_to limit rows)) \<le> limit"
proof -
  assume l: "0 \<le> limit"
  have "length (slice_to limit rows) \<le> nat \<lfloor>limit\<rfloor>" using l by (simp add: slice_to_def)
  then have "(of_nat (length (slice_to limit rows)) :: rat) \<le> of_nat (nat \<lfloor>limit\<rfloor>)" by (simp only: of_nat_le_iff)
  also have "\<dots> = of_int \<lfloor>limit\<rfloor>" using l by simp
  also have "\<dots> \<le> limit" by (rule of_int_floor_le)
  finally show ?thesis .
qed

text \<open>Whatever the client asks for as \<open>limit\<close> (nothing, several values, objects, text, zero,
  negative, fractional, infinite), the limit is positive and at most 200, and so is the number
  of rejections in the answer.\<close>

theorem rejections_answer_bounded:
  assumes "createRejectionsHandler (buildImportService tp) rid i limit cursor w = (Inr rs, w')"
  shows "(\<exists>page. rs = [rejections_response page] \<and> length (rp_items page) \<le> 200) \<or> (\<exists>e. rs = [sendError rid e])"
  using assms unfolding createRejectionsHandler_def
proof (cases rule: answering_InrE)
  case (answer x)
  then obtain rawLimit w1 page where p: "x = rejections_response page"
    "Repository.getRejections tp i (rejections_limit rawLimit) (case cursor of Text c \<Rightarrow> Some c | _ \<Rightarrow> None) w1 = (Inr page, w')"
    by (auto elim!: bind_io_InrE then_io_InrE simp: service_getRejections_def)
  then obtain rows where "page = rejection_page_of (rejections_limit rawLimit) rows"
    unfolding Repository.getRejections_def Let_def
    by (auto elim!: bind_io_InrE split: option.splits prod.splits if_splits)
  then have "length (rp_items page) = length (slice_to (rejections_limit rawLimit) rows)"
    by (simp add: rejection_page_of_def Let_def)
  moreover have lim: "0 \<le> rejections_limit rawLimit" "rejections_limit rawLimit \<le> 200"
    by (simp_all add: rejections_limit_def DEFAULT_REJECTIONS_LIMIT_def MAX_REJECTIONS_LIMIT_def split: jsnum.split)
  ultimately have "(of_nat (length (rp_items page)) :: rat) \<le> of_nat 200"
    using slice_to_length [OF lim(1), of rows] by simp
  then have "length (rp_items page) \<le> 200" by (simp only: of_nat_le_iff)
  with p(1) answer show ?thesis by blast
qed blast

theorem rejections_answer_bounded_witness:
  "\<exists>e. createRejectionsHandler (buildImportService no_third_party) (js ''r1'') (js ''9'')
       (Several [Text (js ''5''), Fields []]) Absent created_world = (Inr [sendError (js ''r1'') e], created_world) \<and>
     ((\<exists>page. [sendError (js ''r1'') e] = [rejections_response page] \<and> length (rp_items page) \<le> 200) \<or>
      (\<exists>e'. [sendError (js ''r1'') e] = [sendError (js ''r1'') e']))"
proof -
  have q: "\<exists>n. query_number (Several [Text (js ''5''), Fields []]) = Inr n"
    by (simp add: query_number_def)
  have n: "find_import (js ''9'') (w_db created_world) = None"
    by (simp add: created_world_def created_row_def one_import_row_def find_import_def one_import_db_def js_simps)
  have h: "createRejectionsHandler (buildImportService no_third_party) (js ''r1'') (js ''9'')
       (Several [Text (js ''5''), Fields []]) Absent created_world =
      (Inr [sendError (js ''r1'') import_not_found], created_world)"
    using q n created_world_facts
    by (auto simp: createRejectionsHandler_def answering_def service_getRejections_def getImport_def findById_def
        bind_io_apply catch_io_apply then_io_apply simp del: sendError.simps)
  from rejections_answer_bounded [OF h] h show ?thesis by blast
qed

end
