(* ===== verification/Openapi.thy ===== *)
theory Openapi
  imports Http
begin

text \<open>
  The fragment of Zod that the response schemas use (\<open>schema\<close>, with \<open>conforms\<close> as its check of a
  JSON value) and the form of a path registered with the OpenAPI registry of
  \<open>src/config/openapi/registry.ts\<close>.  The lemmas let the simplifier compute \<open>conforms\<close> on the
  bodies the handlers build.
\<close>

section \<open>Schemas\<close>

datatype schema =
    Z_String
  | Z_Min nat                           \<comment> \<open>\<open>z.string().min(lo)\<close>\<close>
  | Z_Sized nat nat                     \<comment> \<open>\<open>z.string().min(lo).max(hi)\<close>\<close>
  | Z_Number
  | Z_Boolean
  | Z_Unknown
  | Z_Literal string
  | Z_Enum "string list"
  | Z_Nullable schema
  | Z_Optional schema
  | Z_Array schema
  | Z_Object "(string \<times> schema) list"

fun is_optional :: "schema \<Rightarrow> bool" where
  "is_optional (Z_Optional s) \<longleftrightarrow> True"
| "is_optional _ \<longleftrightarrow> False"

fun conforms :: "schema \<Rightarrow> json \<Rightarrow> bool"
  and conforms_fields :: "(string \<times> schema) list \<Rightarrow> (jsstring \<times> json) list \<Rightarrow> bool" where
  "conforms Z_String v \<longleftrightarrow> (case v of JStr _ \<Rightarrow> True | _ \<Rightarrow> False)"
| "conforms (Z_Min lo) v \<longleftrightarrow> (case v of JStr s \<Rightarrow> lo \<le> length s | _ \<Rightarrow> False)"
| "conforms (Z_Sized lo hi) v \<longleftrightarrow> (case v of JStr s \<Rightarrow> lo \<le> length s \<and> length s \<le> hi | _ \<Rightarrow> False)"
| "conforms Z_Number v \<longleftrightarrow> (case v of JNum x \<Rightarrow> is_finite_num x | _ \<Rightarrow> False)"
| "conforms Z_Boolean v \<longleftrightarrow> (case v of JBool _ \<Rightarrow> True | _ \<Rightarrow> False)"
| "conforms Z_Unknown v \<longleftrightarrow> True"
| "conforms (Z_Literal k) v \<longleftrightarrow> v = JStr (js k)"
| "conforms (Z_Enum ks) v \<longleftrightarrow> (case v of JStr s \<Rightarrow> s \<in> js ` set ks | _ \<Rightarrow> False)"
| "conforms (Z_Nullable s) v \<longleftrightarrow> v = JNull \<or> conforms s v"
| "conforms (Z_Optional s) v \<longleftrightarrow> conforms s v"
| "conforms (Z_Array s) v \<longleftrightarrow> (case v of JArr xs \<Rightarrow> list_all (conforms s) xs | _ \<Rightarrow> False)"
| "conforms (Z_Object fs) v \<longleftrightarrow> (case v of JObj ps \<Rightarrow> conforms_fields fs ps | _ \<Rightarrow> False)"
| "conforms_fields [] ps \<longleftrightarrow> True"
| "conforms_fields ((k, s) # fs) ps \<longleftrightarrow>
     (case map_of ps (js k) of None \<Rightarrow> is_optional s | Some v \<Rightarrow> conforms s v) \<and> conforms_fields fs ps"

section \<open>Documented paths\<close>

text \<open>A registered path, without its descriptions; \<open>pi_secured\<close> is the bearer scheme.\<close>

record path_item =
  pi_method :: string
  pi_path :: string
  pi_tag :: string
  pi_secured :: bool
  pi_headers :: "schema option"
  pi_params :: "schema option"
  pi_query :: "schema option"
  pi_body :: "(string \<times> schema) option"        \<comment> \<open>media type and schema\<close>
  pi_responses :: "(nat \<times> string \<times> schema) list"  \<comment> \<open>status, media type and schema\<close>

abbreviation as_json :: "schema \<Rightarrow> string \<times> schema" where
  "as_json s \<equiv> (''application/json'', s)"

text \<open>The response is documented with its status, as JSON, and has the documented shape.\<close>

definition documented_in :: "path_item \<Rightarrow> response \<Rightarrow> bool" where
  "documented_in p x =
     (case map_of (pi_responses p) (rs_status x) of
        None \<Rightarrow> False
      | Some (media, s) \<Rightarrow> media = ''application/json'' \<and> conforms s (rs_body x))"

section \<open>Computing with bodies\<close>

lemma of_char_word: "of_char c = (of_nat (of_char c) :: 16 word)"
  by (cases c) (simp add: of_char_def)

lemma js_inject [simp]: "js a = js b \<longleftrightarrow> a = b"
proof -
  have "inj (of_char :: char \<Rightarrow> code_unit)"
  proof (rule injI)
    fix c d :: char assume "(of_char c :: code_unit) = of_char d"
    then have "(of_nat (of_char c) :: code_unit) = of_nat (of_char d)" by (simp only: of_char_word)
    moreover have "(of_char c :: nat) < 256" "(of_char d :: nat) < 256" by simp_all
    ultimately have "(of_char c :: nat) = of_char d" by (simp add: word_of_nat_eq_iff take_bit_nat_def)
    then show "c = d" by simp
  qed
  then show ?thesis by (simp add: js_def inj_map_eq_map)
qed

lemma conforms_obj [simp]: "conforms (Z_Object fs) (obj ps) \<longleftrightarrow> conforms_fields fs (map (\<lambda>(k, v). (js k, v)) ps)"
  by (simp add: obj_def)

lemma conforms_leaf [simp]:
  "conforms Z_String (JStr t)" "conforms Z_Number (JNum x) \<longleftrightarrow> is_finite_num x"
  "conforms Z_Boolean (JBool b)" "conforms Z_String (chars s)" "conforms Z_Number (number n)" "conforms Z_String (date d)"
  "conforms (Z_Nullable z) JNull" "conforms (Z_Enum ks) (chars k) \<longleftrightarrow> k \<in> set ks"
  "conforms (Z_Literal k) (chars l) \<longleftrightarrow> l = k"
  by (auto simp: chars_def number_def date_def image_iff)

lemma conforms_nullable [simp]:
  "(\<And>a. conforms s (f a)) \<Longrightarrow> conforms (Z_Nullable s) (nullable f x)"
  by (simp add: nullable_def split: option.split)

lemma conforms_array [simp]: "(\<And>a. a \<in> set xs \<Longrightarrow> conforms s (f a)) \<Longrightarrow> conforms (Z_Array s) (JArr (map f xs))"
  by (auto simp: list_all_iff)

text \<open>From here on the simplifier uses the rules for the built bodies only.\<close>

declare conforms.simps(1-5,7-12) [simp del]

end
