(* ===== verification/Contract.thy ===== *)
theory Contract
  imports Controller Openapi
begin

text \<open>
  The API contract: the Zod schemas of the responses in
  \<open>src/modules/imports/imports.validation.ts\<close>, the paths \<open>imports.openapi.ts\<close> documents with
  them, and the routes \<open>imports.routes.ts\<close> registers, each behind \<open>authenticate\<close>.

  The lemmas compute \<open>conforms\<close> on the bodies the handlers build and find the errors the
  service can throw, as long as the failures of the outside world are not \<open>AppError\<close>s.
  The properties: every answer of an import route is documented for its status and has the
  documented shape, or is a 500; and without a valid token no handler runs.
\<close>

section \<open>Schemas\<close>

definition statuses :: "string list" where
  "statuses = [''pending'', ''processing'', ''completed'', ''failed'', ''cancelling'', ''cancelled'']"

definition importResponseSchema :: schema where
  "importResponseSchema =
     Z_Object [(''id'', Z_String), (''status'', Z_Enum statuses), (''createdAt'', Z_String)]"

definition importStatusResponseSchema :: schema where
  "importStatusResponseSchema =
     Z_Object
       [(''id'', Z_String), (''status'', Z_Enum statuses),
        (''progress'', Z_Object
           [(''processed'', Z_Number), (''accepted'', Z_Number), (''rejected'', Z_Number),
            (''duplicates'', Z_Number)]),
        (''startedAt'', Z_Nullable Z_String), (''completedAt'', Z_Nullable Z_String),
        (''failureReason'', Z_Nullable Z_String)]"

definition errorResponseSchema :: schema where
  "errorResponseSchema =
     Z_Object [(''error'', Z_Object [(''code'', Z_String), (''message'', Z_String), (''requestId'', Z_String)])]"

definition summaryResponseSchema :: schema where
  "summaryResponseSchema =
     Z_Object
       [(''importId'', Z_String),
        (''totals'', Z_Object [(''accepted'', Z_Number), (''rejected'', Z_Number), (''duplicates'', Z_Number)]),
        (''byCurrency'', Z_Array (Z_Object
           [(''currency'', Z_String), (''transactionCount'', Z_Number), (''totalAmount'', Z_Number)])),
        (''byRiskLevel'', Z_Object [(''low'', Z_Number), (''medium'', Z_Number), (''high'', Z_Number)])]"

definition rejectionsResponseSchema :: schema where
  "rejectionsResponseSchema =
     Z_Object
       [(''items'', Z_Array (Z_Object
           [(''lineNumber'', Z_Number), (''reason'', Z_String), (''message'', Z_String), (''rawValue'', Z_Unknown)])),
        (''nextCursor'', Z_Nullable Z_String)]"

section \<open>Documented paths\<close>

definition post_imports_path :: path_item where
  "post_imports_path =
     \<lparr>pi_method = ''post'', pi_path = ''/v1/imports'', pi_tag = ''Imports'', pi_secured = True,
      pi_headers = Some (Z_Object [(''Idempotency-Key'', Z_String)]), pi_params = None, pi_query = None,
      pi_body = Some (''multipart/form-data'',
        Z_Object [(''providerId'', Z_Sized 1 200), (''file'', Z_String)]),
      pi_responses =
        [(202, as_json importResponseSchema), (400, as_json errorResponseSchema),
         (401, as_json errorResponseSchema), (413, as_json errorResponseSchema),
         (415, as_json errorResponseSchema)]\<rparr>"

definition get_import_path :: path_item where
  "get_import_path =
     \<lparr>pi_method = ''get'', pi_path = ''/v1/imports/{id}'', pi_tag = ''Imports'', pi_secured = True,
      pi_headers = None, pi_params = Some (Z_Object [(''id'', Z_String)]), pi_query = None, pi_body = None,
      pi_responses =
        [(200, as_json importStatusResponseSchema), (401, as_json errorResponseSchema),
         (404, as_json errorResponseSchema)]\<rparr>"

definition cancel_import_path :: path_item where
  "cancel_import_path =
     \<lparr>pi_method = ''post'', pi_path = ''/v1/imports/{id}/cancel'', pi_tag = ''Imports'', pi_secured = True,
      pi_headers = None, pi_params = Some (Z_Object [(''id'', Z_String)]), pi_query = None, pi_body = None,
      pi_responses =
        [(200, as_json (Z_Object [(''id'', Z_String), (''status'', Z_String)])),
         (401, as_json errorResponseSchema), (404, as_json errorResponseSchema)]\<rparr>"

definition summary_path :: path_item where
  "summary_path =
     \<lparr>pi_method = ''get'', pi_path = ''/v1/imports/{id}/summary'', pi_tag = ''Imports'', pi_secured = True,
      pi_headers = None, pi_params = Some (Z_Object [(''id'', Z_String)]), pi_query = None, pi_body = None,
      pi_responses =
        [(200, as_json summaryResponseSchema), (401, as_json errorResponseSchema),
         (404, as_json errorResponseSchema)]\<rparr>"

definition rejections_path :: path_item where
  "rejections_path =
     \<lparr>pi_method = ''get'', pi_path = ''/v1/imports/{id}/rejections'', pi_tag = ''Imports'', pi_secured = True,
      pi_headers = None, pi_params = Some (Z_Object [(''id'', Z_String)]),
      pi_query = Some (Z_Object [(''limit'', Z_Optional Z_String), (''cursor'', Z_Optional Z_String)]),
      pi_body = None,
      pi_responses =
        [(200, as_json rejectionsResponseSchema), (401, as_json errorResponseSchema),
         (404, as_json errorResponseSchema)]\<rparr>"

section \<open>Routes\<close>

datatype import_route = Post_Imports | Get_Import | Post_Cancel | Get_Summary | Get_Rejections

record http_request =
  hr_authorization :: "jsstring option"
  hr_id :: jsstring                     \<comment> \<open>\<open>req.params.id\<close>\<close>
  hr_limit :: query
  hr_cursor :: query
  hr_upload :: import_request           \<comment> \<open>with \<open>req.id\<close>\<close>

fun route_handler ::
  "import_service_deps \<Rightarrow> import_route \<Rightarrow> http_request \<Rightarrow> (world, exn, response list) io" where
  "route_handler deps Post_Imports rq = createImportHandler deps (hr_upload rq)"
| "route_handler deps Get_Import rq = createGetImportHandler deps (rq_id (hr_upload rq)) (hr_id rq)"
| "route_handler deps Post_Cancel rq = createCancelImportHandler deps (rq_id (hr_upload rq)) (hr_id rq)"
| "route_handler deps Get_Summary rq = createSummaryHandler deps (rq_id (hr_upload rq)) (hr_id rq)"
| "route_handler deps Get_Rejections rq =
     createRejectionsHandler deps (rq_id (hr_upload rq)) (hr_id rq) (hr_limit rq) (hr_cursor rq)"

definition createImportRoutes ::
  "import_service_deps \<Rightarrow> (jsstring \<Rightarrow> exn + json) \<Rightarrow> import_route \<Rightarrow> http_request \<Rightarrow>
   (world, exn, response list) io" where
  "createImportRoutes deps verify route rq =
     (case authenticate verify (hr_authorization rq) of
        Answer r \<Rightarrow> return_io [r]
      | Pass user \<Rightarrow> route_handler deps route rq)"

text \<open>The method and the pattern each route is registered with.\<close>

fun route_pattern :: "import_route \<Rightarrow> string \<times> string" where
  "route_pattern Post_Imports = (''post'', ''/v1/imports'')"
| "route_pattern Get_Import = (''get'', ''/v1/imports/:id'')"
| "route_pattern Post_Cancel = (''post'', ''/v1/imports/:id/cancel'')"
| "route_pattern Get_Summary = (''get'', ''/v1/imports/:id/summary'')"
| "route_pattern Get_Rejections = (''get'', ''/v1/imports/:id/rejections'')"

definition import_paths :: "path_item list" where
  "import_paths = [post_imports_path, get_import_path, cancel_import_path, summary_path, rejections_path]"

text \<open>The documentation of a route: the path with its method and its pattern.\<close>

fun openapi_pattern :: "string \<Rightarrow> string" where
  "openapi_pattern [] = []"
| "openapi_pattern (c # cs) =
     (if c = CHR '':'' then CHR ''{'' # takeWhile (\<lambda>c. c \<noteq> CHR ''/'') cs @ [CHR ''}'']
        @ dropWhile (\<lambda>c. c \<noteq> CHR ''/'') cs
      else c # openapi_pattern cs)"

definition documentation :: "import_route \<Rightarrow> path_item option" where
  "documentation route =
     find (\<lambda>p. (pi_method p, pi_path p) = (fst (route_pattern route), openapi_pattern (snd (route_pattern route))))
       import_paths"

definition documented :: "import_route \<Rightarrow> response \<Rightarrow> bool" where
  "documented route x = (case documentation route of None \<Rightarrow> False | Some p \<Rightarrow> documented_in p x)"

section \<open>Documented answers\<close>

lemma documentation_route [simp]:
  "documentation Post_Imports = Some post_imports_path"
  "documentation Get_Import = Some get_import_path"
  "documentation Post_Cancel = Some cancel_import_path"
  "documentation Get_Summary = Some summary_path"
  "documentation Get_Rejections = Some rejections_path"
  by (simp_all add: documentation_def import_paths_def post_imports_path_def get_import_path_def
      cancel_import_path_def summary_path_def rejections_path_def)

lemma error_conforms [simp]: "conforms errorResponseSchema (error_body rid code message)"
  by (simp add: error_body_def errorResponseSchema_def)

lemma status_known [simp]: "status_text s \<in> set statuses"
  by (cases s) (simp_all add: statuses_def)

lemma created_documented: "documented Post_Imports (created_response r)"
  by (simp add: documented_def documented_in_def created_response_def post_imports_path_def ACCEPTED_def
      importResponseSchema_def)

lemma status_documented: "documented Get_Import (status_response r)"
  by (simp add: documented_def documented_in_def status_response_def get_import_path_def OK_def
      importStatusResponseSchema_def)

lemma cancelled_documented: "documented Post_Cancel (cancelled_response r)"
  by (simp add: documented_def documented_in_def cancelled_response_def cancel_import_path_def OK_def)

lemma rejections_documented: "documented Get_Rejections (rejections_response page)"
  by (simp add: documented_def documented_in_def rejections_response_def rejections_path_def OK_def
      rejectionsResponseSchema_def)

lemma summary_documented:
  assumes "\<And>c. c \<in> set (su_byCurrency s) \<Longrightarrow> is_finite_num (js_to_number (cs_totalAmount c))"
  shows "documented Get_Summary (summary_response i s)"
  using assms
  by (simp add: documented_def documented_in_def summary_response_def summary_path_def OK_def
      summaryResponseSchema_def)

section \<open>The errors the service throws\<close>

text \<open>The failures of databases, storage and queue are no \<open>AppError\<close>s.\<close>

fun err_in :: "nat set \<Rightarrow> exn \<Rightarrow> bool" where
  "err_in S (AppError status code message) \<longleftrightarrow> status \<in> S"
| "err_in S _ \<longleftrightarrow> True"

fun fault_plain :: "fault \<Rightarrow> bool" where
  "fault_plain No_Fault \<longleftrightarrow> True"
| "fault_plain (Fail_Before e) \<longleftrightarrow> err_in {} e"
| "fault_plain (Fail_After e) \<longleftrightarrow> err_in {} e"

definition plain_faults :: "world \<Rightarrow> bool" where
  "plain_faults w \<longleftrightarrow> list_all (\<lambda>t. fault_plain (tk_fault t)) (w_schedule w)"

definition throws :: "nat set \<Rightarrow> (world, exn, 'a) io \<Rightarrow> bool" where
  "throws S m \<longleftrightarrow> triple plain_faults m (\<lambda>_. plain_faults) (\<lambda>e w. plain_faults w \<and> err_in S e)"

named_theorems throws_intros \<open>rules that bound the errors of an operation\<close>

lemma err_in_mono: "err_in S e \<Longrightarrow> S \<subseteq> T \<Longrightarrow> err_in T e"
  by (cases e) auto

lemma throws_mono: "throws S m \<Longrightarrow> S \<subseteq> T \<Longrightarrow> throws T m"
  unfolding throws_def by (erule triple_weaken) (auto intro: err_in_mono)

lemma throws_return [throws_intros]: "throws S (return_io x)"
  and throws_read [throws_intros]: "throws S (read_io f)"
  and throws_throw [throws_intros]: "err_in S e \<Longrightarrow> throws S (throw_io e)"
  and throws_lift [throws_intros]: "(\<And>e. r = Inl e \<Longrightarrow> err_in S e) \<Longrightarrow> throws S (lift_io r)"
  by (simp_all add: throws_def triple_def split: sum.split)

lemma throws_bind [throws_intros]:
  "throws S m \<Longrightarrow> (\<And>x. throws S (k x)) \<Longrightarrow> throws S (bind_io m k)"
  unfolding throws_def by (rule triple_bind)

lemma throws_then [throws_intros]: "throws S m \<Longrightarrow> throws S k \<Longrightarrow> throws S (then_io m k)"
  unfolding then_io_def by (rule throws_bind)

lemma throws_catch:
  assumes "throws T m" "\<And>e. err_in T e \<Longrightarrow> throws S (h e)"
  shows "throws S (catch_io m h)"
  unfolding throws_def
proof (rule triple_catch)
  show "triple plain_faults m (\<lambda>_. plain_faults) (\<lambda>e w. plain_faults w \<and> err_in T e)"
    using assms(1) by (simp add: throws_def)
  show "triple (\<lambda>w. plain_faults w \<and> err_in T e) (h e) (\<lambda>_. plain_faults) (\<lambda>e w. plain_faults w \<and> err_in S e)" for e
    using assms(2) [of e] by (auto simp: throws_def triple_def)
qed

lemma throws_if [throws_intros]:
  "(b \<Longrightarrow> throws S m) \<Longrightarrow> (\<not> b \<Longrightarrow> throws S n) \<Longrightarrow> throws S (if b then m else n)"
  by simp

lemma throws_option [throws_intros]:
  "(x = None \<Longrightarrow> throws S m) \<Longrightarrow> (\<And>y. x = Some y \<Longrightarrow> throws S (n y)) \<Longrightarrow>
   throws S (case x of None \<Rightarrow> m | Some y \<Rightarrow> n y)"
  by (cases x) auto

lemma schedule_after_actions: "w_schedule (fold (apply_action tp) as w) = w_schedule w"
  by (induction as arbitrary: w) (simp_all add: apply_action_def)

lemma next_tick_plain:
  assumes "plain_faults w" "next_tick tp w = (t, w')"
  shows "fault_plain (tk_fault t) \<and> plain_faults w'"
  using assms
  by (auto simp: next_tick_def plain_faults_def schedule_after_actions quiet_tick_def split: list.splits)

lemma throws_call:
  assumes "\<And>t w. w_schedule (snd (f t w)) = w_schedule w"
    and "\<And>t w e w'. f t w = (Inl e, w') \<Longrightarrow> err_in S e"
  shows "throws S (call tp f)"
  unfolding throws_def
proof (rule tripleI)
  fix w x w1 assume "plain_faults w" "call tp f w = (Inr x, w1)"
  moreover obtain t w' where n: "next_tick tp w = (t, w')" by (metis surj_pair)
  ultimately have "plain_faults w'" "f t w' = (Inr x, w1)"
    by (auto simp: call_def dest: next_tick_plain split: fault.splits)
  with assms(1) [of t w'] show "plain_faults w1" by (simp add: plain_faults_def)
next
  fix w e w1 assume w: "plain_faults w" "call tp f w = (Inl e, w1)"
  obtain t w' where n: "next_tick tp w = (t, w')" by (metis surj_pair)
  with w(1) have p: "fault_plain (tk_fault t)" "plain_faults w'" by (auto dest: next_tick_plain)
  then have "plain_faults (snd (f t w'))" using assms(1) by (simp add: plain_faults_def)
  with w(2) n p assms(2) [of t w'] show "plain_faults w1 \<and> err_in S e"
    by (cases "tk_fault t") (auto simp: call_def intro: err_in_mono [of "{}"])
qed

lemma throws_db_call:
  assumes "\<And>now d e. g now d = Inl e \<Longrightarrow> err_in S e"
  shows "throws S (db_call tp g)"
  unfolding db_call_def by (rule throws_call) (use assms in \<open>auto split: sum.splits\<close>)

lemma throws_ports [throws_intros]:
  "throws S (db_query tp f)" "throws S (minio_store tp key chunks)" "throws S (enqueueImportProcessing tp i)"
  "throws S (generate tp)"
  unfolding db_query_def minio_store_def enqueueImportProcessing_def generate_def
  by (intro throws_intros throws_call; simp add: throws_def triple_def plain_faults_def)+

lemma throws_createPendingImport [throws_intros]: "throws S (createPendingImport tp k p)"
  unfolding createPendingImport_def
  by (intro throws_catch [where T = S] throws_intros throws_db_call)
    (auto simp: create_import_def Let_def split: if_splits)

lemma throws_createImport: "throws {INTERNAL_SERVER} (createImport (buildImportService tp) p)"
  unfolding createImport_def buildImportService_simps findByIdempotencyKey_def attachUploadedFile_def
  by (intro throws_intros throws_db_call) (auto simp: create_file_def split: if_splits)

lemma throws_getImport: "throws {NOT_FOUND} (getImport (buildImportService tp) i)"
  unfolding getImport_def buildImportService_simps findById_def import_not_found_def
  by (intro throws_intros) simp

lemma throws_cancelImport: "throws {NOT_FOUND} (cancelImport (buildImportService tp) i)"
  unfolding cancelImport_def requestCancellation_def buildImportService_simps import_not_found_def
  by (intro throws_intros throws_db_call) (auto simp: update_import_def split: option.splits)

lemma throws_getSummary: "throws {NOT_FOUND} (service_getSummary (buildImportService tp) i)"
  unfolding service_getSummary_def Repository.getSummary_def buildImportService_simps
  by (intro throws_intros throws_getImport throws_db_call) (auto split: option.splits)

lemma throws_getRejections: "throws {NOT_FOUND} (service_getRejections (buildImportService tp) i limit cursor)"
proof -
  have "throws {NOT_FOUND} (Repository.getRejections tp i limit cursor)"
    unfolding Repository.getRejections_def Let_def
    by (cases cursor) (auto intro!: throws_intros split: option.split prod.split)
  then show ?thesis
    unfolding service_getRejections_def buildImportService_simps by (intro throws_intros throws_getImport)
qed

section \<open>Answers of the handlers\<close>

definition answered_as :: "import_route \<Rightarrow> response \<Rightarrow> bool" where
  "answered_as route x \<longleftrightarrow>
     documented route x \<or> rs_status x = 500 \<and> conforms errorResponseSchema (rs_body x)"

lemma created_answered: "answered_as Post_Imports (created_response r)"
  by (simp add: answered_as_def created_documented)

lemma post_error:
  "err_in {INTERNAL_SERVER, BAD_REQUEST, PAYLOAD_TOO_LARGE, UNSUPPORTED_MEDIA_TYPE} e \<Longrightarrow>
   answered_as Post_Imports (sendError rid e)"
  by (cases e) (auto simp: answered_as_def documented_def documented_in_def post_imports_path_def
      INTERNAL_SERVER_def BAD_REQUEST_def PAYLOAD_TOO_LARGE_def UNSUPPORTED_MEDIA_TYPE_def)

lemma read_error:
  assumes "err_in {NOT_FOUND} e" "route \<noteq> Post_Imports"
  shows "answered_as route (sendError rid e)"
  using assms
  by (cases e; cases route) (auto simp: answered_as_def documented_def documented_in_def
      get_import_path_def cancel_import_path_def summary_path_def rejections_path_def INTERNAL_SERVER_def
      NOT_FOUND_def)

text \<open>A reading handler answers once: with what its body makes, or with the error.\<close>

lemma answering_documented:
  assumes "throws {NOT_FOUND} m" "route \<noteq> Post_Imports" "plain_faults w"
    and "\<And>x w1. m w = (Inr x, w1) \<Longrightarrow> documented route (f x)"
    and "answering rid (bind_io m (\<lambda>x. return_io (f x))) w = (Inr rs, w')" "x \<in> set rs"
  shows "answered_as route x"
proof (cases "m w" rule: prod.exhaust)
  case (Pair r w1)
  show ?thesis
  proof (cases r)
    case (Inl e)
    with Pair assms(1,3) have "err_in {NOT_FOUND} e" by (auto simp: throws_def dest: triple_InlD)
    from read_error [OF this assms(2)] Inl Pair assms(5,6) show ?thesis
      by (auto simp: answering_def bind_io_apply catch_io_apply)
  next
    case (Inr y)
    with assms(4-6) Pair show ?thesis
      by (auto simp: answering_def bind_io_apply catch_io_apply answered_as_def)
  qed
qed

lemma summary_amounts:
  assumes "service_getSummary (buildImportService tp) i w = (Inr s, w')"
    and "\<And>x. is_finite_num (js_to_number (tp_decimal_text tp x))" "c \<in> set (su_byCurrency s)"
  shows "is_finite_num (js_to_number (cs_totalAmount c))"
proof -
  have zero: "is_finite_num (js_to_number (js ''0''))"
    using js_to_number_decimal [of 0] by (simp add: decimal_0 js_simps)
  have "su_byCurrency s \<in> range (map (currency_summary_of tp))"
    using assms(1) unfolding service_getSummary_def Repository.getSummary_def buildImportService_simps
    by (auto elim!: bind_io_InrE then_io_InrE)
  with assms(2,3) zero show ?thesis
    by (auto simp: currency_summary_of_def split: option.split)
qed

text \<open>The same for the events of an upload.\<close>

definition contract_upload :: "upload \<Rightarrow> world \<Rightarrow> bool" where
  "contract_upload u w \<longleftrightarrow>
     plain_faults w \<and> list_all (answered_as Post_Imports) (up_responses u) \<and>
     (\<forall>e. up_created u = Some (Inl e) \<longrightarrow> err_in {INTERNAL_SERVER} e)"

lemma contract_respond:
  "contract_upload u w \<Longrightarrow> answered_as Post_Imports r \<Longrightarrow> contract_upload (respondOnce r u) w"
  by (simp add: contract_upload_def respondOnce_def)

lemma contract_error:
  "contract_upload u w \<Longrightarrow>
   err_in {INTERNAL_SERVER, BAD_REQUEST, PAYLOAD_TOO_LARGE, UNSUPPORTED_MEDIA_TYPE} e \<Longrightarrow>
   contract_upload (errorOnce rid e u) w"
  unfolding errorOnce_def by (intro contract_respond post_error)

lemma on_event_contract:
  assumes "on_event (buildImportService tp) rid key e u w = (Inr u', w')" "contract_upload u w"
  shows "contract_upload u' w'"
proof (cases e)
  case (File info chunks)
  with assms(1) have "on_file (buildImportService tp) rid key info chunks u w = (Inr u', w')" by simp
  then show ?thesis
  proof (cases rule: on_file_cases)
    case (refused status code message)
    have "contract_upload (u\<lparr>up_sawFile := True\<rparr>) w" using assms(2) by (simp add: contract_upload_def)
    with refused show ?thesis by (auto intro: contract_error)
  next
    case (started p)
    obtain r w1 where c: "createImport (buildImportService tp) p w = (r, w1)" by (metis surj_pair)
    have t: "triple plain_faults (createImport (buildImportService tp) p) (\<lambda>_. plain_faults)
        (\<lambda>e w. plain_faults w \<and> err_in {INTERNAL_SERVER} e)"
      using throws_createImport by (simp add: throws_def)
    have "plain_faults w1 \<and> (\<forall>e. r = Inl e \<longrightarrow> err_in {INTERNAL_SERVER} e)"
      using c assms(2) by (cases r) (auto simp: contract_upload_def dest: triple_InrD [OF t] triple_InlD [OF t])
    with started c assms(2) show ?thesis by (simp add: contract_upload_def)
  qed
next
  case Settled
  with assms have u': "u' = on_settled rid u" "w' = w" by simp_all
  have "err_in {INTERNAL_SERVER, BAD_REQUEST, PAYLOAD_TOO_LARGE, UNSUPPORTED_MEDIA_TYPE} e"
    if "up_created u = Some (Inl e)" for e
    using assms(2) that by (auto simp: contract_upload_def intro: err_in_mono [of "{INTERNAL_SERVER}"])
  with u' assms(2) show ?thesis
    by (auto simp: on_settled_def intro: contract_error contract_respond created_answered
        split: option.splits sum.splits)
next
  case (Field n v)
  with assms show ?thesis by (auto simp: contract_upload_def split: if_splits)
qed (use assms in \<open>auto simp: refuse_def intro: contract_error split: if_splits\<close>)

lemma run_upload_contract:
  "run_upload (buildImportService tp) rid key es u w = (Inr u', w') \<Longrightarrow> contract_upload u w \<Longrightarrow>
   contract_upload u' w'"
  by (induction es arbitrary: u w) (auto elim!: bind_io_InrE dest: on_event_contract)

lemma import_handler_contract:
  assumes "createImportHandler (buildImportService tp) rq w = (Inr rs, w')" "plain_faults w" "x \<in> set rs"
  shows "answered_as Post_Imports x"
  using assms(1)
proof (cases rule: import_handler_cases)
  case (known key r)
  with assms(3) show ?thesis by (simp add: created_answered)
next
  case (upload key w1 es u)
  have "triple plain_faults (findByIdempotencyKey tp key) (\<lambda>_. plain_faults) (\<lambda>e w. plain_faults w \<and> err_in {} e)"
    using throws_ports(1) by (simp add: throws_def findByIdempotencyKey_def)
  from triple_InrD [OF this assms(2)] upload(2) have "contract_upload start_upload w1"
    by (simp add: contract_upload_def start_upload_def)
  from run_upload_contract [OF upload(4) this] upload(5) assms(3) show ?thesis
    by (auto simp: contract_upload_def list_all_iff)
qed (use assms(3) in \<open>auto intro: post_error simp del: sendError.simps\<close>)

lemma bind_io_assoc: "bind_io (bind_io m k) l = bind_io m (\<lambda>x. bind_io (k x) l)"
  by (rule ext) (simp add: bind_io_def split: prod.splits sum.splits)

lemma rejections_handler_contract:
  assumes "createRejectionsHandler (buildImportService tp) rid i limit cursor w = (Inr rs, w')"
    and "plain_faults w" "x \<in> set rs"
  shows "answered_as Get_Rejections x"
proof -
  let ?m = "bind_io (lift_io (query_number limit)) (\<lambda>rawLimit.
      service_getRejections (buildImportService tp) i (rejections_limit rawLimit)
        (case cursor of Text c \<Rightarrow> Some c | _ \<Rightarrow> None))"
  have "throws {NOT_FOUND} ?m"
    by (intro throws_intros throws_getRejections)
      (auto simp: query_number_def split: if_splits option.splits)
  moreover have "answering rid (bind_io ?m (\<lambda>page. return_io (rejections_response page))) w = (Inr rs, w')"
    using assms(1) by (simp add: createRejectionsHandler_def bind_io_assoc)
  ultimately show ?thesis
    using assms(2,3) by (blast intro: answering_documented rejections_documented)
qed

section \<open>Properties\<close>

text \<open>C10. The API contract: every response of an import route to an authenticated request has a
  status that \<open>imports.openapi.ts\<close> documents for the route, and a body of the documented schema;
  or it is a 500 in the format of the error schema.  This holds whatever fails outside (the
  failures being no \<open>AppError\<close>s of the program's own), for every schedule.\<close>

theorem responses_conform:
  assumes "createImportRoutes (buildImportService tp) verify route rq w = (Inr rs, w')" "x \<in> set rs"
    and "authenticate verify (hr_authorization rq) = Pass user"
    and "plain_faults w" "\<And>y. is_finite_num (js_to_number (tp_decimal_text tp y))"
  shows "documented route x \<or> rs_status x = 500 \<and> conforms errorResponseSchema (rs_body x)"
proof -
  have run: "route_handler (buildImportService tp) route rq w = (Inr rs, w')"
    using assms(1,3) by (simp add: createImportRoutes_def)
  have "answered_as route x"
  proof (cases route)
    case Post_Imports
    with run assms(2,4) show ?thesis by (auto intro: import_handler_contract)
  next
    case Get_Import
    from answering_documented [OF throws_getImport _ assms(4) status_documented _ assms(2)] run Get_Import
    show ?thesis by (simp add: createGetImportHandler_def)
  next
    case Post_Cancel
    from answering_documented [OF throws_cancelImport _ assms(4) cancelled_documented _ assms(2)] run Post_Cancel
    show ?thesis by (simp add: createCancelImportHandler_def)
  next
    case Get_Summary
    have "documented Get_Summary (summary_response (hr_id rq) s)"
      if "service_getSummary (buildImportService tp) (hr_id rq) w = (Inr s, w1)" for s w1
      by (rule summary_documented) (rule summary_amounts [OF that assms(5)])
    from answering_documented [OF throws_getSummary _ assms(4) this _ assms(2)] run Get_Summary
    show ?thesis by (simp add: createSummaryHandler_def)
  next
    case Get_Rejections
    with run assms(2,4) show ?thesis by (auto intro: rejections_handler_contract)
  qed
  then show ?thesis by (simp add: answered_as_def)
qed

text \<open>Without a valid bearer token no import route does anything: one answer, 401, and the
  world is as it was.\<close>

theorem unauthenticated_does_nothing:
  assumes "\<And>token. hr_authorization rq = Some (js ''Bearer '' @ token) \<Longrightarrow> token \<noteq> [] \<Longrightarrow> \<exists>e. verify token = Inl e"
  shows "\<exists>x. createImportRoutes deps verify route rq w = (Inr [x], w) \<and> rs_status x = 401"
proof -
  have "authenticate verify (hr_authorization rq) = Answer unauthorized"
  proof (cases "after_prefix ''Bearer '' (hr_authorization rq)")
    case (Some token)
    then obtain h where h: "hr_authorization rq = Some h" "take (length ''Bearer '') h = js ''Bearer ''"
        "token = drop (length ''Bearer '') h"
      unfolding after_prefix_def by (auto simp del: list.size split: option.splits if_splits)
    then have "hr_authorization rq = Some (js ''Bearer '' @ token)" by (metis append_take_drop_id)
    with assms [of token] Some show ?thesis by (auto simp: authenticate_def)
  qed (simp add: authenticate_def)
  then show ?thesis by (simp add: createImportRoutes_def unauthorized_def UNAUTHORIZED_def)
qed

text \<open>Every import route is documented under its method and pattern, with the bearer scheme
  it is guarded by; but its 401 answer does not have the documented shape: the middleware
  answers \<open>{ message }\<close> where the contract promises \<open>{ error: { code, message, requestId } }\<close>.\<close>

theorem unauthorized_not_as_documented:
  "(\<exists>p. documentation route = Some p \<and> pi_secured p \<and>
      map_of (pi_responses p) (rs_status unauthorized) = Some (''application/json'', errorResponseSchema)) \<and>
    \<not> documented route unauthorized"
proof -
  have c: "\<not> conforms errorResponseSchema (rs_body unauthorized)" by code_simp
  have "\<exists>p. documentation route = Some p \<and> pi_secured p \<and>
      map_of (pi_responses p) (rs_status unauthorized) = Some (''application/json'', errorResponseSchema)"
    by (cases route) (simp_all add: unauthorized_def UNAUTHORIZED_def post_imports_path_def get_import_path_def
        cancel_import_path_def summary_path_def rejections_path_def)
  with c show ?thesis by (auto simp: documented_def documented_in_def)
qed

definition sample_get :: http_request where
  "sample_get =
     \<lparr>hr_authorization = Some (js ''Bearer t''), hr_id = js ''0'', hr_limit = Absent, hr_cursor = Absent,
      hr_upload = sample_request []\<rparr>"

theorem responses_conform_witness:
  "createImportRoutes (buildImportService (no_third_party\<lparr>tp_decimal_text := (\<lambda>x. js ''0'')\<rparr>)) (\<lambda>token. Inr JNull) Get_Import sample_get created_world =
     (Inr [status_response created_row], created_world) \<and>
   (documented Get_Import (status_response created_row) \<or>
    rs_status (status_response created_row) = 500 \<and> conforms errorResponseSchema (rs_body (status_response created_row)))"
proof -
  have a: "authenticate (\<lambda>token. Inr JNull) (hr_authorization sample_get) = Pass JNull" by code_simp
  have h: "createImportRoutes (buildImportService (no_third_party\<lparr>tp_decimal_text := (\<lambda>x. js ''0'')\<rparr>)) (\<lambda>token. Inr JNull) Get_Import sample_get created_world =
     (Inr [status_response created_row], created_world)"
    using created_world_facts
    by (simp add: createImportRoutes_def a createGetImportHandler_def answering_def getImport_def findById_def
        bind_io_apply catch_io_apply) (simp add: sample_get_def)
  have f: "plain_faults created_world" by (simp add: plain_faults_def created_world_facts)
  have d: "is_finite_num (js_to_number (tp_decimal_text (no_third_party\<lparr>tp_decimal_text := (\<lambda>x. js ''0'')\<rparr>) y))" for y
    using js_to_number_decimal [of 0] by (simp add: decimal_0 js_simps)
  from responses_conform [OF h _ a f d] h show ?thesis by simp
qed

theorem unauthenticated_does_nothing_witness:
  "\<exists>x. createImportRoutes (buildImportService no_third_party) (\<lambda>token. Inl TypeError) Post_Cancel
     (sample_get\<lparr>hr_authorization := Some (js ''Basic YTpi'')\<rparr>) created_world = (Inr [x], created_world) \<and> rs_status x = 401"
  by (rule unauthenticated_does_nothing) simp

end
