(* ===== verification/Shutdown.thy ===== *)
theory Shutdown
  imports Openapi
begin

text \<open>
  Graceful shutdown: \<open>registerGracefulShutdown\<close> of \<open>src/shared/utils/gracefulShutdown.ts\<close> and the
  steps \<open>server.ts\<close> and \<open>worker.ts\<close> register with it, the readiness flag of
  \<open>src/shared/state/ReadinessState.ts\<close>, the health endpoints of
  \<open>src/modules/health/health.controller.ts\<close> and the checks before the start,
  \<open>src/config/checkConnections.ts\<close>.

  The shutdown of a process is a state machine.  Its events are a signal, the end of the
  step that is running (by fulfilment or failure) and the expiry of the force-exit timer;
  \<open>shutdown_step\<close> is the relation and \<open>reaches\<close> its reflexive transitive closure.  What a step
  does to the process is the parameter \<open>effect\<close>.
\<close>

section \<open>Readiness and health\<close>

record process_state =
  ps_notReady :: bool                 \<comment> \<open>\<open>ReadinessState.shuttingDown\<close>\<close>
  ps_shutdownRequested :: bool        \<comment> \<open>\<open>ShutdownSignal\<close>\<close>
  ps_closed :: "string list"          \<comment> \<open>the resources that were told to close, in order\<close>

definition running_process :: process_state where
  "running_process = \<lparr>ps_notReady = False, ps_shutdownRequested = False, ps_closed = []\<rparr>"

definition markShuttingDown :: "process_state \<Rightarrow> process_state" where
  "markShuttingDown s = s\<lparr>ps_notReady := True\<rparr>"

text \<open>The answers of the dependencies: each call may throw.\<close>

record dependencies =
  dp_select1 :: "exn + unit"
  dp_redisIsOpen :: bool
  dp_redisConnect :: "exn + unit"
  dp_redisPing :: "exn + jsstring"
  dp_bucketExists :: "exn + bool"

definition createLiveHandler :: response where
  "createLiveHandler = \<lparr>rs_status = OK, rs_body = obj [(''status'', chars ''alive'')]\<rparr>"

definition createReadyHandler :: "process_state \<Rightarrow> dependencies \<Rightarrow> response" where
  "createReadyHandler s dp =
     (if ps_notReady s then
        \<lparr>rs_status = SERVICE_UNAVAILABLE,
         rs_body = obj [(''status'', chars ''not_ready''), (''reason'', chars ''shutting_down'')]\<rparr>
      else
        let postgres = (case dp_select1 dp of Inl _ \<Rightarrow> False | Inr _ \<Rightarrow> True);
            redis = (dp_redisIsOpen dp \<and> dp_redisPing dp = Inr (js ''PONG''));
            minio = (case dp_bucketExists dp of Inl _ \<Rightarrow> False | Inr b \<Rightarrow> b);
            checks = obj [(''postgres'', JBool postgres), (''redis'', JBool redis), (''minio'', JBool minio)]
        in \<lparr>rs_status = (if postgres then OK else SERVICE_UNAVAILABLE),
            rs_body = obj [(''status'', chars (if postgres then ''ready'' else ''not_ready'')),
                           (''checks'', checks)]\<rparr>)"

text \<open>Before the start: Postgres or nothing; the others are logged.\<close>

definition checkPostgres :: "dependencies \<Rightarrow> exn + string list" where
  "checkPostgres dp = (case dp_select1 dp of Inl e \<Rightarrow> Inl e | Inr _ \<Rightarrow> Inr [''Postgres: connected''])"

definition checkRedis :: "dependencies \<Rightarrow> string list" where
  "checkRedis dp =
     (case (dp_redisConnect dp, dp_redisPing dp) of
        (Inr _, Inr _) \<Rightarrow> [''Redis: connected'']
      | _ \<Rightarrow> [''Redis: not reachable, continuing without it''])"

definition checkMinio :: "dependencies \<Rightarrow> string list" where
  "checkMinio dp =
     (case dp_bucketExists dp of
        Inr _ \<Rightarrow> [''MinIO: connected'']
      | Inl _ \<Rightarrow> [''MinIO: not reachable, continuing without it''])"

definition checkConnections :: "dependencies \<Rightarrow> exn + string list" where
  "checkConnections dp =
     (case checkPostgres dp of Inl e \<Rightarrow> Inl e | Inr messages \<Rightarrow> Inr (messages @ checkRedis dp @ checkMinio dp))"

section \<open>The shutdown of a process\<close>

record 's shutdown =
  sh_shuttingDown :: bool
  sh_armed :: bool                    \<comment> \<open>the force-exit timer\<close>
  sh_todo :: "string list"            \<comment> \<open>the steps that have not settled; the first one runs\<close>
  sh_started :: "string list"
  sh_failed :: "string list"
  sh_exit :: "nat option"
  sh_process :: 's

datatype shutdown_event =
    Signal string
  | Step_Settled bool                 \<comment> \<open>fulfilled, or failed\<close>
  | Timer_Expired

text \<open>The next turn of the loop: start the next step, or exit when there is none.\<close>

definition next_turn :: "(string \<Rightarrow> 's \<Rightarrow> 's) \<Rightarrow> 's shutdown \<Rightarrow> 's shutdown" where
  "next_turn effect p =
     (case sh_todo p of
        [] \<Rightarrow> p\<lparr>sh_armed := False, sh_exit := Some 0\<rparr>
      | s # _ \<Rightarrow> p\<lparr>sh_started := sh_started p @ [s], sh_process := effect s (sh_process p)\<rparr>)"

fun on_shutdown_event ::
  "string list \<Rightarrow> (string \<Rightarrow> 's \<Rightarrow> 's) \<Rightarrow> shutdown_event \<Rightarrow> 's shutdown \<Rightarrow> 's shutdown option" where
  "on_shutdown_event steps effect (Signal s) p =
     (if sh_shuttingDown p then Some p
      else Some (next_turn effect (p\<lparr>sh_shuttingDown := True, sh_armed := True, sh_todo := steps\<rparr>)))"
| "on_shutdown_event steps effect (Step_Settled ok) p =
     (case sh_todo p of
        [] \<Rightarrow> None
      | s # rest \<Rightarrow>
          Some (next_turn effect
            (p\<lparr>sh_todo := rest, sh_failed := (if ok then sh_failed p else sh_failed p @ [s])\<rparr>)))"
| "on_shutdown_event steps effect Timer_Expired p =
     (if sh_armed p then Some (p\<lparr>sh_exit := Some 1\<rparr>) else None)"

definition not_shutting_down :: "'s \<Rightarrow> 's shutdown" where
  "not_shutting_down s =
     \<lparr>sh_shuttingDown = False, sh_armed = False, sh_todo = [], sh_started = [], sh_failed = [],
      sh_exit = None, sh_process = s\<rparr>"

text \<open>An event happens to a process that has not exited.\<close>

inductive shutdown_step ::
  "string list \<Rightarrow> (string \<Rightarrow> 's \<Rightarrow> 's) \<Rightarrow> 's shutdown \<Rightarrow> 's shutdown \<Rightarrow> bool"
  for steps effect where
  event: "sh_exit p = None \<Longrightarrow> on_shutdown_event steps effect e p = Some p' \<Longrightarrow> shutdown_step steps effect p p'"

inductive reaches ::
  "string list \<Rightarrow> (string \<Rightarrow> 's \<Rightarrow> 's) \<Rightarrow> 's shutdown \<Rightarrow> 's shutdown \<Rightarrow> bool"
  for steps effect where
  here: "reaches steps effect p p"
| later: "reaches steps effect p q \<Longrightarrow> shutdown_step steps effect q r \<Longrightarrow> reaches steps effect p r"

section \<open>The registered steps\<close>

definition server_steps :: "string list" where
  "server_steps =
     [''mark-not-ready'', ''close-http-server'', ''close-socket-io'', ''disconnect-prisma'', ''quit-redis'',
      ''quit-queue-connection'']"

definition worker_steps :: "string list" where
  "worker_steps =
     [''signal-shutdown'', ''close-bullmq-worker'', ''close-piscina-pool'', ''close-metrics-server'',
      ''disconnect-prisma'', ''quit-redis'', ''quit-queue-connection'']"

text \<open>What the \<open>run\<close> of a step does when it is called: the two flags are set at once, every other
  step asks a resource to close.\<close>

definition step_effect :: "string \<Rightarrow> process_state \<Rightarrow> process_state" where
  "step_effect step s =
     (if step = ''mark-not-ready'' then markShuttingDown s
      else if step = ''signal-shutdown'' then s\<lparr>ps_shutdownRequested := True\<rparr>
      else s\<lparr>ps_closed := ps_closed s @ [step]\<rparr>)"

section \<open>The invariant\<close>

text \<open>After \<open>k\<close> steps have settled: step \<open>k\<close> is running, or there is none and the process exits.\<close>

definition shutdown_at :: "string list \<Rightarrow> (string \<Rightarrow> 's \<Rightarrow> 's) \<Rightarrow> 's \<Rightarrow> nat \<Rightarrow> 's shutdown \<Rightarrow> bool" where
  "shutdown_at steps effect s k p \<longleftrightarrow>
     sh_shuttingDown p \<and> k \<le> length steps \<and> sh_todo p = drop k steps \<and>
     sh_started p = take (Suc k) steps \<and> sh_process p = fold effect (sh_started p) s \<and>
     (if k = length steps then sh_exit p = Some 0 else sh_armed p \<and> sh_exit p \<in> {None, Some 1})"

definition shutdown_inv :: "string list \<Rightarrow> (string \<Rightarrow> 's \<Rightarrow> 's) \<Rightarrow> 's \<Rightarrow> 's shutdown \<Rightarrow> bool" where
  "shutdown_inv steps effect s p \<longleftrightarrow> p = not_shutting_down s \<or> (\<exists>k. shutdown_at steps effect s k p)"

lemma next_turn_at:
  assumes "k \<le> length steps" "sh_shuttingDown p" "sh_armed p" "sh_exit p = None" "sh_todo p = drop k steps"
    and "sh_started p = take k steps" "sh_process p = fold effect (take k steps) s"
  shows "shutdown_at steps effect s k (next_turn effect p)"
proof (cases "k = length steps")
  case True
  with assms show ?thesis by (simp add: next_turn_def shutdown_at_def)
next
  case False
  then have "k < length steps" using assms(1) by simp
  then have "drop k steps = steps ! k # drop (Suc k) steps" "take (Suc k) steps = take k steps @ [steps ! k]"
    by (simp_all add: Cons_nth_drop_Suc take_Suc_conv_app_nth)
  with assms False show ?thesis by (simp add: next_turn_def shutdown_at_def)
qed

lemma signal_inv:
  "shutdown_at steps effect s 0
     (next_turn effect ((not_shutting_down s)\<lparr>sh_shuttingDown := True, sh_armed := True, sh_todo := steps\<rparr>))"
  by (rule next_turn_at) (simp_all add: not_shutting_down_def)

lemma settled_at:
  assumes "shutdown_at steps effect s k p" "sh_exit p = None"
  shows "k < length steps \<and> (\<exists>p'. on_shutdown_event steps effect (Step_Settled ok) p = Some p' \<and>
    shutdown_at steps effect s (Suc k) p' \<and>
    sh_failed p' = sh_failed p @ (if ok then [] else [steps ! k]))"
proof -
  have k: "k < length steps"
    using assms by (cases "k = length steps") (auto simp: shutdown_at_def)
  then have d: "sh_todo p = steps ! k # drop (Suc k) steps"
    using assms(1) by (simp add: shutdown_at_def Cons_nth_drop_Suc)
  let ?p = "p\<lparr>sh_todo := drop (Suc k) steps, sh_failed := (if ok then sh_failed p else sh_failed p @ [steps ! k])\<rparr>"
  have "shutdown_at steps effect s (Suc k) (next_turn effect ?p)"
    using assms k by (intro next_turn_at) (auto simp: shutdown_at_def)
  moreover have "sh_failed (next_turn effect ?p) = sh_failed p @ (if ok then [] else [steps ! k])"
    by (simp add: next_turn_def split: list.split)
  ultimately show ?thesis using d k by simp
qed

lemma shutdown_step_inv:
  assumes "shutdown_step steps effect p p'" "shutdown_inv steps effect s p"
  shows "shutdown_inv steps effect s p'"
  using assms(1)
proof cases
  case (event e)
  from assms(2) consider "p = not_shutting_down s" | k where "shutdown_at steps effect s k p"
    unfolding shutdown_inv_def by blast
  then show ?thesis
  proof cases
    case 1
    with event signal_inv [of steps effect s] show ?thesis
      by (cases e) (auto simp: shutdown_inv_def not_shutting_down_def)
  next
    case (2 k)
    show ?thesis
    proof (cases e)
      case (Signal x)
      with event 2 have "p' = p" by (simp add: shutdown_at_def)
      with 2 show ?thesis by (auto simp: shutdown_inv_def)
    next
      case (Step_Settled ok)
      with settled_at [OF 2 event(1), of ok] event(2) show ?thesis by (auto simp: shutdown_inv_def)
    next
      case Timer_Expired
      with event 2 have "shutdown_at steps effect s k p'"
        by (cases "k = length steps") (auto simp: shutdown_at_def split: if_splits)
      then show ?thesis by (auto simp: shutdown_inv_def)
    qed
  qed
qed

lemma reaches_inv: "reaches steps effect (not_shutting_down s) p \<Longrightarrow> shutdown_inv steps effect s p"
proof (induction "not_shutting_down s" p rule: reaches.induct)
  case here
  then show ?case by (simp add: shutdown_inv_def)
next
  case (later q r)
  then show ?case by (blast intro: shutdown_step_inv)
qed

section \<open>Runs\<close>

text \<open>The events of a run, up to the exit of the process.\<close>

fun deliver ::
  "string list \<Rightarrow> (string \<Rightarrow> 's \<Rightarrow> 's) \<Rightarrow> shutdown_event list \<Rightarrow> 's shutdown \<Rightarrow> 's shutdown option" where
  "deliver steps effect [] p = Some p"
| "deliver steps effect (e # es) p =
     (if sh_exit p \<noteq> None then Some p
      else (case on_shutdown_event steps effect e p of
              None \<Rightarrow> None | Some p' \<Rightarrow> deliver steps effect es p'))"

fun outcomes :: "shutdown_event list \<Rightarrow> bool list" where
  "outcomes [] = []"
| "outcomes (Step_Settled ok # es) = ok # outcomes es"
| "outcomes (_ # es) = outcomes es"

lemma deliver_reaches:
  "deliver steps effect es p = Some q \<Longrightarrow> reaches steps effect r p \<Longrightarrow> reaches steps effect r q"
proof (induction es arbitrary: p)
  case (Cons e es)
  show ?case
  proof (cases "sh_exit p")
    case None
    with Cons.prems(1) obtain p' where p': "on_shutdown_event steps effect e p = Some p'"
      "deliver steps effect es p' = Some q" by (auto split: option.splits)
    have "reaches steps effect r p'"
      by (rule reaches.later [OF Cons.prems(2)]) (rule shutdown_step.event [OF None p'(1)])
    with Cons.IH [OF p'(2)] show ?thesis .
  qed (use Cons.prems in simp)
qed simp

lemma deliver_settles:
  assumes "shutdown_at steps effect s k p" "sh_exit p = None" "Timer_Expired \<notin> set es"
    and "length (outcomes es) = length steps - k"
  shows "\<exists>q. deliver steps effect es p = Some q \<and> sh_exit q = Some 0 \<and> sh_started q = steps \<and>
    sh_failed q = sh_failed p @ map fst (filter (\<lambda>(x, ok). \<not> ok) (zip (drop k steps) (outcomes es)))"
  using assms
proof (induction es arbitrary: k p)
  case Nil
  then show ?case by (auto simp: shutdown_at_def)
next
  case (Cons e es)
  show ?case
  proof (cases e)
    case (Signal x)
    with Cons.prems have "on_shutdown_event steps effect e p = Some p" by (simp add: shutdown_at_def)
    with Cons Signal show ?thesis by simp
  next
    case (Step_Settled ok)
    from settled_at [OF Cons.prems(1,2), of ok] obtain p' where p':
      "k < length steps" "on_shutdown_event steps effect e p = Some p'" "shutdown_at steps effect s (Suc k) p'"
      "sh_failed p' = sh_failed p @ (if ok then [] else [steps ! k])" unfolding Step_Settled by blast
    have dr: "drop k steps = steps ! k # drop (Suc k) steps" using p'(1) by (simp add: Cons_nth_drop_Suc)
    show ?thesis
    proof (cases "Suc k = length steps")
      case True
      then have "length (outcomes es) = 0" using Cons.prems(4) Step_Settled by (simp add: True [symmetric])
      with True have ex: "sh_exit p' = Some 0" "sh_started p' = steps" "outcomes es = []"
        using p'(3) by (simp_all add: shutdown_at_def)
      then have "deliver steps effect es p' = Some p'" by (cases es) simp_all
      with ex p' dr True Cons.prems(2) Step_Settled show ?thesis by simp
    next
      case False
      then have "Suc k < length steps" using p'(1) by simp
      moreover have "sh_exit p' \<in> {None, Some 1}" using p'(3) False by (simp add: shutdown_at_def)
      moreover have "sh_exit p' = None"
        using p'(2) Cons.prems(2) dr Cons.prems(1) Step_Settled
        by (auto simp: next_turn_def shutdown_at_def split: list.splits) (use False p'(1) in auto)
      moreover have "length (outcomes es) = length steps - Suc k" using Cons.prems(4) Step_Settled by simp
      ultimately obtain q where "deliver steps effect es p' = Some q" "sh_exit q = Some 0" "sh_started q = steps"
        "sh_failed q = sh_failed p' @ map fst (filter (\<lambda>(x, ok). \<not> ok) (zip (drop (Suc k) steps) (outcomes es)))"
        using Cons.IH [OF p'(3)] Cons.prems(3,4) Step_Settled p'(1) by auto
      with p' dr Cons.prems(2) Step_Settled show ?thesis by simp
    qed
  next
    case Timer_Expired
    with Cons.prems(3) show ?thesis by simp
  qed
qed

section \<open>Properties\<close>

text \<open>C18. At every moment of a shutdown, whatever signals come and however the steps settle: the
  steps that were started are an initial part of the registered ones, in order and each once,
  and the process has their effects; it exits with 0 only after the last step has settled, and
  with 1 only by the timer while one has not.\<close>

theorem shutdown_in_order:
  assumes "reaches steps effect (not_shutting_down s) p"
  shows "(\<exists>k. sh_started p = take k steps) \<and> sh_process p = fold effect (sh_started p) s \<and>
    (sh_exit p = Some 0 \<longrightarrow> sh_started p = steps \<and> sh_todo p = []) \<and>
    (sh_exit p = Some 1 \<longrightarrow> sh_todo p \<noteq> []) \<and> sh_exit p \<in> {None, Some 0, Some 1}"
proof -
  from reaches_inv [OF assms] consider "p = not_shutting_down s" | k where "shutdown_at steps effect s k p"
    unfolding shutdown_inv_def by blast
  then show ?thesis
  proof cases
    case 1
    then show ?thesis by (auto simp: not_shutting_down_def intro: exI [of _ 0])
  next
    case (2 k)
    then have "\<exists>k. sh_started p = take k steps" by (auto simp: shutdown_at_def)
    with 2 show ?thesis by (cases "k = length steps") (auto simp: shutdown_at_def)
  qed
qed

text \<open>C17. A shutdown ends: after a signal, when the steps settle before the timer expires, with any
  of them failing and any further signals in between, the process exits with 0, has run every
  registered step, and has noted exactly the failed ones.\<close>

theorem shutdown_completes:
  assumes "Timer_Expired \<notin> set es" "length (outcomes es) = length steps"
  shows "\<exists>p. deliver steps effect (Signal x # es) (not_shutting_down s) = Some p \<and>
    reaches steps effect (not_shutting_down s) p \<and> sh_exit p = Some 0 \<and> sh_started p = steps \<and>
    sh_failed p = map fst (filter (\<lambda>(x, ok). \<not> ok) (zip steps (outcomes es)))"
proof -
  let ?p = "next_turn effect ((not_shutting_down s)\<lparr>sh_shuttingDown := True, sh_armed := True, sh_todo := steps\<rparr>)"
  have start: "on_shutdown_event steps effect (Signal x) (not_shutting_down s) = Some ?p"
      "sh_exit (not_shutting_down s) = None" "sh_failed ?p = []"
    by (simp_all add: not_shutting_down_def next_turn_def split: list.split)
  have "\<exists>p. deliver steps effect es ?p = Some p \<and> sh_exit p = Some 0 \<and> sh_started p = steps \<and>
    sh_failed p = sh_failed ?p @ map fst (filter (\<lambda>(x, ok). \<not> ok) (zip (drop 0 steps) (outcomes es)))"
  proof (cases "steps = []")
    case True
    then have "sh_exit ?p = Some 0" "sh_started ?p = []"
      by (simp_all add: next_turn_def not_shutting_down_def)
    moreover from this have "deliver steps effect es ?p = Some ?p" by (cases es) simp_all
    ultimately show ?thesis using True by simp
  next
    case False
    have "sh_exit ?p = None" using False by (simp add: next_turn_def not_shutting_down_def split: list.split)
    from deliver_settles [OF signal_inv [of steps effect s] this assms(1)] assms(2) show ?thesis by simp
  qed
  then obtain p where p: "deliver steps effect (Signal x # es) (not_shutting_down s) = Some p"
    "sh_exit p = Some 0" "sh_started p = steps"
    "sh_failed p = map fst (filter (\<lambda>(x, ok). \<not> ok) (zip steps (outcomes es)))"
    using start by auto
  from deliver_reaches [OF p(1) reaches.here] p show ?thesis by blast
qed

lemma started_first:
  assumes "reaches steps effect (not_shutting_down s) p" "steps = x # rest" "sh_started p \<noteq> []"
  shows "\<exists>k. sh_started p = x # take k rest \<and> sh_process p = fold effect (take k rest) (effect x s)"
proof -
  from reaches_inv [OF assms(1)] assms(3) obtain k where "shutdown_at steps effect s k p"
    by (auto simp: shutdown_inv_def not_shutting_down_def)
  with assms(2) show ?thesis by (auto simp: shutdown_at_def)
qed

lemma started_effects:
  "reaches steps effect (not_shutting_down s) p \<Longrightarrow> sh_process p = fold effect (sh_started p) s"
  by (drule reaches_inv) (auto simp: shutdown_inv_def not_shutting_down_def shutdown_at_def)

lemma step_effect_keeps:
  "ps_notReady s \<Longrightarrow> ps_notReady (fold step_effect xs s)"
  "ps_shutdownRequested s \<Longrightarrow> ps_shutdownRequested (fold step_effect xs s)"
  by (induction xs arbitrary: s) (simp_all add: step_effect_def markShuttingDown_def)

text \<open>C19. Nothing is closed under running work: in a server that is shutting down, once any
  resource has been told to close, \<open>GET /health/ready\<close> already answers 503, whatever the
  dependencies say; in a worker, the running import has already been asked to pause.\<close>

theorem closing_is_announced:
  assumes "ps_closed s = []"
  shows "(reaches server_steps step_effect (not_shutting_down s) p \<and> ps_closed (sh_process p) \<noteq> [] \<longrightarrow>
      rs_status (createReadyHandler (sh_process p) dp) = 503) \<and>
    (reaches worker_steps step_effect (not_shutting_down s) q \<and> ps_closed (sh_process q) \<noteq> [] \<longrightarrow>
      ps_shutdownRequested (sh_process q))"
proof (intro conjI impI; elim conjE)
  assume p: "reaches server_steps step_effect (not_shutting_down s) p" "ps_closed (sh_process p) \<noteq> []"
  then have "sh_started p \<noteq> []" using started_effects [OF p(1)] assms by auto
  from started_first [OF p(1) server_steps_def this] obtain xs where
    "sh_process p = fold step_effect xs (step_effect ''mark-not-ready'' s)" by blast
  then have "ps_notReady (sh_process p)"
    by (simp add: step_effect_keeps step_effect_def [of "''mark-not-ready''"] markShuttingDown_def)
  then show "rs_status (createReadyHandler (sh_process p) dp) = 503"
    by (simp add: createReadyHandler_def SERVICE_UNAVAILABLE_def)
next
  assume q: "reaches worker_steps step_effect (not_shutting_down s) q" "ps_closed (sh_process q) \<noteq> []"
  then have "sh_started q \<noteq> []" using started_effects [OF q(1)] assms by auto
  from started_first [OF q(1) worker_steps_def this] obtain xs where
    "sh_process q = fold step_effect xs (step_effect ''signal-shutdown'' s)" by blast
  then show "ps_shutdownRequested (sh_process q)"
    by (simp add: step_effect_keeps step_effect_def [of "''signal-shutdown''"])
qed

section \<open>The documented health endpoints\<close>

definition checks_schema :: schema where
  "checks_schema = Z_Object [(''postgres'', Z_Boolean), (''redis'', Z_Boolean), (''minio'', Z_Boolean)]"

definition live_path :: path_item where
  "live_path =
     \<lparr>pi_method = ''get'', pi_path = ''/health/live'', pi_tag = ''Health'', pi_secured = False,
      pi_headers = None, pi_params = None, pi_query = None, pi_body = None,
      pi_responses = [(200, as_json (Z_Object [(''status'', Z_Literal ''alive'')]))]\<rparr>"

definition ready_path :: path_item where
  "ready_path =
     \<lparr>pi_method = ''get'', pi_path = ''/health/ready'', pi_tag = ''Health'', pi_secured = False,
      pi_headers = None, pi_params = None, pi_query = None, pi_body = None,
      pi_responses =
        [(200, as_json (Z_Object [(''status'', Z_Literal ''ready''), (''checks'', checks_schema)])),
         (503, as_json (Z_Object
            [(''status'', Z_Literal ''not_ready''), (''reason'', Z_Optional Z_String),
             (''checks'', Z_Optional checks_schema)]))]\<rparr>"

lemma optional_conforms [simp]: "conforms s v \<Longrightarrow> conforms (Z_Optional s) v"
  by (simp add: conforms.simps)

text \<open>The health endpoints answer as documented, and Postgres alone decides: a process starts
  exactly when it is reachable, and answers ready exactly when it is and no shutdown has
  begun; the caches and the object store never turn a process away.\<close>

theorem readiness_as_documented:
  "documented_in live_path createLiveHandler \<and> documented_in ready_path (createReadyHandler s dp) \<and>
   (rs_status (createReadyHandler s dp) = 200 \<longleftrightarrow> \<not> ps_notReady s \<and> dp_select1 dp = Inr ()) \<and>
   ((\<exists>messages. checkConnections dp = Inr messages) \<longleftrightarrow> dp_select1 dp = Inr ())"
proof (intro conjI)
  show "documented_in live_path createLiveHandler"
    by (simp add: documented_in_def live_path_def createLiveHandler_def OK_def)
  have c: "conforms checks_schema (obj [(''postgres'', JBool a), (''redis'', JBool b), (''minio'', JBool m)])" for a b m
    by (simp add: checks_schema_def)
  show "documented_in ready_path (createReadyHandler s dp)"
    using c by (simp add: documented_in_def ready_path_def createReadyHandler_def OK_def SERVICE_UNAVAILABLE_def Let_def)
  show "rs_status (createReadyHandler s dp) = 200 \<longleftrightarrow> \<not> ps_notReady s \<and> dp_select1 dp = Inr ()"
    by (simp add: createReadyHandler_def OK_def SERVICE_UNAVAILABLE_def Let_def split: sum.split)
  show "(\<exists>messages. checkConnections dp = Inr messages) \<longleftrightarrow> dp_select1 dp = Inr ()"
    by (simp add: checkConnections_def checkPostgres_def split: sum.split)
qed

section \<open>Concrete shutdowns\<close>

definition two_settled :: "shutdown_event list" where
  "two_settled = [Signal ''SIGTERM'', Step_Settled True, Signal ''SIGINT'', Step_Settled False]"

lemma sample_shutdown:
  "\<exists>p. reaches server_steps step_effect (not_shutting_down running_process) p \<and>
     sh_started p = [''mark-not-ready'', ''close-http-server'', ''close-socket-io''] \<and> sh_exit p = None \<and>
     ps_closed (sh_process p) = [''close-http-server'', ''close-socket-io''] \<and> sh_failed p = [''close-http-server'']"
proof -
  have "\<exists>p. deliver server_steps step_effect two_settled (not_shutting_down running_process) = Some p \<and>
     sh_started p = [''mark-not-ready'', ''close-http-server'', ''close-socket-io''] \<and> sh_exit p = None \<and>
     ps_closed (sh_process p) = [''close-http-server'', ''close-socket-io''] \<and> sh_failed p = [''close-http-server'']"
    by (simp add: two_settled_def not_shutting_down_def running_process_def server_steps_def next_turn_def
        step_effect_def markShuttingDown_def)
  then show ?thesis using deliver_reaches [OF _ reaches.here] by blast
qed

theorem shutdown_in_order_witness:
  "\<exists>p k. reaches server_steps step_effect (not_shutting_down running_process) p \<and>
     sh_started p = take k server_steps \<and> length (sh_started p) = 3"
proof -
  obtain p where p: "reaches server_steps step_effect (not_shutting_down running_process) p"
    "sh_started p = [''mark-not-ready'', ''close-http-server'', ''close-socket-io'']" using sample_shutdown by blast
  have "\<exists>k. sh_started p = take k server_steps" using shutdown_in_order [OF p(1)] by blast
  moreover have "length (sh_started p) = 3" using p(2) by simp
  ultimately show ?thesis using p(1) by blast
qed

theorem shutdown_completes_witness:
  "\<exists>p. reaches worker_steps step_effect (not_shutting_down running_process) p \<and> sh_exit p = Some 0 \<and>
     sh_started p = worker_steps \<and> sh_failed p = [''close-bullmq-worker'']"
proof -
  let ?es = "[Step_Settled True, Signal ''SIGINT'', Step_Settled False, Step_Settled True, Step_Settled True,
    Step_Settled True, Step_Settled True, Step_Settled True]"
  have "Timer_Expired \<notin> set ?es" "length (outcomes ?es) = length worker_steps"
    by (simp_all add: worker_steps_def)
  from shutdown_completes [OF this, of step_effect "''SIGTERM''" running_process] show ?thesis
    by (auto simp: worker_steps_def)
qed

theorem closing_is_announced_witness:
  "\<exists>p. reaches server_steps step_effect (not_shutting_down running_process) p \<and> ps_closed (sh_process p) \<noteq> [] \<and>
     rs_status (createReadyHandler (sh_process p)
       \<lparr>dp_select1 = Inr (), dp_redisIsOpen = True, dp_redisConnect = Inr (), dp_redisPing = Inr (js ''PONG''),
        dp_bucketExists = Inr True\<rparr>) = 503"
proof -
  obtain p where p: "reaches server_steps step_effect (not_shutting_down running_process) p"
    "ps_closed (sh_process p) = [''close-http-server'', ''close-socket-io'']" using sample_shutdown by blast
  have "ps_closed running_process = []" by (simp add: running_process_def)
  from closing_is_announced [OF this] p show ?thesis by auto
qed

end
