(* ===== verification/Auth.thy ===== *)
theory Auth
  imports Openapi
begin

text \<open>
  Accounts: \<open>src/modules/auth\<close> (repository, service, validation, controller, routes and the
  documented paths) with \<open>src/shared/validation/validate.ts\<close>, on the table \<open>user\<close> of
  \<open>prisma/schema.prisma\<close>.

  No other part of the program uses the table, so the accounts have a world of their own:
  \<open>accounts\<close> is the table, the clock, and the schedule of what other requests insert and which
  calls fail before or after their effect.  bcrypt, jsonwebtoken, Zod's e-mail check and its
  default messages are the parameters in \<open>auth_library\<close>; \<open>bcrypt_ok\<close> is the documented contract
  of bcrypt: \<open>compare\<close> accepts a hash exactly for passwords with the same first 72 bytes.
\<close>

section \<open>State\<close>

record user_row =
  us_id :: jsstring
  us_name :: jsstring
  us_email :: jsstring
  us_password :: jsstring
  us_isActive :: bool
  us_createdAt :: int
  us_updatedAt :: int

record account_tick =
  at_registered :: "(jsstring \<times> jsstring \<times> jsstring) list"  \<comment> \<open>name, e-mail and password of others' rows\<close>
  at_fault :: fault

record accounts =
  ac_users :: "user_row list"
  ac_now :: int
  ac_schedule :: "account_tick list"

record auth_library =
  al_hash :: "jsstring \<Rightarrow> nat \<Rightarrow> exn + jsstring"    \<comment> \<open>\<open>bcrypt.hash(password, 10)\<close>; the salt is numbered\<close>
  al_compare :: "jsstring \<Rightarrow> jsstring \<Rightarrow> exn + bool"
  al_sign :: "json \<Rightarrow> int \<Rightarrow> exn + jsstring"          \<comment> \<open>\<open>jwt.sign\<close> with the secret, at a time\<close>
  al_uuid :: "nat \<Rightarrow> jsstring"
  al_isEmail :: "jsstring \<Rightarrow> bool"
  al_message :: "string \<Rightarrow> json option \<Rightarrow> string"   \<comment> \<open>Zod's default message for a key and its value\<close>

text \<open>The \<open>@unique\<close> e-mail, and the defaults of the schema.\<close>

definition insert_user :: "auth_library \<Rightarrow> jsstring \<Rightarrow> jsstring \<Rightarrow> jsstring \<Rightarrow> accounts \<Rightarrow> (exn + user_row) \<times> accounts" where
  "insert_user lib name email password a =
     (if email \<in> us_email ` set (ac_users a) then (Inl (PrismaKnown ''P2002''), a)
      else let u = \<lparr>us_id = al_uuid lib (length (ac_users a)), us_name = name, us_email = email,
                    us_password = password, us_isActive = True, us_createdAt = ac_now a,
                    us_updatedAt = ac_now a\<rparr>
           in (Inr u, a\<lparr>ac_users := ac_users a @ [u]\<rparr>))"

definition account_call ::
  "auth_library \<Rightarrow> (accounts \<Rightarrow> (exn + 'a) \<times> accounts) \<Rightarrow> (accounts, exn, 'a) io" where
  "account_call lib f a =
     (case ac_schedule a of
        [] \<Rightarrow> f a
      | t # ts \<Rightarrow>
          (let a' = fold (\<lambda>(n, e, p) b. snd (insert_user lib n e p b)) (at_registered t) (a\<lparr>ac_schedule := ts\<rparr>)
           in case at_fault t of
                No_Fault \<Rightarrow> f a'
              | Fail_Before err \<Rightarrow> (Inl err, a')
              | Fail_After err \<Rightarrow> (Inl err, snd (f a'))))"

section \<open>auth.repository.ts\<close>

definition findByEmail :: "auth_library \<Rightarrow> jsstring \<Rightarrow> (accounts, exn, user_row option) io" where
  "findByEmail lib email = account_call lib (\<lambda>a. (Inr (find (\<lambda>u. us_email u = email) (ac_users a)), a))"

definition createUser ::
  "auth_library \<Rightarrow> jsstring \<Rightarrow> jsstring \<Rightarrow> jsstring \<Rightarrow> (accounts, exn, user_row) io" where
  "createUser lib name email password = account_call lib (insert_user lib name email password)"

section \<open>auth.validation.ts and validate.ts\<close>

record register_input =
  ri_name :: jsstring
  ri_email :: jsstring
  ri_password :: jsstring

record login_input =
  li_email :: jsstring
  li_password :: jsstring

text \<open>A property of the body, and one field of a schema: its value or its message.\<close>

definition body_field :: "json \<Rightarrow> string \<Rightarrow> json option" where
  "body_field body k = (case body of JObj ps \<Rightarrow> map_of ps (js k) | _ \<Rightarrow> None)"

definition min_text :: "auth_library \<Rightarrow> string \<Rightarrow> nat \<Rightarrow> string \<Rightarrow> json option \<Rightarrow> string + jsstring" where
  "min_text lib key n message v =
     (case v of
        Some (JStr s) \<Rightarrow> if length s < n then Inl message else Inr s
      | _ \<Rightarrow> Inl (al_message lib key v))"

definition email_text :: "auth_library \<Rightarrow> json option \<Rightarrow> string + jsstring" where
  "email_text lib v =
     (case v of
        Some (JStr s) \<Rightarrow> if al_isEmail lib s then Inr s else Inl (al_message lib ''email'' v)
      | _ \<Rightarrow> Inl (al_message lib ''email'' v))"

definition field_error :: "string \<Rightarrow> string + 'a \<Rightarrow> (string \<times> json) list" where
  "field_error key r = (case r of Inl m \<Rightarrow> [(key, JArr [chars m])] | Inr _ \<Rightarrow> [])"

text \<open>\<open>safeParse\<close>: the errors by field (\<open>flatten().fieldErrors\<close>), or the parsed input; a body that
  is no object has no field errors.\<close>

definition registerSchema :: "auth_library \<Rightarrow> json \<Rightarrow> json + register_input" where
  "registerSchema lib body =
     (case body of
        JObj _ \<Rightarrow>
          (let n = min_text lib ''name'' 1 ''Name is required'' (body_field body ''name'');
               e = email_text lib (body_field body ''email'');
               p = min_text lib ''password'' 8 ''Password must be at least 8 characters'' (body_field body ''password'')
           in case (n, e, p) of
                (Inr n', Inr e', Inr p') \<Rightarrow> Inr \<lparr>ri_name = n', ri_email = e', ri_password = p'\<rparr>
              | _ \<Rightarrow> Inl (obj (field_error ''name'' n @ field_error ''email'' e @ field_error ''password'' p)))
      | _ \<Rightarrow> Inl (obj []))"

definition loginSchema :: "auth_library \<Rightarrow> json \<Rightarrow> json + login_input" where
  "loginSchema lib body =
     (case body of
        JObj _ \<Rightarrow>
          (let e = email_text lib (body_field body ''email'');
               p = min_text lib ''password'' 1 ''Password is required'' (body_field body ''password'')
           in case (e, p) of
                (Inr e', Inr p') \<Rightarrow> Inr \<lparr>li_email = e', li_password = p'\<rparr>
              | _ \<Rightarrow> Inl (obj (field_error ''email'' e @ field_error ''password'' p)))
      | _ \<Rightarrow> Inl (obj []))"

definition validate :: "(json \<Rightarrow> json + 'a) \<Rightarrow> json \<Rightarrow> 'a middleware" where
  "validate safeParse body =
     (case safeParse body of
        Inl errors \<Rightarrow>
          Answer \<lparr>rs_status = BAD_REQUEST,
                  rs_body = obj [(''message'', chars BAD_REQUEST_MESSAGE), (''errors'', errors)]\<rparr>
      | Inr data \<Rightarrow> Pass data)"

section \<open>auth.service.ts\<close>

definition user_claims :: "user_row \<Rightarrow> json" where
  "user_claims u = obj [(''id'', JStr (us_id u)), (''email'', JStr (us_email u))]"

definition signToken :: "auth_library \<Rightarrow> user_row \<Rightarrow> (accounts, exn, json) io" where
  "signToken lib u =
     bind_io (read_io ac_now) (\<lambda>now.
     bind_io (lift_io (al_sign lib (user_claims u) now)) (\<lambda>token.
       return_io (obj [(''token'', JStr token), (''user'', user_claims u)])))"

text \<open>\<open>salt\<close> numbers the salt \<open>bcrypt.hash\<close> draws.\<close>

definition register :: "auth_library \<Rightarrow> nat \<Rightarrow> register_input \<Rightarrow> (accounts, exn, json) io" where
  "register lib salt input =
     bind_io (findByEmail lib (ri_email input)) (\<lambda>existing.
       if existing \<noteq> None then throw_io (ApiError CONFLICT ''Email is already registered'')
       else bind_io (lift_io (al_hash lib (ri_password input) salt)) (\<lambda>hashedPassword.
            bind_io (createUser lib (ri_name input) (ri_email input) hashedPassword) (\<lambda>user.
              signToken lib user)))"

definition login :: "auth_library \<Rightarrow> login_input \<Rightarrow> (accounts, exn, json) io" where
  "login lib input =
     bind_io (findByEmail lib (li_email input)) (\<lambda>found.
       case found of
         None \<Rightarrow> throw_io (ApiError UNAUTHORIZED ''Invalid email or password'')
       | Some user \<Rightarrow>
           bind_io (lift_io (al_compare lib (li_password input) (us_password user))) (\<lambda>isValidPassword.
             if \<not> isValidPassword then throw_io (ApiError UNAUTHORIZED ''Invalid email or password'')
             else signToken lib user))"

section \<open>auth.controller.ts and auth.routes.ts\<close>

definition enveloped :: "string \<Rightarrow> (accounts, exn, json) io \<Rightarrow> (accounts, exn, response) io" where
  "enveloped msg m =
     catch_io (bind_io m (\<lambda>result.
         return_io \<lparr>rs_status = OK, rs_body = ResponseJSON msg OK False (Some result)\<rparr>))
       (\<lambda>err. return_io (handleControllerError err))"

definition post_register :: "auth_library \<Rightarrow> nat \<Rightarrow> json \<Rightarrow> (accounts, exn, response) io" where
  "post_register lib salt body =
     (case validate (registerSchema lib) body of
        Answer r \<Rightarrow> return_io r
      | Pass input \<Rightarrow> enveloped ''Registered successfully'' (register lib salt input))"

definition post_login :: "auth_library \<Rightarrow> json \<Rightarrow> (accounts, exn, response) io" where
  "post_login lib body =
     (case validate (loginSchema lib) body of
        Answer r \<Rightarrow> return_io r
      | Pass input \<Rightarrow> enveloped ''Logged in successfully'' (login lib input))"

definition get_me :: "(jsstring \<Rightarrow> exn + json) \<Rightarrow> jsstring option \<Rightarrow> (accounts, exn, response) io" where
  "get_me verify authHeader =
     (case authenticate verify authHeader of
        Answer r \<Rightarrow> return_io r
      | Pass user \<Rightarrow> return_io \<lparr>rs_status = OK, rs_body = ResponseJSON ''Current user'' OK False (Some user)\<rparr>)"

section \<open>Accounts grow\<close>

text \<open>bcrypt reads 72 bytes of a password.\<close>

definition bcrypt_key :: "jsstring \<Rightarrow> bytes" where
  "bcrypt_key password = take 72 (utf8_encode password)"

definition bcrypt_ok :: "auth_library \<Rightarrow> bool" where
  "bcrypt_ok lib \<longleftrightarrow>
     (\<forall>p n h q. al_hash lib p n = Inr h \<longrightarrow> al_compare lib q h = Inr (bcrypt_key q = bcrypt_key p))"

text \<open>E-mails are unique and every stored password is a hash.\<close>

definition is_hash :: "auth_library \<Rightarrow> jsstring \<Rightarrow> bool" where
  "is_hash lib h \<longleftrightarrow> (\<exists>p n. al_hash lib p n = Inr h)"

definition accounts_ok :: "auth_library \<Rightarrow> accounts \<Rightarrow> bool" where
  "accounts_ok lib a \<longleftrightarrow>
     distinct (map us_email (ac_users a)) \<and> list_all (\<lambda>u. is_hash lib (us_password u)) (ac_users a) \<and>
     list_all (\<lambda>t. list_all (\<lambda>(n, e, p). is_hash lib p) (at_registered t)) (ac_schedule a)"

text \<open>The account of an e-mail, once there, stays as it is.\<close>

definition account_of :: "jsstring \<Rightarrow> accounts \<Rightarrow> user_row option" where
  "account_of email a = find (\<lambda>u. us_email u = email) (ac_users a)"

lemma insert_user_ok: "accounts_ok lib a \<Longrightarrow> is_hash lib p \<Longrightarrow> accounts_ok lib (snd (insert_user lib n e p a))"
  by (auto simp: insert_user_def accounts_ok_def Let_def)

lemma insert_user_account: "account_of e a = Some u \<Longrightarrow> account_of e (snd (insert_user lib n e' p a)) = Some u"
  by (auto simp: insert_user_def account_of_def Let_def find_append)

lemma insert_user_new: "insert_user lib n e p a = (Inr u, a') \<Longrightarrow>
    account_of e a' = Some u \<and> us_password u = p \<and> us_email u = e"
  by (auto simp: insert_user_def account_of_def Let_def find_append find_None_all split: if_splits option.split
      dest!: find_Some_set)

text \<open>An assertion on accounts that every insertion of a hash keeps is kept by the calls.\<close>

locale account_assertion =
  fixes lib :: auth_library and P :: "accounts \<Rightarrow> bool"
  assumes insert_keeps: "P a \<Longrightarrow> accounts_ok lib a \<Longrightarrow> is_hash lib p \<Longrightarrow> P (snd (insert_user lib n e p a))"
    and schedule_free: "P a \<Longrightarrow> P (a\<lparr>ac_schedule := ts\<rparr>)"
begin

definition both :: "accounts \<Rightarrow> bool" where
  "both a \<longleftrightarrow> accounts_ok lib a \<and> P a"

lemma both_insert: "both a \<Longrightarrow> is_hash lib p \<Longrightarrow> both (snd (insert_user lib n e p a))"
  by (simp add: both_def insert_user_ok insert_keeps)

lemma both_others:
  "both a \<Longrightarrow> list_all (\<lambda>(n, e, p). is_hash lib p) rows \<Longrightarrow>
   both (fold (\<lambda>(n, e, p) b. snd (insert_user lib n e p b)) rows a)"
  by (induction rows arbitrary: a) (auto simp: both_insert)

lemma both_call:
  assumes "both a" "account_call lib f a = (r, a')" "\<And>b. both b \<Longrightarrow> both (snd (f b))"
  shows "both a' \<and> (\<forall>x. r = Inr x \<longrightarrow> (\<exists>b. both b \<and> f b = (Inr x, a')))"
proof (cases "ac_schedule a")
  case Nil
  with assms have "f a = (r, a')" by (simp add: account_call_def)
  with assms(1) assms(3) [OF assms(1)] show ?thesis by auto
next
  case (Cons t ts)
  let ?b = "fold (\<lambda>(n, e, p) b. snd (insert_user lib n e p b)) (at_registered t) (a\<lparr>ac_schedule := ts\<rparr>)"
  have "accounts_ok lib (a\<lparr>ac_schedule := ts\<rparr>)" "list_all (\<lambda>(n, e, p). is_hash lib p) (at_registered t)"
    using assms(1) Cons by (simp_all add: both_def accounts_ok_def)
  moreover have "P (a\<lparr>ac_schedule := ts\<rparr>)" using assms(1) by (simp add: both_def schedule_free)
  ultimately have b: "both ?b" by (intro both_others) (simp_all add: both_def)
  from assms(2) Cons have "(case at_fault t of No_Fault \<Rightarrow> f ?b | Fail_Before err \<Rightarrow> (Inl err, ?b)
      | Fail_After err \<Rightarrow> (Inl err, snd (f ?b))) = (r, a')"
    by (simp add: account_call_def Let_def)
  with b assms(3) [OF b] show ?thesis by (auto split: fault.splits)
qed

lemma both_register:
  assumes "both a" "register lib salt input a = (r, a')"
  shows "both a'"
proof -
  obtain r1 a1 where f: "findByEmail lib (ri_email input) a = (r1, a1)" by (metis surj_pair)
  have a1: "both a1" using both_call [OF assms(1) f [unfolded findByEmail_def]] by simp
  show ?thesis
  proof (cases "r1 = Inr None \<and> (\<exists>h. al_hash lib (ri_password input) salt = Inr h)")
    case True
    then obtain h where h: "r1 = Inr None" "al_hash lib (ri_password input) salt = Inr h" by blast
    then have hash: "is_hash lib h" by (auto simp: is_hash_def)
    obtain r2 a2 where c: "createUser lib (ri_name input) (ri_email input) h a1 = (r2, a2)" by (metis surj_pair)
    have "both a2" using both_call [OF a1 c [unfolded createUser_def]] both_insert [OF _ hash] by simp
    with assms(2) f h c show ?thesis
      by (auto simp: register_def bind_io_apply signToken_def split: sum.splits)
  next
    case False
    with assms(2) f a1 show ?thesis
      by (cases "al_hash lib (ri_password input) salt")
        (auto simp: register_def bind_io_apply split: sum.splits option.splits if_splits)
  qed
qed

lemma both_login:
  assumes "both a" "login lib input a = (r, a')"
  shows "both a'"
proof -
  obtain r1 a1 where f: "findByEmail lib (li_email input) a = (r1, a1)" by (metis surj_pair)
  have a1: "both a1" using both_call [OF assms(1) f [unfolded findByEmail_def]] by simp
  with assms(2) f show ?thesis
    by (auto simp: login_def bind_io_apply signToken_def split: sum.splits option.splits if_splits)
qed

end

interpretation anything: account_assertion lib "\<lambda>a. True" for lib
  by unfold_locales simp_all

interpretation account: account_assertion lib "\<lambda>a. account_of e a = Some u" for lib e u
  by unfold_locales (simp_all add: insert_user_account, simp add: account_of_def)

lemma findByEmail_account:
  assumes "account.both lib e u a" "findByEmail lib e a = (r, a')"
  shows "account.both lib e u a' \<and> (\<forall>x. r = Inr x \<longrightarrow> x = Some u)"
proof -
  from account.both_call [OF assms(1) assms(2) [unfolded findByEmail_def]]
  have "account.both lib e u a' \<and> (\<forall>x. r = Inr x \<longrightarrow> (\<exists>b. account.both lib e u b \<and>
      (Inr (find (\<lambda>v. us_email v = e) (ac_users b)), b) = (Inr x, a')))" by simp
  moreover have "find (\<lambda>v. us_email v = e) (ac_users b) = Some u" if "account.both lib e u b" for b
    using that unfolding account.both_def by (simp add: account_of_def)
  ultimately show ?thesis by auto
qed

lemma call_returns:
  assumes "\<And>b. \<exists>x. fst (f b) = Inr x" "list_all (\<lambda>t. at_fault t = No_Fault) (ac_schedule a)"
  shows "\<exists>x. fst (account_call lib f a) = Inr x"
  using assms by (auto simp: account_call_def Let_def split: list.split)

lemma register_account:
  assumes "accounts_ok lib a" "register lib salt input a = (Inr v, a1)"
  obtains u token h where "v = obj [(''token'', JStr token), (''user'', user_claims u)]"
    "al_hash lib (ri_password input) salt = Inr h" "us_password u = h" "us_email u = ri_email input"
    "account.both lib (ri_email input) u a1"
proof -
  have a: "anything.both lib a" using assms(1) by (simp add: anything.both_def)
  from assms(2) obtain x b1 where f: "findByEmail lib (ri_email input) a = (Inr x, b1)"
    and "(if x \<noteq> None then throw_io (ApiError CONFLICT ''Email is already registered'')
       else bind_io (lift_io (al_hash lib (ri_password input) salt)) (\<lambda>hashedPassword.
            bind_io (createUser lib (ri_name input) (ri_email input) hashedPassword) (\<lambda>user.
              signToken lib user))) b1 = (Inr v, a1)"
    unfolding register_def by (rule bind_io_InrE)
  then obtain h u b2 where h: "al_hash lib (ri_password input) salt = Inr h"
    and c: "createUser lib (ri_name input) (ri_email input) h b1 = (Inr u, b2)"
    and s: "signToken lib u b2 = (Inr v, a1)"
    by (auto split: if_splits elim!: bind_io_InrE)
  have b1: "anything.both lib b1" using anything.both_call [OF a f [unfolded findByEmail_def]] by simp
  have hash: "is_hash lib h" using h by (auto simp: is_hash_def)
  have "anything.both lib b2 \<and> (\<forall>x. (Inr u :: exn + user_row) = Inr x \<longrightarrow> (\<exists>b. anything.both lib b \<and>
      insert_user lib (ri_name input) (ri_email input) h b = (Inr x, b2)))"
    by (rule anything.both_call [OF b1 c [unfolded createUser_def]]) (rule anything.both_insert [OF _ hash])
  then obtain b where "anything.both lib b2" "insert_user lib (ri_name input) (ri_email input) h b = (Inr u, b2)"
    by blast
  then have u: "account.both lib (ri_email input) u b2" "us_password u = h" "us_email u = ri_email input"
    using insert_user_new by (auto simp: account.both_def anything.both_def)
  from s obtain token where "v = obj [(''token'', JStr token), (''user'', user_claims u)]" "a1 = b2"
    by (auto simp: signToken_def elim!: bind_io_InrE)
  with that h u show thesis by blast
qed

section \<open>Properties\<close>

text \<open>C20. E-mails stay unique and only hashes of passwords are stored, through every registration
  and login, with other registrations in between and calls that fail before or after their
  effect.\<close>

theorem accounts_stay_sound:
  assumes "accounts_ok lib a"
  shows "accounts_ok lib (snd (post_register lib salt body a)) \<and> accounts_ok lib (snd (post_login lib body a))"
proof -
  have a: "anything.both lib a" using assms by (simp add: anything.both_def)
  have e: "accounts_ok lib (snd (enveloped msg m a))" if "accounts_ok lib (snd (m a))" for msg m
    using that by (auto simp: enveloped_def catch_io_apply bind_io_apply split: prod.splits sum.splits)
  have "accounts_ok lib (snd (register lib salt input a))" for input
    using anything.both_register [OF a] by (metis anything.both_def surjective_pairing)
  moreover have "accounts_ok lib (snd (login lib input a))" for input
    using anything.both_login [OF a] by (metis anything.both_def surjective_pairing)
  ultimately show ?thesis
    using assms e by (auto simp: post_register_def post_login_def split: middleware.split)
qed

text \<open>C16. Who has registered can log in: with the same password, up to the 72 bytes that bcrypt
  reads, the answer is a token for the same account, and with any other password the request
  is refused, whatever else is registered in between.\<close>

theorem register_then_login:
  assumes "accounts_ok lib a" "bcrypt_ok lib" "register lib salt input a = (Inr v, a1)"
    and "list_all (\<lambda>t. at_fault t = No_Fault) (ac_schedule a1)" "\<And>c t. \<exists>token. al_sign lib c t = Inr token"
  shows "\<exists>u token. v = obj [(''token'', JStr token), (''user'', user_claims u)] \<and> us_email u = ri_email input \<and>
    (\<exists>token'. fst (login lib \<lparr>li_email = ri_email input, li_password = q\<rparr> a1) =
      (if bcrypt_key q = bcrypt_key (ri_password input)
       then Inr (obj [(''token'', JStr token'), (''user'', user_claims u)])
       else Inl (ApiError 401 ''Invalid email or password'')))"
proof -
  obtain u token h where u: "v = obj [(''token'', JStr token), (''user'', user_claims u)]"
    "al_hash lib (ri_password input) salt = Inr h" "us_password u = h" "us_email u = ri_email input"
    "account.both lib (ri_email input) u a1" by (rule register_account [OF assms(1,3)])
  have "\<exists>x. fst (findByEmail lib (ri_email input) a1) = Inr x"
    unfolding findByEmail_def by (rule call_returns) (simp_all add: assms(4))
  then obtain x a2 where f: "findByEmail lib (ri_email input) a1 = (Inr x, a2)" by (metis prod.collapse)
  with findByEmail_account [OF u(5)] have x: "x = Some u" by blast
  have "al_compare lib q (us_password u) = Inr (bcrypt_key q = bcrypt_key (ri_password input))"
    using assms(2) u(2,3) by (auto simp: bcrypt_ok_def)
  moreover obtain token' where "al_sign lib (user_claims u) (ac_now a2) = Inr token'" using assms(5) by blast
  ultimately have "fst (login lib \<lparr>li_email = ri_email input, li_password = q\<rparr> a1) =
      (if bcrypt_key q = bcrypt_key (ri_password input)
       then Inr (obj [(''token'', JStr token'), (''user'', user_claims u)])
       else Inl (ApiError 401 ''Invalid email or password''))"
    using f x by (simp add: login_def bind_io_apply signToken_def UNAUTHORIZED_def)
  with u(1,4) show ?thesis by blast
qed

text \<open>C21. A failed login does not tell whether the e-mail is registered: an unknown e-mail and a
  wrong password get the same answer, and change nothing.\<close>

theorem login_reveals_nothing:
  assumes "loginSchema lib body = Inr input" "ac_schedule a = []" "ac_schedule b = []"
    and "account_of (li_email input) a = None"
    and "account_of (li_email input) b = Some u" "al_compare lib (li_password input) (us_password u) = Inr False"
  shows "\<exists>r. rs_status r = 401 \<and> post_login lib body a = (Inr r, a) \<and> post_login lib body b = (Inr r, b)"
  using assms
  by (simp add: post_login_def validate_def enveloped_def login_def findByEmail_def account_call_def
      account_of_def bind_io_apply catch_io_apply UNAUTHORIZED_def)

text \<open>Two registrations with one e-mail at the same time: the second one finds the e-mail free and
  fails on the unique key, which the client sees as a 500 instead of the 409 of the contract.\<close>

theorem register_race:
  assumes "registerSchema lib body = Inr input" "al_hash lib (ri_password input) salt = Inr h"
    and "account_of (ri_email input) a = None"
    and "ac_schedule a = [\<lparr>at_registered = [], at_fault = No_Fault\<rparr>,
      \<lparr>at_registered = [(n, ri_email input, p)], at_fault = No_Fault\<rparr>]"
  shows "\<exists>r a'. post_register lib salt body a = (Inr r, a') \<and> rs_status r = 500"
proof -
  have "ri_email input \<notin> us_email ` set (ac_users a)"
    using assms(3) by (auto simp: account_of_def find_None_all)
  with assms show ?thesis
    by (auto simp: post_register_def validate_def enveloped_def register_def findByEmail_def createUser_def
        account_call_def account_of_def bind_io_apply catch_io_apply insert_user_def Let_def INTERNAL_SERVER_def)
qed

section \<open>The documented paths\<close>

text \<open>\<open>schema\<close> has no e-mail format: the bodies document the property as a string.\<close>

definition register_path :: path_item where
  "register_path =
     \<lparr>pi_method = ''post'', pi_path = ''/api/auth/register'', pi_tag = ''Auth'', pi_secured = False,
      pi_headers = None, pi_params = None, pi_query = None,
      pi_body = Some (as_json (Z_Object
        [(''name'', Z_Min 1), (''email'', Z_String), (''password'', Z_Min 8)])),
      pi_responses = [(200, as_json (Z_Object [])), (400, as_json (Z_Object [])), (409, as_json (Z_Object []))]\<rparr>"

definition login_path :: path_item where
  "login_path =
     \<lparr>pi_method = ''post'', pi_path = ''/api/auth/login'', pi_tag = ''Auth'', pi_secured = False,
      pi_headers = None, pi_params = None, pi_query = None,
      pi_body = Some (as_json (Z_Object [(''email'', Z_String), (''password'', Z_Min 1)])),
      pi_responses = [(200, as_json (Z_Object [])), (400, as_json (Z_Object [])), (401, as_json (Z_Object []))]\<rparr>"

definition me_path :: path_item where
  "me_path =
     \<lparr>pi_method = ''get'', pi_path = ''/api/auth/me'', pi_tag = ''Auth'', pi_secured = True,
      pi_headers = None, pi_params = None, pi_query = None, pi_body = None,
      pi_responses = [(200, as_json (Z_Object [])), (401, as_json (Z_Object []))]\<rparr>"

text \<open>An error is an \<open>ApiError\<close> of these statuses or of another class.\<close>

fun api_in :: "nat set \<Rightarrow> exn \<Rightarrow> bool" where
  "api_in S (ApiError status message) \<longleftrightarrow> status \<in> S"
| "api_in S _ \<longleftrightarrow> True"

text \<open>The failures from outside are no \<open>ApiError\<close>s: those of the schedule, and those of the libraries.\<close>

definition no_api :: "fault \<Rightarrow> bool" where
  "no_api f = (case f of No_Fault \<Rightarrow> True | Fail_Before e \<Rightarrow> api_in {} e | Fail_After e \<Rightarrow> api_in {} e)"

definition library_plain :: "auth_library \<Rightarrow> bool" where
  "library_plain lib \<longleftrightarrow>
     (\<forall>p n e. al_hash lib p n = Inl e \<longrightarrow> api_in {} e) \<and> (\<forall>p h e. al_compare lib p h = Inl e \<longrightarrow> api_in {} e) \<and>
     (\<forall>c t e. al_sign lib c t = Inl e \<longrightarrow> api_in {} e)"

definition calm :: "accounts \<Rightarrow> bool" where
  "calm a \<longleftrightarrow> list_all (\<lambda>t. no_api (at_fault t)) (ac_schedule a)"

definition fails_with :: "nat set \<Rightarrow> (accounts, exn, 'a) io \<Rightarrow> bool" where
  "fails_with S m \<longleftrightarrow> triple calm m (\<lambda>_. calm) (\<lambda>e a. calm a \<and> api_in S e)"

lemma api_in_mono: "api_in S e \<Longrightarrow> S \<subseteq> T \<Longrightarrow> api_in T e"
  by (cases e) auto

lemma fails_bind: "fails_with S m \<Longrightarrow> (\<And>x. fails_with S (k x)) \<Longrightarrow> fails_with S (bind_io m k)"
  unfolding fails_with_def by (rule triple_bind)

lemma fails_basic:
  "fails_with S (return_io x)" "fails_with S (read_io f)" "api_in S e \<Longrightarrow> fails_with S (throw_io e)"
  by (simp_all add: fails_with_def triple_def)

lemma fails_lift: "(\<And>e. r = Inl e \<Longrightarrow> api_in {} e) \<Longrightarrow> fails_with S (lift_io r)"
  by (auto simp: fails_with_def triple_def intro: api_in_mono [of "{}"] split: sum.split)

lemma insert_user_schedule: "ac_schedule (snd (insert_user lib n e p a)) = ac_schedule a"
  by (simp add: insert_user_def Let_def)

lemma others_schedule:
  "ac_schedule (fold (\<lambda>(n, e, p) b. snd (insert_user lib n e p b)) rows a) = ac_schedule a"
  by (induction rows arbitrary: a) (auto simp: insert_user_schedule)

lemma fails_call:
  assumes "\<And>a. ac_schedule (snd (f a)) = ac_schedule a" "\<And>a e. fst (f a) = Inl e \<Longrightarrow> api_in S e"
  shows "fails_with S (account_call lib f)"
  unfolding fails_with_def
proof (rule tripleI)
  have c: "calm (snd (account_call lib f a)) \<and> (\<forall>e. fst (account_call lib f a) = Inl e \<longrightarrow> api_in S e)" if "calm a" for a
    using that assms
    by (auto simp: account_call_def Let_def calm_def others_schedule no_api_def intro: api_in_mono [of "{}"]
        split: list.split fault.splits)
  show "calm w'" if "calm w" "account_call lib f w = (Inr x, w')" for w x w' using c [OF that(1)] that(2) by simp
  show "calm w' \<and> api_in S e" if "calm w" "account_call lib f w = (Inl e, w')" for w e w'
    using c [OF that(1)] that(2) by simp
qed

lemma fails_steps:
  "fails_with S (findByEmail lib e)" "fails_with S (createUser lib n e p)"
  "library_plain lib \<Longrightarrow> fails_with S (signToken lib u)"
  unfolding findByEmail_def createUser_def signToken_def
  by (intro fails_call fails_bind fails_basic fails_lift;
      auto simp: insert_user_def Let_def library_plain_def split: if_splits)+

lemma fails_register: "library_plain lib \<Longrightarrow> fails_with {CONFLICT} (register lib salt input)"
  unfolding register_def
  by (intro fails_bind fails_steps) (auto intro!: fails_bind fails_steps fails_basic fails_lift simp: library_plain_def)

lemma fails_login: "library_plain lib \<Longrightarrow> fails_with {UNAUTHORIZED} (login lib input)"
  unfolding login_def
  by (intro fails_bind fails_steps)
    (auto intro!: fails_bind fails_steps fails_basic fails_lift simp: library_plain_def split: option.split)

lemma conforms_any_object [simp]: "conforms (Z_Object []) (obj ps)"
  by simp

lemma enveloped_documented:
  assumes "fails_with S m" "calm a" "enveloped msg m a = (Inr r, a')"
    and "\<And>status ps. status \<in> insert OK S \<Longrightarrow> documented_in p \<lparr>rs_status = status, rs_body = obj ps\<rparr>"
  shows "documented_in p r \<or> rs_status r = 500"
proof (cases "m a" rule: prod.exhaust)
  case (Pair x a1)
  show ?thesis
  proof (cases x)
    case (Inl e)
    with Pair assms(1,2) have "api_in S e" by (auto simp: fails_with_def dest: triple_InlD)
    with Pair Inl assms(3,4) show ?thesis
      by (cases e) (auto simp: enveloped_def bind_io_apply catch_io_apply INTERNAL_SERVER_def ResponseJSON_def)
  next
    case (Inr y)
    with Pair assms(3,4) show ?thesis
      by (auto simp: enveloped_def bind_io_apply catch_io_apply ResponseJSON_def)
  qed
qed

text \<open>C22. Every answer of the auth endpoints has a status and a shape that \<open>auth.openapi.ts\<close>
  documents for the endpoint, or is a 500, for every body, header and schedule.\<close>

theorem auth_as_documented:
  assumes "library_plain lib" "calm a"
  shows "(\<exists>r a'. post_register lib salt body a = (Inr r, a') \<and> (documented_in register_path r \<or> rs_status r = 500)) \<and>
    (\<exists>r a'. post_login lib body a = (Inr r, a') \<and> (documented_in login_path r \<or> rs_status r = 500)) \<and>
    (\<exists>r. get_me verify authHeader a = (Inr r, a) \<and> documented_in me_path r)"
proof (intro conjI)
  have ret: "\<exists>r a'. enveloped msg m a = (Inr r, a')" for msg m
    by (simp add: enveloped_def catch_io_apply bind_io_apply split: prod.splits sum.splits)
  show "\<exists>r a'. post_register lib salt body a = (Inr r, a') \<and> (documented_in register_path r \<or> rs_status r = 500)"
  proof (cases "validate (registerSchema lib) body")
    case (Answer r)
    then show ?thesis
      by (auto simp: post_register_def validate_def documented_in_def register_path_def BAD_REQUEST_def split: sum.splits)
  next
    case (Pass input)
    obtain r a' where r: "enveloped ''Registered successfully'' (register lib salt input) a = (Inr r, a')"
      using ret by blast
    have "documented_in register_path r \<or> rs_status r = 500"
      by (rule enveloped_documented [OF fails_register [OF assms(1)] assms(2) r])
        (auto simp: documented_in_def register_path_def OK_def CONFLICT_def)
    with r Pass show ?thesis by (simp add: post_register_def)
  qed
  show "\<exists>r a'. post_login lib body a = (Inr r, a') \<and> (documented_in login_path r \<or> rs_status r = 500)"
  proof (cases "validate (loginSchema lib) body")
    case (Answer r)
    then show ?thesis
      by (auto simp: post_login_def validate_def documented_in_def login_path_def BAD_REQUEST_def split: sum.splits)
  next
    case (Pass input)
    obtain r a' where r: "enveloped ''Logged in successfully'' (login lib input) a = (Inr r, a')"
      using ret by blast
    have "documented_in login_path r \<or> rs_status r = 500"
      by (rule enveloped_documented [OF fails_login [OF assms(1)] assms(2) r])
        (auto simp: documented_in_def login_path_def OK_def UNAUTHORIZED_def)
    with r Pass show ?thesis by (simp add: post_login_def)
  qed
  show "\<exists>r. get_me verify authHeader a = (Inr r, a) \<and> documented_in me_path r"
    by (auto simp: get_me_def authenticate_def unauthorized_def documented_in_def me_path_def OK_def UNAUTHORIZED_def
        ResponseJSON_def split: option.split sum.split)
qed

section \<open>A concrete library\<close>

definition plain_library :: auth_library where
  "plain_library =
     \<lparr>al_hash = (\<lambda>p n. Inr (map ucast (bcrypt_key p))), al_compare = (\<lambda>q h. Inr (map ucast (bcrypt_key q) = h)),
      al_sign = (\<lambda>claims now. Inr (js ''token'')), al_uuid = (\<lambda>n. decimal (int n)), al_isEmail = (\<lambda>s. 64 \<in> set s),
      al_message = (\<lambda>key v. ''Invalid input'')\<rparr>"

definition no_accounts :: accounts where
  "no_accounts = \<lparr>ac_users = [], ac_now = 0, ac_schedule = []\<rparr>"

definition jane :: user_row where
  "jane = \<lparr>us_id = js ''0'', us_name = js ''Jane'', us_email = js ''j@x'', us_password = map ucast (bcrypt_key (js ''password1'')),
     us_isActive = True, us_createdAt = 0, us_updatedAt = 0\<rparr>"

definition jane_input :: register_input where
  "jane_input = \<lparr>ri_name = js ''Jane'', ri_email = js ''j@x'', ri_password = js ''password1''\<rparr>"

lemma widen_inject: "map (ucast :: 8 word \<Rightarrow> 16 word) xs = map ucast ys \<longleftrightarrow> xs = ys"
proof -
  have "inj (ucast :: 8 word \<Rightarrow> 16 word)"
  proof (rule inj_on_inverseI)
    show "(ucast (ucast x :: 16 word) :: 8 word) = x" for x
      by (rule ucast_up_ucast_id) (simp add: is_up)
  qed
  then show ?thesis by (rule inj_map_eq_map)
qed

lemma plain_library_ok: "bcrypt_ok plain_library" "library_plain plain_library"
  by (auto simp: bcrypt_ok_def library_plain_def plain_library_def widen_inject)

lemma jane_registered:
  "register plain_library 0 jane_input no_accounts =
     (Inr (obj [(''token'', JStr (js ''token'')), (''user'', user_claims jane)]), no_accounts\<lparr>ac_users := [jane]\<rparr>)"
  by (simp add: register_def findByEmail_def createUser_def account_call_def insert_user_def signToken_def
      bind_io_apply plain_library_def no_accounts_def jane_def jane_input_def decimal_0 user_claims_def js_simps
      Let_def)

theorem accounts_stay_sound_witness:
  "accounts_ok plain_library (snd (post_register plain_library 0
      (obj [(''name'', chars ''Jane''), (''email'', chars ''j@x''), (''password'', chars ''password1'')]) no_accounts))"
  using accounts_stay_sound [of plain_library no_accounts] by (simp add: accounts_ok_def no_accounts_def)

theorem register_then_login_witness:
  "\<exists>token. fst (login plain_library \<lparr>li_email = js ''j@x'', li_password = js ''password1''\<rparr>
      (no_accounts\<lparr>ac_users := [jane]\<rparr>)) = Inr (obj [(''token'', JStr token), (''user'', user_claims jane)])"
proof -
  have a: "accounts_ok plain_library no_accounts" by (simp add: accounts_ok_def no_accounts_def)
  have f: "list_all (\<lambda>t. at_fault t = No_Fault) (ac_schedule (no_accounts\<lparr>ac_users := [jane]\<rparr>))"
    by (simp add: no_accounts_def)
  have s: "\<exists>token. al_sign plain_library c t = Inr token" for c t by (simp add: plain_library_def)
  from register_then_login [OF a plain_library_ok(1) jane_registered f s, of "js ''password1''"]
  obtain u token token' where
    "obj [(''token'', JStr (js ''token'')), (''user'', user_claims jane)] =
      obj [(''token'', JStr token), (''user'', user_claims u)]"
    "fst (login plain_library \<lparr>li_email = ri_email jane_input, li_password = js ''password1''\<rparr>
      (no_accounts\<lparr>ac_users := [jane]\<rparr>)) = Inr (obj [(''token'', JStr token'), (''user'', user_claims u)])"
    by (auto simp: jane_input_def)
  moreover from this(1) have "user_claims u = user_claims jane" by (simp add: obj_def)
  ultimately show ?thesis by (auto simp: jane_input_def)
qed

theorem login_reveals_nothing_witness:
  "\<exists>r. rs_status r = 401 \<and>
     post_login plain_library (obj [(''email'', chars ''j@x''), (''password'', chars ''guess'')]) no_accounts =
       (Inr r, no_accounts) \<and>
     post_login plain_library (obj [(''email'', chars ''j@x''), (''password'', chars ''guess'')])
       (no_accounts\<lparr>ac_users := [jane]\<rparr>) = (Inr r, no_accounts\<lparr>ac_users := [jane]\<rparr>)"
proof (rule login_reveals_nothing)
  show "loginSchema plain_library (obj [(''email'', chars ''j@x''), (''password'', chars ''guess'')]) =
      Inr \<lparr>li_email = js ''j@x'', li_password = js ''guess''\<rparr>" by code_simp
  have "al_compare plain_library (js ''guess'') (us_password jane) = Inr False" by code_simp
  then show "al_compare plain_library (li_password \<lparr>li_email = js ''j@x'', li_password = js ''guess''\<rparr>)
      (us_password jane) = Inr False" by simp
qed (simp_all add: no_accounts_def account_of_def jane_def)

theorem auth_as_documented_witness:
  "\<exists>r a'. post_register plain_library 0 (obj [(''name'', chars '''')]) no_accounts = (Inr r, a') \<and>
     (documented_in register_path r \<or> rs_status r = 500)"
proof -
  have "calm no_accounts" by (simp add: calm_def no_accounts_def)
  from auth_as_documented [OF plain_library_ok(2) this] show ?thesis by blast
qed

end
