(* ===== verification/App.thy ===== *)
theory App
  imports Contract Shutdown Auth
begin

text \<open>
  The Express application of \<open>src/index.ts\<close>: the middleware of \<open>Server.config\<close> in its order, the
  routes of \<open>routes/index.ts\<close> with those of the three modules, and the error handler behind
  them.  \<open>express\<close> holds what the packages do: their middleware, the match of a pattern, the
  router of the dashboard.  The state is that of the import tables and storage, of the
  accounts and of the process.

  \<open>generateOpenApiDocument\<close> is the API document of \<open>src/config/openapi/document.ts\<close>.

  The lemmas follow a request through the stack.  The properties: the document lists exactly the
  routes with their guards, and a caller without a valid
  bearer token and without the credentials of the dashboard can register and log in, and
  changes nothing else, whatever the path and whatever the packages do with it.
\<close>

section \<open>Requests, packages, state\<close>

record app_request =
  aq_method :: string
  aq_path :: jsstring
  aq_requestId :: "jsstring option"       \<comment> \<open>the \<open>x-request-id\<close> header\<close>
  aq_uuid :: jsstring                     \<comment> \<open>what \<open>randomUUID()\<close> returns for it\<close>
  aq_authorization :: "jsstring option"
  aq_body :: json                         \<comment> \<open>\<open>req.body\<close>, when \<open>json()\<close> let it pass\<close>
  aq_salt :: nat                          \<comment> \<open>the salt \<open>bcrypt.hash\<close> draws\<close>
  aq_import :: http_request               \<comment> \<open>parameters, query and upload\<close>

record app_state =
  as_world :: world
  as_accounts :: accounts
  as_process :: process_state

text \<open>A middleware of a package ends the request, passes it on, or calls \<open>next(err)\<close>.\<close>

datatype middleware_step = Ends response | Goes_On | Fails exn

record express =
  ex_middleware :: "string \<Rightarrow> app_request \<Rightarrow> middleware_step"
  ex_under :: "string \<Rightarrow> jsstring \<Rightarrow> bool"                  \<comment> \<open>is a path under a base path\<close>
  ex_matches :: "string \<times> string \<Rightarrow> app_request \<Rightarrow> bool"     \<comment> \<open>a method and pattern\<close>
  ex_notFound :: "app_request \<Rightarrow> response"
  ex_metrics :: jsstring                                      \<comment> \<open>the text of the registry\<close>
  ex_dashboard :: "app_request \<Rightarrow> (app_state, exn, response list) io"
  ex_dependencies :: dependencies
  ex_verify :: "jsstring \<Rightarrow> exn + json"
  ex_adminUser :: jsstring
  ex_adminPassword :: jsstring
  ex_library :: auth_library
  ex_imports :: import_service_deps

section \<open>Parts of the state\<close>

definition on_world :: "(world, exn, 'a) io \<Rightarrow> (app_state, exn, 'a) io" where
  "on_world m s = (case m (as_world s) of (r, w) \<Rightarrow> (r, s\<lparr>as_world := w\<rparr>))"

definition on_accounts :: "(accounts, exn, 'a) io \<Rightarrow> (app_state, exn, 'a) io" where
  "on_accounts m s = (case m (as_accounts s) of (r, a) \<Rightarrow> (r, s\<lparr>as_accounts := a\<rparr>))"

lemma on_world_fields [simp]:
  "as_accounts (snd (on_world m s)) = as_accounts s" "as_process (snd (on_world m s)) = as_process s"
  "as_world (snd (on_world m s)) = snd (m (as_world s))"
  by (simp_all add: on_world_def split: prod.split)

lemma on_accounts_fields [simp]:
  "as_world (snd (on_accounts m s)) = as_world s" "as_process (snd (on_accounts m s)) = as_process s"
  "as_accounts (snd (on_accounts m s)) = snd (m (as_accounts s))"
  by (simp_all add: on_accounts_def split: prod.split)

section \<open>Routes\<close>

datatype app_route = Live | Ready | Metrics_Text | Register | Login | Me | Imports import_route

fun app_pattern :: "app_route \<Rightarrow> string \<times> string" where
  "app_pattern Live = (''get'', ''/health/live'')"
| "app_pattern Ready = (''get'', ''/health/ready'')"
| "app_pattern Metrics_Text = (''get'', ''/metrics'')"
| "app_pattern Register = (''post'', ''/api/auth/register'')"
| "app_pattern Login = (''post'', ''/api/auth/login'')"
| "app_pattern Me = (''get'', ''/api/auth/me'')"
| "app_pattern (Imports r) = route_pattern r"

text \<open>In the order they are registered.\<close>

definition createHealthRoutes :: "app_route list" where
  "createHealthRoutes = [Live, Ready, Metrics_Text]"

definition authRoutes :: "app_route list" where
  "authRoutes = [Register, Login, Me]"

definition Routes :: "app_route list" where
  "Routes = createHealthRoutes @ authRoutes @
     map Imports [Post_Imports, Get_Import, Post_Cancel, Get_Summary, Get_Rejections]"

text \<open>\<open>createMetricsHandler\<close>: the registry as text, with the status Express starts with.\<close>

definition createMetricsHandler :: "jsstring \<Rightarrow> response" where
  "createMetricsHandler registry = \<lparr>rs_status = 200, rs_body = JStr registry\<rparr>"

text \<open>The request as the import handlers see it, with \<open>req.id\<close>.\<close>

definition import_view :: "app_request \<Rightarrow> http_request" where
  "import_view rq =
     (aq_import rq)\<lparr>hr_authorization := aq_authorization rq,
       hr_upload := (hr_upload (aq_import rq))\<lparr>rq_id := requestId (aq_uuid rq) (aq_requestId rq)\<rparr>\<rparr>"

definition single :: "('s, exn, response) io \<Rightarrow> ('s, exn, response list) io" where
  "single m = bind_io m (\<lambda>r. return_io [r])"

fun serve_route :: "express \<Rightarrow> app_route \<Rightarrow> app_request \<Rightarrow> (app_state, exn, response list) io" where
  "serve_route ex Live rq = return_io [createLiveHandler]"
| "serve_route ex Ready rq = read_io (\<lambda>s. [createReadyHandler (as_process s) (ex_dependencies ex)])"
| "serve_route ex Metrics_Text rq = return_io [createMetricsHandler (ex_metrics ex)]"
| "serve_route ex Register rq = on_accounts (single (post_register (ex_library ex) (aq_salt rq) (aq_body rq)))"
| "serve_route ex Login rq = on_accounts (single (post_login (ex_library ex) (aq_body rq)))"
| "serve_route ex Me rq = on_accounts (single (get_me (ex_verify ex) (aq_authorization rq)))"
| "serve_route ex (Imports r) rq = on_world (createImportRoutes (ex_imports ex) (ex_verify ex) r (import_view rq))"

section \<open>The middleware stack\<close>

text \<open>In the order of \<open>Server.config\<close>; \<open>requestId\<close> and \<open>httpMetrics\<close> pass every request on.\<close>

definition package_middleware :: "string list" where
  "package_middleware =
     [''/public'', ''morgan dev'', ''morgan combined'', ''cors'', ''json'', ''urlencoded'', ''cookieParser'', ''helmet'',
      ''rateLimiter'', ''session'', ''compression'', ''/api-docs'']"

definition BULL_BOARD_BASE_PATH :: string where
  "BULL_BOARD_BASE_PATH = ''/admin/queues''"

text \<open>The first middleware that does not pass the request on decides.\<close>

fun run_middleware :: "express \<Rightarrow> string list \<Rightarrow> app_request \<Rightarrow> middleware_step" where
  "run_middleware ex [] rq = Goes_On"
| "run_middleware ex (m # ms) rq =
     (case ex_middleware ex m rq of Goes_On \<Rightarrow> run_middleware ex ms rq | step \<Rightarrow> step)"

definition serve_routes :: "express \<Rightarrow> app_request \<Rightarrow> (app_state, exn, response list) io" where
  "serve_routes ex rq =
     (case find (\<lambda>r. ex_matches ex (app_pattern r) rq) Routes of
        None \<Rightarrow> return_io [ex_notFound ex rq]
      | Some r \<Rightarrow> serve_route ex r rq)"

text \<open>The dashboard behind \<open>basicAuth\<close>; its router may pass a request on.\<close>

definition serve :: "express \<Rightarrow> app_request \<Rightarrow> (app_state, exn, response list) io" where
  "serve ex rq =
     (case run_middleware ex package_middleware rq of
        Ends r \<Rightarrow> return_io [r]
      | Fails e \<Rightarrow> return_io [unCaughtErrorHandler]
      | Goes_On \<Rightarrow>
          if ex_under ex BULL_BOARD_BASE_PATH (aq_path rq)
          then (case basicAuth (ex_adminUser ex) (ex_adminPassword ex) (aq_authorization rq) of
                  Answer r \<Rightarrow> return_io [r]
                | Pass _ \<Rightarrow>
                    bind_io (ex_dashboard ex rq) (\<lambda>rs. if rs = [] then serve_routes ex rq else return_io rs))
          else serve_routes ex rq)"

section \<open>The API document\<close>

definition metrics_path :: path_item where
  "metrics_path =
     \<lparr>pi_method = ''get'', pi_path = ''/metrics'', pi_tag = ''Health'', pi_secured = False,
      pi_headers = None, pi_params = None, pi_query = None, pi_body = None,
      pi_responses = [(200, ''text/plain'', Z_String)]\<rparr>"

text \<open>The scheme \<open>config/openapi/registry.ts\<close> registers.\<close>

record security_scheme =
  sm_type :: string
  sm_scheme :: string
  sm_bearerFormat :: string

definition BEARER_AUTH :: string where
  "BEARER_AUTH = ''bearerAuth''"

definition security_schemes :: "(string \<times> security_scheme) list" where
  "security_schemes = [(BEARER_AUTH, \<lparr>sm_type = ''http'', sm_scheme = ''bearer'', sm_bearerFormat = ''JWT''\<rparr>)]"

record openapi_document =
  od_openapi :: string
  od_title :: string
  od_version :: string
  od_description :: string
  od_servers :: "string list"
  od_securitySchemes :: "(string \<times> security_scheme) list"
  od_paths :: "path_item list"          \<comment> \<open>in the order of the imports that register them\<close>

definition generateOpenApiDocument :: openapi_document where
  "generateOpenApiDocument =
     \<lparr>od_openapi = ''3.0.0'', od_title = ''Reconciliation System API'', od_version = ''1.0.0'',
      od_description = ''Reconciliation System API documentation'', od_servers = [''/''],
      od_securitySchemes = security_schemes,
      od_paths = [register_path, login_path, me_path] @ import_paths @ [live_path, ready_path, metrics_path]\<rparr>"

text \<open>A route is guarded when a caller without a valid token gets the answer of \<open>authenticate\<close> and
  nothing else happens.\<close>

definition guarded :: "app_route \<Rightarrow> bool" where
  "guarded r \<longleftrightarrow> (\<forall>ex rq s x. authenticate (ex_verify ex) (aq_authorization rq) = Answer x \<longrightarrow>
     serve_route ex r rq s = (Inr [x], s))"

section \<open>Strangers\<close>

definition stranger :: "express \<Rightarrow> app_request \<Rightarrow> bool" where
  "stranger ex rq \<longleftrightarrow>
     (\<exists>r. authenticate (ex_verify ex) (aq_authorization rq) = Answer r) \<and>
     (\<exists>r. basicAuth (ex_adminUser ex) (ex_adminPassword ex) (aq_authorization rq) = Answer r)"

text \<open>What a request does to the accounts when it is a registration or a login.\<close>

definition account_effect :: "express \<Rightarrow> app_request \<Rightarrow> accounts \<Rightarrow> accounts \<Rightarrow> bool" where
  "account_effect ex rq a a' \<longleftrightarrow>
     a' = a \<or>
     a' = snd (post_register (ex_library ex) (aq_salt rq) (aq_body rq) a) \<and>
       ex_matches ex (app_pattern Register) rq \<or>
     a' = snd (post_login (ex_library ex) (aq_body rq) a) \<and> ex_matches ex (app_pattern Login) rq"

lemma single_state [simp]: "snd (single m s) = snd (m s)"
  by (simp add: single_def bind_io_apply split: prod.split sum.split)

lemma get_me_state: "snd (get_me verify h a) = a"
  by (simp add: get_me_def split: middleware.split)

lemma stranger_route:
  assumes "stranger ex rq" "ex_matches ex (app_pattern r) rq"
  shows "as_world (snd (serve_route ex r rq s)) = as_world s \<and>
    as_process (snd (serve_route ex r rq s)) = as_process s \<and>
    account_effect ex rq (as_accounts s) (as_accounts (snd (serve_route ex r rq s)))"
proof (cases r)
  case (Imports i)
  from assms(1) obtain x where "authenticate (ex_verify ex) (aq_authorization rq) = Answer x"
    by (auto simp: stranger_def)
  then have "createImportRoutes (ex_imports ex) (ex_verify ex) i (import_view rq) = return_io [x]"
    by (simp add: createImportRoutes_def import_view_def)
  with Imports show ?thesis by (simp add: account_effect_def)
qed (use assms(2) in \<open>simp_all add: account_effect_def get_me_state\<close>)

lemma stranger_routes:
  assumes "stranger ex rq"
  shows "as_world (snd (serve_routes ex rq s)) = as_world s \<and> as_process (snd (serve_routes ex rq s)) = as_process s \<and>
    account_effect ex rq (as_accounts s) (as_accounts (snd (serve_routes ex rq s)))"
proof (cases "find (\<lambda>r. ex_matches ex (app_pattern r) rq) Routes")
  case None
  then show ?thesis by (simp add: serve_routes_def account_effect_def)
next
  case (Some r)
  then have "ex_matches ex (app_pattern r) rq" by (auto simp: find_Some_iff)
  with stranger_route [OF assms this, of s] Some show ?thesis by (simp add: serve_routes_def)
qed

text \<open>C13. A caller with neither a valid bearer token nor the credentials of the dashboard: whatever
  the method, the path and the body, and whatever the packages make of them, the imports,
  their files, the queue and the state of the process stay as they are, and the accounts are
  changed by nothing but a registration or a login that the request asks for.\<close>

theorem strangers_change_nothing:
  assumes "stranger ex rq"
  shows "as_world (snd (serve ex rq s)) = as_world s \<and> as_process (snd (serve ex rq s)) = as_process s \<and>
    account_effect ex rq (as_accounts s) (as_accounts (snd (serve ex rq s)))"
  using assms stranger_routes [OF assms, of s]
  by (auto simp: serve_def stranger_def account_effect_def split: middleware_step.split)

text \<open>An error of any package is answered 500, also the 400 that \<open>json()\<close> raises for a malformed
  body: the error handler does not look at the status of the error.\<close>

theorem malformed_body_is_500:
  assumes "\<forall>m\<in>{''/public'', ''morgan dev'', ''morgan combined'', ''cors''}. ex_middleware ex m rq = Goes_On"
    and "ex_middleware ex ''json'' rq = Fails e"
  shows "serve ex rq s = (Inr [unCaughtErrorHandler], s) \<and> rs_status unCaughtErrorHandler = 500"
  using assms by (simp add: serve_def package_middleware_def unCaughtErrorHandler_def)

definition sample_express :: express where
  "sample_express =
     \<lparr>ex_middleware = \<lambda>m rq. if m = ''json'' \<and> aq_body rq = JNull then Fails TypeError else Goes_On,
      ex_under = \<lambda>base path. take (length base) path = js base,
      ex_matches = \<lambda>(method, pattern) rq. (method, pattern) = (''post'', ''/v1/imports/:id/cancel''),
      ex_notFound = \<lambda>rq. \<lparr>rs_status = 404, rs_body = JNull\<rparr>, ex_metrics = js ''registry'',
      ex_dashboard = \<lambda>rq. return_io [\<lparr>rs_status = 200, rs_body = JNull\<rparr>],
      ex_dependencies = \<lparr>dp_select1 = Inr (), dp_redisIsOpen = True, dp_redisConnect = Inr (),
        dp_redisPing = Inr (js ''PONG''), dp_bucketExists = Inr True\<rparr>,
      ex_verify = \<lambda>token. if token = js ''t'' then Inr JNull else Inl TypeError,
      ex_adminUser = js ''admin'', ex_adminPassword = js ''password'',
      ex_library = plain_library, ex_imports = buildImportService no_third_party\<rparr>"

definition sample_cancel :: app_request where
  "sample_cancel =
     \<lparr>aq_method = ''POST'', aq_path = js ''/v1/imports/0/cancel'', aq_requestId = None, aq_uuid = js ''u'',
      aq_authorization = Some (js ''Bearer x''), aq_body = JObj [], aq_salt = 0, aq_import = sample_get\<rparr>"

definition sample_state :: app_state where
  "sample_state = \<lparr>as_world = created_world, as_accounts = no_accounts, as_process = running_process\<rparr>"

lemma sample_stranger: "stranger sample_express sample_cancel"
proof -
  have "authenticate (ex_verify sample_express) (aq_authorization sample_cancel) = Answer unauthorized"
    by (simp add: sample_express_def sample_cancel_def authenticate_def after_prefix_def js_simps)
  moreover have "after_prefix ''Basic '' (aq_authorization sample_cancel) = None"
    by (simp add: sample_cancel_def after_prefix_def js_simps)
  ultimately show ?thesis by (simp add: stranger_def basicAuth_def)
qed

theorem strangers_change_nothing_witness:
  "as_world (snd (serve sample_express sample_cancel sample_state)) = created_world"
  using strangers_change_nothing [OF sample_stranger, of sample_state] by (simp add: sample_state_def)

text \<open>Which routes are guarded.\<close>

lemma guarded_routes: "guarded Me" "guarded (Imports r)"
  by (simp_all add: guarded_def get_me_def on_accounts_def single_def bind_io_apply createImportRoutes_def import_view_def
      on_world_def)

definition anonymous :: app_request where
  "anonymous = sample_cancel\<lparr>aq_authorization := None, aq_body := JNull\<rparr>"

lemma anonymous_unauthorized: "authenticate verify (aq_authorization anonymous) = Answer unauthorized"
  by (simp add: anonymous_def authenticate_def after_prefix_def)

lemma not_guarded:
  assumes "fst (serve_route sample_express r anonymous sample_state) = Inr [x]" "rs_status x \<noteq> 401"
  shows "\<not> guarded r"
proof
  assume "guarded r"
  with anonymous_unauthorized have "serve_route sample_express r anonymous sample_state = (Inr [unauthorized], sample_state)"
    unfolding guarded_def by blast
  with assms show False by (auto simp: unauthorized_def UNAUTHORIZED_def)
qed

lemma open_routes: "\<not> guarded Live" "\<not> guarded Ready" "\<not> guarded Metrics_Text" "\<not> guarded Register" "\<not> guarded Login"
proof -
  show "\<not> guarded Live"
    by (rule not_guarded, simp, simp add: createLiveHandler_def OK_def)
  show "\<not> guarded Ready"
    by (rule not_guarded, simp, simp add: createReadyHandler_def Let_def OK_def SERVICE_UNAVAILABLE_def)
  show "\<not> guarded Metrics_Text"
    by (rule not_guarded, simp, simp add: createMetricsHandler_def)
  show "\<not> guarded Register"
    by (rule not_guarded, simp add: on_accounts_def single_def bind_io_apply post_register_def anonymous_def validate_def
        registerSchema_def, simp add: BAD_REQUEST_def)
  show "\<not> guarded Login"
    by (rule not_guarded, simp add: on_accounts_def single_def bind_io_apply post_login_def anonymous_def validate_def
        loginSchema_def, simp add: BAD_REQUEST_def)
qed

text \<open>C23. The API document and the application agree on every path: the documented methods and
  paths are those of the registered routes, no more and no less, each with its parameters, and a
  path is documented with the bearer scheme exactly when its route refuses every caller
  without a valid token.\<close>

theorem documentation_matches_routes:
  "mset (map (\<lambda>p. (pi_method p, pi_path p, pi_secured p)) (od_paths generateOpenApiDocument)) =
   mset (map (\<lambda>r. (fst (app_pattern r), openapi_pattern (snd (app_pattern r)), guarded r)) Routes)"
  by (simp add: generateOpenApiDocument_def Routes_def createHealthRoutes_def authRoutes_def import_paths_def
      register_path_def login_path_def me_path_def post_imports_path_def get_import_path_def cancel_import_path_def
      summary_path_def rejections_path_def live_path_def ready_path_def metrics_path_def guarded_routes open_routes)

theorem malformed_body_is_500_witness:
  "serve sample_express (sample_cancel\<lparr>aq_body := JNull\<rparr>) sample_state = (Inr [unCaughtErrorHandler], sample_state)"
  using malformed_body_is_500 [of sample_express "sample_cancel\<lparr>aq_body := JNull\<rparr>" TypeError sample_state]
  by (simp add: sample_express_def)

end
