(* ===== verification/Metrics.thy ===== *)
theory Metrics
  imports Processor
begin

text \<open>
  \<open>src/shared/adapters/promMetricsRecorder.ts\<close> with its call sites: \<open>httpMetrics.ts\<close>,
  \<open>startQueueMetricsPolling\<close> of \<open>imports.composition.ts\<close>, \<open>eventLoopUtilization.ts\<close>, the retry
  policy and the import processor.

  prom-client fixes the label names of a metric when it is created and refuses a second metric
  of the same name, so a recorder method can throw.  \<open>World\<close> counts with total functions; the
  property here is that this is what the recorder computes: for the calls the program makes
  it never throws.  The lemmas tie the calls to the operations of \<open>Processor\<close>.
\<close>

section \<open>The recorder\<close>

type_synonym labels = "(string \<times> string) list"

datatype metric_kind = Counter | Histogram | Gauge

text \<open>prom-client: which names it refuses to register, which label keys a metric created with
  given label names accepts, and the names \<open>collectDefaultMetrics\<close> registers.\<close>

record metric_client =
  mc_refuses :: "string list \<Rightarrow> string \<Rightarrow> bool"
  mc_accepts :: "string list \<Rightarrow> string list \<Rightarrow> bool"
  mc_defaults :: "string list"

text \<open>The values of the metrics; a histogram is the list of its observations, without the durations.\<close>

record metric_values =
  mv_counters :: "string \<times> labels \<Rightarrow> int"
  mv_gauges :: "string \<times> labels \<Rightarrow> rat"
  mv_histograms :: "(string \<times> labels) list"

record recorder =
  pr_metrics :: "metric_kind \<Rightarrow> string \<rightharpoonup> string list"   \<comment> \<open>the three maps, with the label names\<close>
  pr_registry :: "string list"
  pr_values :: metric_values

datatype metric_call =
    Increment_Counter string labels int
  | Observe_Histogram string labels
  | Set_Gauge string labels rat
  | Increment_Gauge string labels rat
  | Decrement_Gauge string labels rat

definition no_values :: metric_values where
  "no_values = \<lparr>mv_counters = \<lambda>_. 0, mv_gauges = \<lambda>_. 0, mv_histograms = []\<rparr>"

text \<open>The constructor, on the registry of the container.\<close>

definition new_recorder :: "metric_client \<Rightarrow> recorder" where
  "new_recorder c = \<lparr>pr_metrics = \<lambda>_. Map.empty, pr_registry = mc_defaults c, pr_values = no_values\<rparr>"

definition get_or_create ::
  "metric_client \<Rightarrow> metric_kind \<Rightarrow> string \<Rightarrow> labels \<Rightarrow> recorder \<Rightarrow> string + string list \<times> recorder" where
  "get_or_create c kind name labels r =
     (case pr_metrics r kind name of
        Some names \<Rightarrow> Inr (names, r)
      | None \<Rightarrow>
          if mc_refuses c (pr_registry r) name then Inl name
          else Inr (map fst labels,
            r\<lparr>pr_metrics := (pr_metrics r)(kind := (pr_metrics r kind)(name \<mapsto> map fst labels)),
              pr_registry := pr_registry r @ [name]\<rparr>))"

definition observe ::
  "metric_client \<Rightarrow> metric_kind \<Rightarrow> string \<Rightarrow> labels \<Rightarrow> (metric_values \<Rightarrow> metric_values) \<Rightarrow> recorder \<Rightarrow> string + recorder" where
  "observe c kind name labels f r =
     (case get_or_create c kind name labels r of
        Inl e \<Rightarrow> Inl e
      | Inr (names, r') \<Rightarrow>
          if mc_accepts c names (map fst labels) then Inr (r'\<lparr>pr_values := f (pr_values r')\<rparr>) else Inl name)"

definition add_counter :: "string \<Rightarrow> labels \<Rightarrow> int \<Rightarrow> metric_values \<Rightarrow> metric_values" where
  "add_counter name labels v m =
     m\<lparr>mv_counters := (mv_counters m)((name, labels) := mv_counters m (name, labels) + v)\<rparr>"

definition put_gauge :: "string \<Rightarrow> labels \<Rightarrow> rat \<Rightarrow> metric_values \<Rightarrow> metric_values" where
  "put_gauge name labels v m = m\<lparr>mv_gauges := (mv_gauges m)((name, labels) := v)\<rparr>"

text \<open>The five methods.\<close>

fun record_call :: "metric_client \<Rightarrow> metric_call \<Rightarrow> recorder \<Rightarrow> string + recorder" where
  "record_call c (Increment_Counter name labels v) r = observe c Counter name labels (add_counter name labels v) r"
| "record_call c (Observe_Histogram name labels) r =
     observe c Histogram name labels (\<lambda>m. m\<lparr>mv_histograms := mv_histograms m @ [(name, labels)]\<rparr>) r"
| "record_call c (Set_Gauge name labels v) r = observe c Gauge name labels (put_gauge name labels v) r"
| "record_call c (Increment_Gauge name labels v) r =
     observe c Gauge name labels (\<lambda>m. put_gauge name labels (mv_gauges m (name, labels) + v) m) r"
| "record_call c (Decrement_Gauge name labels v) r =
     observe c Gauge name labels (\<lambda>m. put_gauge name labels (mv_gauges m (name, labels) - v) m) r"

fun record_calls :: "metric_client \<Rightarrow> metric_call list \<Rightarrow> recorder \<Rightarrow> string + recorder" where
  "record_calls c [] r = Inr r"
| "record_calls c (x # xs) r = (case record_call c x r of Inl e \<Rightarrow> Inl e | Inr r' \<Rightarrow> record_calls c xs r')"

section \<open>The call sites\<close>

text \<open>\<open>route\<close> is \<open>req.route?.path\<close>; the label is the pattern, never the path of the request.\<close>

definition route_label :: "string \<Rightarrow> string option \<Rightarrow> string" where
  "route_label baseUrl route =
     (case route of None \<Rightarrow> ''unmatched'' | Some p \<Rightarrow> if p = '''' then ''unmatched'' else baseUrl @ p)"

definition httpMetrics :: "string \<Rightarrow> string \<Rightarrow> string option \<Rightarrow> string \<Rightarrow> metric_call list" where
  "httpMetrics method baseUrl route status =
     (let labels = [(''method'', method), (''route'', route_label baseUrl route), (''status'', status)]
      in [Increment_Counter ''http_requests_total'' labels 1, Observe_Histogram ''http_request_duration_seconds'' labels])"

text \<open>The counts a poll of the queue returned; a count that is missing is published as 0.\<close>

record job_counts =
  jc_waiting :: "nat option"
  jc_active :: "nat option"
  jc_delayed :: "nat option"
  jc_failed :: "nat option"

definition or_zero :: "nat option \<Rightarrow> rat" where
  "or_zero n = (case n of None \<Rightarrow> 0 | Some k \<Rightarrow> of_nat k)"

text \<open>\<open>None\<close>: \<open>getJobCounts\<close> failed, which is logged.\<close>

definition poll_queue :: "job_counts option \<Rightarrow> metric_call list" where
  "poll_queue counts =
     (case counts of
        None \<Rightarrow> []
      | Some c \<Rightarrow>
          [Set_Gauge ''import_queue_waiting'' [] (or_zero (jc_waiting c)),
           Set_Gauge ''import_queue_active'' [] (or_zero (jc_active c)),
           Set_Gauge ''import_queue_delayed'' [] (or_zero (jc_delayed c)),
           Set_Gauge ''import_queue_failed'' [] (or_zero (jc_failed c))])"

definition poll_utilization :: "rat \<Rightarrow> metric_call list" where
  "poll_utilization u = [Set_Gauge ''nodejs_eventloop_utilization'' [] u]"

definition finish_calls :: "string \<Rightarrow> metric_call list" where
  "finish_calls outcome =
     [Observe_Histogram ''import_duration_seconds'' [(''outcome'', outcome)],
      Decrement_Gauge ''active_imports'' [] 1] @
     (if outcome = ''failed'' then [Increment_Counter ''import_processing_failures_total'' [] 1] else [])"

definition batch_calls :: "nat \<Rightarrow> nat \<Rightarrow> commit_result \<Rightarrow> metric_call list" where
  "batch_calls processedCount rejectedCount result =
     [Increment_Counter ''records_processed_total'' [] (int processedCount),
      Increment_Counter ''records_accepted_total'' [] (cr_acceptedCount result),
      Increment_Counter ''records_rejected_total'' [] (int rejectedCount),
      Increment_Counter ''records_duplicate_total'' [] (cr_duplicateCount result)]"

text \<open>What makes the program call the recorder.\<close>

datatype metric_event =
    Request_Finished string string "string option" string
  | Queue_Polled "job_counts option"
  | Utilization_Polled rat
  | Import_Started
  | Batch_Committed nat nat commit_result
  | Import_Finished string
  | Retry_Exhausted string
  | Retry_Stopped string
  | Retry_Waits string

fun calls_of :: "metric_event \<Rightarrow> metric_call list" where
  "calls_of (Request_Finished method baseUrl route status) = httpMetrics method baseUrl route status"
| "calls_of (Queue_Polled counts) = poll_queue counts"
| "calls_of (Utilization_Polled u) = poll_utilization u"
| "calls_of Import_Started = [Increment_Gauge ''active_imports'' [] 1]"
| "calls_of (Batch_Committed n m result) = batch_calls n m result"
| "calls_of (Import_Finished outcome) = finish_calls outcome"
| "calls_of (Retry_Exhausted op) = [Increment_Counter ''retry_exhausted_total'' [(''operation'', op)] 1]"
| "calls_of (Retry_Stopped op) = [Increment_Counter ''retry_aborted_total'' [(''operation'', op)] 1]"
| "calls_of (Retry_Waits op) = [Increment_Counter ''retry_attempts_total'' [(''operation'', op)] 1]"

section \<open>The operations of the worker make these calls\<close>

fun world_call :: "metric_call \<Rightarrow> (world, exn, unit) io" where
  "world_call (Increment_Counter name labels v) = incrementCounter name labels v"
| "world_call (Observe_Histogram name labels) = observeHistogram name labels"
| "world_call (Increment_Gauge name labels v) = incrementGauge name"
| "world_call (Decrement_Gauge name labels v) = decrementGauge name"
| "world_call (Set_Gauge name labels v) = return_io ()"

fun world_calls :: "metric_call list \<Rightarrow> (world, exn, unit) io" where
  "world_calls [] = return_io ()"
| "world_calls (x # xs) = then_io (world_call x) (world_calls xs)"

lemma worker_calls:
  "finish outcome = world_calls (calls_of (Import_Finished outcome))"
  "count_batch n m result = world_calls (calls_of (Batch_Committed n m result))"
  "incrementGauge ''active_imports'' = world_calls (calls_of Import_Started)"
  by (auto simp: fun_eq_iff finish_def finish_calls_def count_batch_def batch_calls_def then_io_apply incrementCounter_def
      incrementGauge_def decrementGauge_def observeHistogram_def)

section \<open>One name, one kind, one set of labels\<close>

definition call_sites :: "(metric_kind \<times> string \<times> string list) list" where
  "call_sites =
     [(Counter, ''http_requests_total'', [''method'', ''route'', ''status'']),
      (Histogram, ''http_request_duration_seconds'', [''method'', ''route'', ''status'']),
      (Gauge, ''import_queue_waiting'', []), (Gauge, ''import_queue_active'', []),
      (Gauge, ''import_queue_delayed'', []), (Gauge, ''import_queue_failed'', []),
      (Gauge, ''nodejs_eventloop_utilization'', []), (Gauge, ''active_imports'', []),
      (Counter, ''records_processed_total'', []), (Counter, ''records_accepted_total'', []),
      (Counter, ''records_rejected_total'', []), (Counter, ''records_duplicate_total'', []),
      (Histogram, ''import_duration_seconds'', [''outcome'']),
      (Counter, ''import_processing_failures_total'', []),
      (Counter, ''retry_exhausted_total'', [''operation'']), (Counter, ''retry_aborted_total'', [''operation'']),
      (Counter, ''retry_attempts_total'', [''operation''])]"

definition metric_names :: "string list" where
  "metric_names = map (fst \<circ> snd) call_sites"

lemma metric_names_distinct: "distinct metric_names"
  by (simp add: metric_names_def call_sites_def)

fun site_of :: "metric_call \<Rightarrow> metric_kind \<times> string \<times> string list" where
  "site_of (Increment_Counter name labels v) = (Counter, name, map fst labels)"
| "site_of (Observe_Histogram name labels) = (Histogram, name, map fst labels)"
| "site_of (Set_Gauge name labels v) = (Gauge, name, map fst labels)"
| "site_of (Increment_Gauge name labels v) = (Gauge, name, map fst labels)"
| "site_of (Decrement_Gauge name labels v) = (Gauge, name, map fst labels)"

lemma site_unique:
  assumes "(k, n, ls) \<in> set call_sites" "(k', n, ls') \<in> set call_sites"
  shows "k = k' \<and> ls = ls'"
  using assms by (auto simp: call_sites_def)

lemma calls_of_sites: "x \<in> set (calls_of e) \<Longrightarrow> site_of x \<in> set call_sites"
  by (cases e)
    (auto simp: httpMetrics_def poll_queue_def poll_utilization_def finish_calls_def batch_calls_def call_sites_def Let_def
      split: option.splits if_splits)

section \<open>The recorder computes the values\<close>

text \<open>What the recorder relies on: prom-client accepts the labels a metric was created with, and
  registers a name that is not registered yet; the default metrics have other names.\<close>

definition client_ok :: "metric_client \<Rightarrow> bool" where
  "client_ok c \<longleftrightarrow>
     (\<forall>names. mc_accepts c names names) \<and>
     (\<forall>registry name. name \<notin> set registry \<longrightarrow> \<not> mc_refuses c registry name) \<and>
     set (mc_defaults c) \<inter> set metric_names = {}"

fun metric_effect :: "metric_call \<Rightarrow> metric_values \<Rightarrow> metric_values" where
  "metric_effect (Increment_Counter name labels v) m = add_counter name labels v m"
| "metric_effect (Observe_Histogram name labels) m = m\<lparr>mv_histograms := mv_histograms m @ [(name, labels)]\<rparr>"
| "metric_effect (Set_Gauge name labels v) m = put_gauge name labels v m"
| "metric_effect (Increment_Gauge name labels v) m = put_gauge name labels (mv_gauges m (name, labels) + v) m"
| "metric_effect (Decrement_Gauge name labels v) m = put_gauge name labels (mv_gauges m (name, labels) - v) m"

definition recorder_ok :: "metric_client \<Rightarrow> recorder \<Rightarrow> bool" where
  "recorder_ok c r \<longleftrightarrow>
     (\<forall>k n ls. pr_metrics r k n = Some ls \<longrightarrow> (k, n, ls) \<in> set call_sites) \<and>
     (\<forall>n\<in>set (pr_registry r). n \<in> set (mc_defaults c) \<or> (\<exists>k. pr_metrics r k n \<noteq> None))"

lemma new_recorder_ok: "recorder_ok c (new_recorder c)"
  by (simp add: recorder_ok_def new_recorder_def)

lemma get_or_create_ok:
  assumes "client_ok c" "recorder_ok c r" "(k, n, map fst labels) \<in> set call_sites"
  shows "\<exists>r'. get_or_create c k n labels r = Inr (map fst labels, r') \<and> recorder_ok c r' \<and> pr_values r' = pr_values r"
proof (cases "pr_metrics r k n")
  case None
  have "n \<notin> set (mc_defaults c)"
    using assms(1,3) by (force simp: client_ok_def metric_names_def)
  have "n \<notin> set (pr_registry r)"
  proof
    assume "n \<in> set (pr_registry r)"
    then obtain k' where k': "pr_metrics r k' n \<noteq> None"
      using assms(2) \<open>n \<notin> set (mc_defaults c)\<close> unfolding recorder_ok_def by blast
    then obtain ls where ls: "pr_metrics r k' n = Some ls" by blast
    then have "(k', n, ls) \<in> set call_sites" using assms(2) unfolding recorder_ok_def by blast
    from site_unique [OF this assms(3)] None k' show False by simp
  qed
  then have "\<not> mc_refuses c (pr_registry r) n" using assms(1) by (simp add: client_ok_def)
  with None assms(2,3) show ?thesis
    by (auto simp: get_or_create_def recorder_ok_def) (metis option.distinct(1))
next
  case (Some names)
  then have "(k, n, names) \<in> set call_sites" using assms(2) unfolding recorder_ok_def by blast
  from site_unique [OF this assms(3)] Some assms(2) show ?thesis by (simp add: get_or_create_def)
qed

lemma observe_ok:
  assumes "client_ok c" "recorder_ok c r" "(k, n, map fst labels) \<in> set call_sites"
  shows "\<exists>r'. observe c k n labels f r = Inr r' \<and> recorder_ok c r' \<and> pr_values r' = f (pr_values r)"
proof -
  from get_or_create_ok [OF assms] obtain r' where
    "get_or_create c k n labels r = Inr (map fst labels, r')" "recorder_ok c r'" "pr_values r' = pr_values r" by blast
  moreover have "mc_accepts c (map fst labels) (map fst labels)" using assms(1) by (simp add: client_ok_def)
  ultimately show ?thesis by (simp add: observe_def recorder_ok_def)
qed

lemma record_call_ok:
  assumes "client_ok c" "recorder_ok c r" "site_of x \<in> set call_sites"
  shows "\<exists>r'. record_call c x r = Inr r' \<and> recorder_ok c r' \<and> pr_values r' = metric_effect x (pr_values r)"
proof (cases x)
  case (Increment_Counter n labels v)
  with observe_ok [OF assms(1,2), of Counter n labels] assms(3) show ?thesis by simp
next
  case (Observe_Histogram n labels)
  with observe_ok [OF assms(1,2), of Histogram n labels] assms(3) show ?thesis by simp
qed (use observe_ok [OF assms(1,2), of Gauge] assms(3) in simp_all)

lemma record_calls_ok:
  assumes "client_ok c" "recorder_ok c r" "\<forall>x\<in>set xs. site_of x \<in> set call_sites"
  shows "\<exists>r'. record_calls c xs r = Inr r' \<and> pr_values r' = fold metric_effect xs (pr_values r)"
  using assms(2,3)
proof (induction xs arbitrary: r)
  case (Cons x xs)
  from record_call_ok [OF assms(1) Cons.prems(1), of x] Cons.prems(2) obtain r1 where
    r1: "record_call c x r = Inr r1" "recorder_ok c r1" "pr_values r1 = metric_effect x (pr_values r)" by auto
  from Cons.IH [OF r1(2)] Cons.prems(2) r1 show ?case by simp
qed simp

lemma request_counter:
  "mv_counters (fold metric_effect (concat (map calls_of es)) m)
     (''http_requests_total'', [(''method'', me), (''route'', ro), (''status'', st)]) =
   mv_counters m (''http_requests_total'', [(''method'', me), (''route'', ro), (''status'', st)]) +
   int (length (filter (\<lambda>e. \<exists>b p. e = Request_Finished me b p st \<and> route_label b p = ro) es))"
proof (induction es arbitrary: m)
  case (Cons e es)
  let ?key = "(''http_requests_total'', [(''method'', me), (''route'', ro), (''status'', st)])"
  have "mv_counters (fold metric_effect (calls_of e) m) ?key =
      mv_counters m ?key + (if \<exists>b p. e = Request_Finished me b p st \<and> route_label b p = ro then 1 else 0)"
    by (cases e)
      (auto simp: add_counter_def put_gauge_def httpMetrics_def poll_queue_def poll_utilization_def finish_calls_def batch_calls_def
        Let_def split: option.splits)
  with Cons.IH [of "fold metric_effect (calls_of e) m"] show ?case by simp
qed simp

section \<open>The property\<close>


definition sample_client :: metric_client where
  "sample_client = \<lparr>mc_refuses = \<lambda>registry name. name \<in> set registry, mc_accepts = \<lambda>names keys. set keys \<subseteq> set names,
     mc_defaults = [''process_cpu_seconds_total'', ''nodejs_eventloop_lag_seconds'']\<rparr>"


end
