(* ===== verification/Startup.thy ===== *)
theory Startup
  imports App Metrics
begin

text \<open>
  How the two processes are configured and started: \<open>bootstrap\<close> of \<open>server.ts\<close> and of
  \<open>worker.ts\<close>, \<open>buildContainer\<close> of \<open>src/composition/container.ts\<close>, and what is read from the
  environment, in the composition and configuration modules; also the options given to packages,
  the logger, the Socket.IO handlers and the scrape endpoint of the worker.  \<open>variables\<close> is \<open>process.env\<close>.
  \<open>number_or\<close> and \<open>text_or\<close> are the idioms \<open>Number(process.env.X) || d\<close> and
  \<open>process.env.X || d\<close>.

  A process that starts has checked its connections, has its state and its shutdown steps;
  what BullMQ, Express and Node make of the options is theirs.
\<close>

section \<open>Variables\<close>

type_synonym variables = "string \<Rightarrow> jsstring option"

fun falsy :: "jsnum \<Rightarrow> bool" where
  "falsy NaN \<longleftrightarrow> True"
| "falsy (Fin x) \<longleftrightarrow> x = 0"
| "falsy _ \<longleftrightarrow> False"

definition number_of :: "jsstring option \<Rightarrow> jsnum" where
  "number_of v = (case v of None \<Rightarrow> NaN | Some s \<Rightarrow> js_to_number s)"

definition number_or :: "jsstring option \<Rightarrow> rat \<Rightarrow> jsnum" where
  "number_or v d = (if falsy (number_of v) then Fin d else number_of v)"

definition text_or :: "jsstring option \<Rightarrow> string \<Rightarrow> jsstring" where
  "text_or v d = (case v of None \<Rightarrow> js d | Some s \<Rightarrow> if s = [] then js d else s)"

lemma number_or_unset [simp]: "number_or None d = Fin d" "text_or None s = js s" "text_or (Some []) s = js s"
  by (simp_all add: number_or_def number_of_def text_or_def)

lemma number_or_truthy: "d \<noteq> 0 \<Longrightarrow> \<not> falsy (number_or v d)"
  by (simp add: number_or_def)

section \<open>Settings\<close>

record retry_settings =
  rt_maxAttempts :: jsnum
  rt_baseDelayMs :: jsnum
  rt_maxDelayMs :: jsnum

definition buildRetryPolicy :: "variables \<Rightarrow> retry_settings" where
  "buildRetryPolicy env =
     \<lparr>rt_maxAttempts = number_or (env ''DB_RETRY_MAX_ATTEMPTS'') 4,
      rt_baseDelayMs = number_or (env ''DB_RETRY_BASE_DELAY_MS'') 100,
      rt_maxDelayMs = number_or (env ''DB_RETRY_MAX_DELAY_MS'') 2000\<rparr>"

text \<open>The configuration of the retry policy the settings stand for, when they are such numbers.\<close>

definition settings_of :: "retry_config \<Rightarrow> retry_settings" where
  "settings_of cfg =
     \<lparr>rt_maxAttempts = Fin (of_nat (rc_maxAttempts cfg)), rt_baseDelayMs = Fin (rc_baseDelayMs cfg),
      rt_maxDelayMs = Fin (rc_maxDelayMs cfg)\<rparr>"

lemma default_settings: "buildRetryPolicy (\<lambda>_. None) = settings_of default_retry"
  by (simp add: buildRetryPolicy_def settings_of_def default_retry_def)

record rate_limit =
  rl_windowMs :: jsnum
  rl_max :: jsnum
  rl_standardHeaders :: bool
  rl_legacyHeaders :: bool

definition rateLimiter :: "variables \<Rightarrow> rate_limit" where
  "rateLimiter env =
     (if text_or (env ''NODE_ENV'') ''dev'' = js ''production'' then
        \<lparr>rl_windowMs = js_mul (js_mul (number_or (env ''RATE_LIMIT_TIME'') 100) (Fin 60)) (Fin 1000),
         rl_max = number_or (env ''RATE_LIMIT_REQUEST'') 100, rl_standardHeaders = True, rl_legacyHeaders = False\<rparr>
      else
        \<lparr>rl_windowMs = Fin (5 * 60 * 1000), rl_max = Fin 3000, rl_standardHeaders = True, rl_legacyHeaders = False\<rparr>)"

record storage_client =
  sc_endPoint :: jsstring
  sc_port :: "jsnum option"
  sc_useSSL :: bool
  sc_accessKey :: "jsstring option"
  sc_secretKey :: "jsstring option"
  sc_region :: "string option"

definition isProduction :: "variables \<Rightarrow> bool" where
  "isProduction env \<longleftrightarrow> env ''NODE_ENV'' = Some (js ''production'')"

text \<open>A variable in a template literal.\<close>

definition in_template :: "jsstring option \<Rightarrow> jsstring" where
  "in_template v = (case v of None \<Rightarrow> js ''undefined'' | Some s \<Rightarrow> s)"

definition storage_of :: "variables \<Rightarrow> storage_client" where
  "storage_of env =
     (if isProduction env then
        \<lparr>sc_endPoint = in_template (env ''R2_ACCOUNT_ID'') @ js ''.r2.cloudflarestorage.com'', sc_port = None,
         sc_useSSL = True, sc_accessKey = env ''R2_ACCESS_KEY_ID'', sc_secretKey = env ''R2_SECRET_ACCESS_KEY'',
         sc_region = Some ''auto''\<rparr>
      else
        \<lparr>sc_endPoint = text_or (env ''MINIO_ENDPOINT'') ''localhost'',
         sc_port = Some (number_or (env ''MINIO_PORT'') 9000), sc_useSSL = (env ''MINIO_USE_SSL'' = Some (js ''true'')),
         sc_accessKey = Some (text_or (env ''MINIO_ACCESS_KEY'') ''minioadmin''),
         sc_secretKey = Some (text_or (env ''MINIO_SECRET_KEY'') ''minioadmin''), sc_region = None\<rparr>)"

definition MINIO_BUCKET :: "variables \<Rightarrow> jsstring option" where
  "MINIO_BUCKET env =
     (if isProduction env then env ''R2_BUCKET_NAME''
      else Some (text_or (env ''MINIO_BUCKET'') ''reconciliation-system''))"

text \<open>The credentials \<open>basicAuth\<close> guards the dashboard with.\<close>

definition dashboard_credentials :: "variables \<Rightarrow> jsstring \<times> jsstring" where
  "dashboard_credentials env =
     (text_or (env ''ADMIN_DASHBOARD_USER'') ''admin'', text_or (env ''ADMIN_DASHBOARD_PASSWORD'') ''password'')"

section \<open>Options of the packages\<close>

text \<open>The session cookie; the content security policy without the directive that would upgrade to
  HTTPS (\<open>None\<close> is its \<open>null\<close>); the pool of the worker threads, which load TypeScript or the
  compiled file.\<close>

record session_settings =
  ss_secret :: string
  ss_resave :: bool
  ss_saveUninitialized :: bool
  ss_cookieSecure :: bool

definition session_options :: session_settings where
  "session_options =
     \<lparr>ss_secret = ''yourSecretKey'', ss_resave = False, ss_saveUninitialized = True, ss_cookieSecure = False\<rparr>"

definition helmet_directives :: "(string \<rightharpoonup> jsstring list) \<Rightarrow> (string \<rightharpoonup> jsstring list option)" where
  "helmet_directives defaults =
     (\<lambda>name. map_option Some (defaults name))(''upgrade-insecure-requests'' \<mapsto> None)"

record pool_settings =
  po_filename :: string
  po_execArgv :: "string list"
  po_maxThreads :: "nat option"

definition isTsNode :: "string \<Rightarrow> bool" where
  "isTsNode filename \<longleftrightarrow> 3 \<le> length filename \<and> drop (length filename - 3) filename = ''.ts''"

definition pool_options :: "string \<Rightarrow> string \<Rightarrow> nat option \<Rightarrow> pool_settings" where
  "pool_options dirname filename maxThreads =
     \<lparr>po_filename = dirname @ ''/'' @ (if isTsNode filename then ''riskScoreWorker.ts'' else ''riskScoreWorker.js''),
      po_execArgv = (if isTsNode filename then [''--require'', ''ts-node/register/transpile-only''] else []),
      po_maxThreads = maxThreads\<rparr>"

section \<open>Logging\<close>

datatype log_level = Debug | Info | Warn | Error

type_synonym log_context = "(string \<times> jsstring) list"

record log_line =
  ll_level :: log_level
  ll_bindings :: log_context
  ll_context :: log_context
  ll_message :: string

text \<open>A pino instance: what it binds to every line, and the lines it was given.\<close>

record pino =
  pn_level :: jsstring
  pn_bindings :: log_context
  pn_lines :: "log_line list"

definition log_at :: "log_level \<Rightarrow> string \<Rightarrow> log_context option \<Rightarrow> pino \<Rightarrow> pino" where
  "log_at level msg ctx p =
     p\<lparr>pn_lines := pn_lines p @ [\<lparr>ll_level = level, ll_bindings = pn_bindings p,
        ll_context = (case ctx of None \<Rightarrow> [] | Some c \<Rightarrow> c), ll_message = msg\<rparr>]\<rparr>"

definition logger_child :: "log_context \<Rightarrow> pino \<Rightarrow> pino" where
  "logger_child bindings p = p\<lparr>pn_bindings := pn_bindings p @ bindings\<rparr>"

definition createPinoLogger :: "variables \<Rightarrow> pino" where
  "createPinoLogger env =
     \<lparr>pn_level = text_or (env ''LOG_LEVEL'') ''info'', pn_bindings = [(''service'', js ''reconciliation-backend'')],
      pn_lines = []\<rparr>"

section \<open>Socket.IO\<close>

text \<open>The handler of \<open>connection\<close> in \<open>server.ts\<close>: a client can join rooms, nothing is ever sent
  to them.\<close>

record socket =
  so_id :: jsstring
  so_rooms :: "jsstring set"

datatype socket_event = Socket_Event jsstring | Socket_Disconnect

definition on_connection :: "socket \<Rightarrow> pino \<Rightarrow> pino" where
  "on_connection socket = log_at Info ''Socket connected'' (Some [(''socketId'', so_id socket)])"

fun on_socket_event :: "socket_event \<Rightarrow> socket \<times> pino \<Rightarrow> socket \<times> pino" where
  "on_socket_event (Socket_Event data) (socket, p) = (socket\<lparr>so_rooms := insert data (so_rooms socket)\<rparr>, p)"
| "on_socket_event Socket_Disconnect (socket, p) =
     (socket, log_at Info ''Socket disconnected'' (Some [(''socketId'', so_id socket)]) p)"

section \<open>The container\<close>

text \<open>Without the clock and the identifier generator, which have no state, and Prisma, whose state is
  the database of \<open>World\<close>; the \<open>error\<close> handlers of the two Redis clients write to the console.\<close>

record container =
  ct_logger :: pino
  ct_metrics :: recorder
  ct_storage :: storage_client
  ct_minioBucket :: "jsstring option"
  ct_queueConnection :: jsstring
  ct_redis :: jsstring
  ct_process :: process_state          \<comment> \<open>\<open>readiness\<close> and \<open>shutdownSignal\<close>\<close>

definition redis_url :: "variables \<Rightarrow> jsstring" where
  "redis_url env = text_or (env ''REDIS_URL'') ''redis://localhost:6379''"

definition buildContainer :: "metric_client \<Rightarrow> variables \<Rightarrow> container" where
  "buildContainer client env =
     \<lparr>ct_logger = createPinoLogger env, ct_metrics = new_recorder client, ct_storage = storage_of env,
      ct_minioBucket = MINIO_BUCKET env, ct_queueConnection = text_or (env ''REDIS_URL'') ''redis://localhost:6379'',
      ct_redis = redis_url env, ct_process = running_process\<rparr>"

section \<open>Starting\<close>

text \<open>What the worker logs when a job fails; BullMQ may have no job to name.\<close>

definition on_job_failed :: "(jsstring \<times> jsstring) option \<Rightarrow> jsstring \<Rightarrow> pino \<Rightarrow> pino" where
  "on_job_failed job message =
     log_at Error ''Import job failed''
       (Some ((case job of None \<Rightarrow> [] | Some (j, i) \<Rightarrow> [(''jobId'', j), (''importId'', i)]) @ [(''error'', message)]))"

text \<open>What Node's \<open>listen\<close> takes; it throws for anything else.\<close>

definition valid_port :: "jsnum \<Rightarrow> bool" where
  "valid_port p = (case p of Fin r \<Rightarrow> r = of_int \<lfloor>r\<rfloor> \<and> 0 \<le> r \<and> r \<le> 65535 | _ \<Rightarrow> False)"

record running =
  rn_container :: container
  rn_messages :: "string list"
  rn_listening :: "jsnum option"       \<comment> \<open>the port that answers\<close>
  rn_concurrency :: "jsnum option"     \<comment> \<open>of the BullMQ worker\<close>
  rn_steps :: "string list"            \<comment> \<open>registered with \<open>registerGracefulShutdown\<close>\<close>
  rn_gracePeriodMs :: jsnum

datatype boot = Exits nat string | Runs running

definition SHUTDOWN_GRACE_PERIOD_MS :: "variables \<Rightarrow> jsnum" where
  "SHUTDOWN_GRACE_PERIOD_MS env = number_or (env ''SHUTDOWN_GRACE_PERIOD_MS'') 30000"

definition MAX_CONCURRENT_IMPORTS :: "variables \<Rightarrow> jsnum" where
  "MAX_CONCURRENT_IMPORTS env = number_or (env ''MAX_CONCURRENT_IMPORTS'') 2"

definition WORKER_METRICS_PORT :: "variables \<Rightarrow> jsnum" where
  "WORKER_METRICS_PORT env = number_or (env ''WORKER_METRICS_PORT'') 9465"

text \<open>\<open>bootstrap\<close> of the server with its \<open>catch\<close>; \<open>failure\<close> is the code of the \<open>error\<close> event the HTTP
  server emits instead of listening.\<close>

definition listen_message :: "string option \<Rightarrow> string" where
  "listen_message failure =
     (case failure of
        None \<Rightarrow> ''Server started''
      | Some code \<Rightarrow>
          if code = ''EADDRINUSE'' then ''Server startup error: address already in use'' else ''Port error'')"

definition server_bootstrap ::
  "metric_client \<Rightarrow> variables \<Rightarrow> dependencies \<Rightarrow> string option \<Rightarrow> boot" where
  "server_bootstrap client env dp failure =
     (case checkConnections dp of
        Inl e \<Rightarrow> Exits 1 ''Fatal startup error: Postgres is not reachable.''
      | Inr messages \<Rightarrow>
          let port = number_of (env ''PORT'') in
          if \<not> valid_port port then Exits 1 ''Fatal startup error: Postgres is not reachable.''
          else Runs
            \<lparr>rn_container = buildContainer client env, rn_messages = messages @ [listen_message failure],
             rn_listening = (if failure = None then Some port else None), rn_concurrency = None,
             rn_steps = server_steps, rn_gracePeriodMs = SHUTDOWN_GRACE_PERIOD_MS env\<rparr>)"

text \<open>The scrape endpoint of the worker, \<open>startMetricsHttpServer\<close>: its answer, and that nobody
  listens to its \<open>error\<close> event, which then ends the process.\<close>

definition metrics_answer :: "string \<Rightarrow> string \<Rightarrow> jsstring \<Rightarrow> nat \<times> jsstring" where
  "metrics_answer method url registry =
     (if method = ''GET'' \<and> url = ''/metrics'' then (200, registry) else (404, []))"

definition startMetricsHttpServer :: "jsnum \<Rightarrow> string option \<Rightarrow> string + jsnum" where
  "startMetricsHttpServer port failure =
     (if \<not> valid_port port then Inl ''Fatal worker startup error:''
      else (case failure of Some _ \<Rightarrow> Inl ''Unhandled error event'' | None \<Rightarrow> Inr port))"

definition worker_bootstrap ::
  "metric_client \<Rightarrow> variables \<Rightarrow> dependencies \<Rightarrow> string option \<Rightarrow> boot" where
  "worker_bootstrap client env dp failure =
     (case checkConnections dp of
        Inl e \<Rightarrow> Exits 1 ''Fatal worker startup error:''
      | Inr messages \<Rightarrow>
          (case startMetricsHttpServer (WORKER_METRICS_PORT env) failure of
             Inl message \<Rightarrow> Exits 1 message
           | Inr port \<Rightarrow> Runs
               \<lparr>rn_container = buildContainer client env, rn_messages = messages @ [''Import worker started''],
                rn_listening = Some port, rn_concurrency = Some (MAX_CONCURRENT_IMPORTS env),
                rn_steps = worker_steps, rn_gracePeriodMs = SHUTDOWN_GRACE_PERIOD_MS env\<rparr>))"

section \<open>Defined and not used\<close>

text \<open>The options with the whitelist of origins, which \<open>cors()\<close> is not given, and
  \<open>createApiErrorHandler\<close>, which answers an error with status 200.\<close>

definition whitelist :: "jsstring list" where
  "whitelist = [js ''http://localhost:3000'']"

definition corsOptions_origin :: "jsstring option \<Rightarrow> string + bool" where
  "corsOptions_origin origin =
     (case origin of
        None \<Rightarrow> Inr True
      | Some h \<Rightarrow>
          if h = [] \<or> h = js ''null'' then Inr True
          else if h \<in> set whitelist then Inr True
          else Inl ''Not allowed by CORS'')"

definition apiErrorHandler :: "string \<Rightarrow> response" where
  "apiErrorHandler message = \<lparr>rs_status = 200, rs_body = obj [(''Message'', chars message)]\<rparr>"

section \<open>Properties\<close>

lemma checkConnections_Inr: "(\<exists>messages. checkConnections dp = Inr messages) \<longleftrightarrow> dp_select1 dp = Inr ()"
  by (simp add: checkConnections_def checkPostgres_def split: sum.split)

text \<open>What decides a start: the server runs exactly when Postgres answers and the port is one,
  the worker exactly when Postgres answers and its scrape endpoint listens, otherwise the process
  exits with 1.  A process that runs has said it is ready, has its own shutdown steps
  registered, in their order, and a grace period that is neither 0 nor not a number.\<close>

theorem startup_decided:
  "(case server_bootstrap client env dp failure of
      Runs r \<Rightarrow> dp_select1 dp = Inr () \<and> valid_port (number_of (env ''PORT'')) \<and> rn_steps r = server_steps \<and>
        \<not> falsy (rn_gracePeriodMs r) \<and> \<not> ps_notReady (ct_process (rn_container r)) \<and>
        (rn_listening r = None \<longleftrightarrow> failure \<noteq> None)
    | Exits n message \<Rightarrow> n = 1 \<and> \<not> (dp_select1 dp = Inr () \<and> valid_port (number_of (env ''PORT'')))) \<and>
   (case worker_bootstrap client env dp failure of
      Runs r \<Rightarrow> dp_select1 dp = Inr () \<and> valid_port (WORKER_METRICS_PORT env) \<and> failure = None \<and>
        rn_steps r = worker_steps \<and> \<not> falsy (rn_gracePeriodMs r) \<and>
        \<not> ps_shutdownRequested (ct_process (rn_container r)) \<and> \<not> falsy (the (rn_concurrency r))
    | Exits n message \<Rightarrow> n = 1 \<and>
        \<not> (dp_select1 dp = Inr () \<and> valid_port (WORKER_METRICS_PORT env) \<and> failure = None))"
proof
  show "case server_bootstrap client env dp failure of
      Runs r \<Rightarrow> dp_select1 dp = Inr () \<and> valid_port (number_of (env ''PORT'')) \<and> rn_steps r = server_steps \<and>
        \<not> falsy (rn_gracePeriodMs r) \<and> \<not> ps_notReady (ct_process (rn_container r)) \<and>
        (rn_listening r = None \<longleftrightarrow> failure \<noteq> None)
    | Exits n message \<Rightarrow> n = 1 \<and> \<not> (dp_select1 dp = Inr () \<and> valid_port (number_of (env ''PORT'')))"
    using checkConnections_Inr [of dp]
    by (auto simp: server_bootstrap_def Let_def SHUTDOWN_GRACE_PERIOD_MS_def number_or_truthy buildContainer_def
        running_process_def split: sum.split)
  show "case worker_bootstrap client env dp failure of
      Runs r \<Rightarrow> dp_select1 dp = Inr () \<and> valid_port (WORKER_METRICS_PORT env) \<and> failure = None \<and>
        rn_steps r = worker_steps \<and> \<not> falsy (rn_gracePeriodMs r) \<and>
        \<not> ps_shutdownRequested (ct_process (rn_container r)) \<and> \<not> falsy (the (rn_concurrency r))
    | Exits n message \<Rightarrow> n = 1 \<and>
        \<not> (dp_select1 dp = Inr () \<and> valid_port (WORKER_METRICS_PORT env) \<and> failure = None)"
    using checkConnections_Inr [of dp]
    by (auto simp: worker_bootstrap_def startMetricsHttpServer_def SHUTDOWN_GRACE_PERIOD_MS_def
        MAX_CONCURRENT_IMPORTS_def number_or_truthy buildContainer_def running_process_def
        split: sum.split option.split if_splits)
qed

text \<open>Two ways to start badly.  A port that is taken is logged and nothing else: the process runs on
  and answers no request.  And without \<open>PORT\<close>, which has no default, the process ends with a
  message that blames Postgres, although it answers.\<close>

theorem port_taken_runs_on:
  assumes "dp_select1 dp = Inr ()" "valid_port (number_of (env ''PORT''))"
  shows "\<exists>r. server_bootstrap client env dp (Some ''EADDRINUSE'') = Runs r \<and> rn_listening r = None"
proof -
  from assms(1) obtain messages where "checkConnections dp = Inr messages" using checkConnections_Inr by blast
  with assms(2) show ?thesis by (simp add: server_bootstrap_def)
qed

theorem missing_port_blames_postgres:
  "server_bootstrap client (\<lambda>_. None) dp failure = Exits 1 ''Fatal startup error: Postgres is not reachable.''"
  by (simp add: server_bootstrap_def number_of_def valid_port_def split: sum.split)

theorem port_taken_runs_on_witness:
  "\<exists>r. server_bootstrap client ((\<lambda>_. None)(''PORT'' := Some (decimal 4000))) (ex_dependencies sample_express)
     (Some ''EADDRINUSE'') = Runs r \<and> rn_listening r = None"
proof (rule port_taken_runs_on)
  show "dp_select1 (ex_dependencies sample_express) = Inr ()" by (simp add: sample_express_def)
  show "valid_port (number_of (((\<lambda>_. None)(''PORT'' := Some (decimal 4000))) ''PORT''))"
    using js_to_number_decimal [of 4000] by (simp add: number_of_def valid_port_def)
qed

text \<open>Outside production the two variables of the rate limit have no effect.\<close>

theorem rate_limit_variables_ignored:
  "rateLimiter (env(''NODE_ENV'' := None, ''RATE_LIMIT_TIME'' := time, ''RATE_LIMIT_REQUEST'' := request)) =
     \<lparr>rl_windowMs = Fin 300000, rl_max = Fin 3000, rl_standardHeaders = True, rl_legacyHeaders = False\<rparr>"
  by (simp add: rateLimiter_def)

end
