(* ===== verification/Spec2Isabelle.thy ===== *)
theory Spec2Isabelle
  imports Executions Overlap Startup
begin

text \<open>
  Verification of the reconciliation backend: an HTTP server that takes NDJSON files of
  transactions, stores them in an object store and enqueues a job for each, and a worker that
  takes the jobs, splits, validates, scores and commits the lines in batches, so that a
  failure, a cancellation or a shutdown at any moment loses and doubles nothing.

  \<^bold>\<open>How the theories follow the code\<close> (paths under \<open>src/src\<close> unless they start with \<open>prisma/\<close>,
  \<open>server.ts\<close> or \<open>worker.ts\<close>).

  \<^item> \<open>Prelude\<close>: strings, bytes, operations with a state and errors (\<open>io\<close>: a function from the
    state to an error or a value and the new state), their invariants (\<open>keeps\<close>) and triples.
  \<^item> \<open>Js_Number\<close>, \<open>Js_String\<close>, \<open>Json\<close>, \<open>Iso_Date\<close>: what the code uses of JavaScript: doubles with
    their rounding, UTF-16 strings, UTF-8, base64url, \<open>JSON\<close>, \<open>Date\<close>.  \<open>Json\<close> also has
    \<open>shared/utils/capJsonValue.ts\<close>, \<open>Iso_Date\<close> the timestamps of \<open>shared/utils/normalize.ts\<close>.
  \<^item> \<open>Normalize\<close>, \<open>Validation\<close>: \<open>shared/utils/normalize.ts\<close>, \<open>modules/imports/imports.validation.ts\<close>.
  \<^item> \<open>Fingerprint\<close>, \<open>Risk\<close>: \<open>shared/utils/fingerprint.ts\<close>; \<open>shared/utils/riskScore.ts\<close> with
    \<open>shared/adapters/riskScoreWorker.ts\<close>.
  \<^item> \<open>Ndjson\<close>: \<open>shared/utils/ndjsonLines.ts\<close>; the generator is a reader state with one step for
    each chunk.
  \<^item> \<open>Batch\<close>: \<open>validateAndScoreBatch\<close> of \<open>modules/imports/imports.processor.ts\<close>.
  \<^item> \<open>Database\<close>: the tables of \<open>prisma/schema.prisma\<close> as lists of rows, the statements on them, and
    the transaction of \<open>commitBatchOnce\<close> in \<open>modules/imports/imports.repository.ts\<close>.
  \<^item> \<open>World\<close>: the state of the system (database, object store, queue, metrics, shutdown flag) and
    the schedule: for each call to the outside its failure (before or after its effect) and
    what other actors do first.  The adapters of \<open>shared/adapters\<close> are calls on it.
  \<^item> \<open>Retry\<close>, \<open>Cursor\<close>: \<open>shared/adapters/exponentialBackoffRetryPolicy.ts\<close>, \<open>shared/utils/cursor.ts\<close>.
  \<^item> \<open>Repository\<close>, \<open>Service\<close>, \<open>Processor\<close>: \<open>imports.repository.ts\<close>, \<open>imports.service.ts\<close> and
    \<open>imports.processor.ts\<close> in \<open>modules/imports\<close>, over their dependencies as in the code, put
    together as in \<open>imports.composition.ts\<close>.
  \<^item> \<open>Progress\<close>, \<open>Completion\<close>, \<open>Pause\<close>: the runs of the processor; no further code.
  \<^item> \<open>Metrics\<close>: \<open>shared/adapters/promMetricsRecorder.ts\<close> and its call sites
    (\<open>shared/middleware/httpMetrics.ts\<close>, the polling in \<open>imports.composition.ts\<close>,
    \<open>shared/adapters/eventLoopUtilization.ts\<close>).
  \<^item> \<open>Http\<close>: responses, \<open>sendError\<close>, \<open>ResponseJSON\<close>, the error handlers and the middleware
    \<open>authenticate\<close>, \<open>basicAuth\<close>, \<open>requestId\<close> of \<open>shared\<close>.
  \<^item> \<open>Openapi\<close>, \<open>Controller\<close>, \<open>Contract\<close>: \<open>imports.controller.ts\<close> with the upload as a machine over
    the events of busboy, the schemas of the responses, \<open>imports.openapi.ts\<close> and
    \<open>imports.routes.ts\<close>.
  \<^item> \<open>Shutdown\<close>: \<open>shared/utils/gracefulShutdown.ts\<close> as a step relation, with the steps of
    \<open>server.ts\<close> and \<open>worker.ts\<close>, \<open>modules/health\<close> and \<open>config/checkConnections.ts\<close>.
  \<^item> \<open>Auth\<close>: \<open>modules/auth\<close> and \<open>shared/validation/validate.ts\<close>, on a state of its own (the users).
  \<^item> \<open>App\<close>: \<open>index.ts\<close>, \<open>routes/index.ts\<close>: the middleware stack and the routes over all of it, and the
    API document of \<open>config/openapi/document.ts\<close>.
  \<^item> \<open>System\<close>, \<open>Executions\<close>: \<open>server.ts\<close>, \<open>worker.ts\<close> and the queue of \<open>imports.jobQueue.ts\<close> as one step
    relation: uploads, cancellations, deliveries of jobs, failed and stalled jobs, restarts.
  \<^item> \<open>Overlap\<close>: \<open>commitBatchOnce\<close> again, as a read and a write step, for concurrent transactions.
  \<^item> \<open>Startup\<close>: the two \<open>bootstrap\<close> functions, \<open>composition/container.ts\<close>, the environment variables
    read in \<open>config\<close>, \<open>shared/middleware/rateLimit.ts\<close> and \<open>imports.composition.ts\<close>, the logger
    (\<open>shared/adapters/pinoLogger.ts\<close>) and the scrape endpoint (\<open>shared/adapters/metricsHttpServer.ts\<close>).

  \<^bold>\<open>How the parts interact.\<close>  A request passes the stack of \<open>App\<close>, its guard and its handler in
  \<open>Controller\<close> or \<open>Auth\<close>; the import handlers call \<open>Service\<close>, which calls \<open>Repository\<close> and the
  adapters of \<open>World\<close>.  \<open>Processor\<close> reads the object store through \<open>Ndjson\<close>, classifies with
  \<open>Batch\<close> (\<open>Normalize\<close>, \<open>Validation\<close>, \<open>Fingerprint\<close>, \<open>Risk\<close>) and commits with \<open>Repository\<close> under
  \<open>Retry\<close>.  Server and worker share the database, the store and the queue: for one operation of one of
  them what the others do meanwhile is part of the schedule, and \<open>System\<close> puts the operations
  into any order.

  \<^bold>\<open>What the lemmas show.\<close>
  \<^item> The file is recorded exactly: \<open>progress\<close> says the database holds the verdicts of the first
    \<open>k\<close> lines and nothing else of the import.  Every operation keeps it under every schedule,
    retries and lost acknowledgements included (\<open>Progress\<close>); a completed import has all lines
    (\<open>Completion\<close>); a quiet run completes, a paused one hands over, a cancelled one stops, a
    settled one stays (\<open>Completion\<close>, \<open>Pause\<close>).
  \<^item> In every execution of the whole system an accepted upload is recorded exactly, its job is
    never lost, and as long as it has a job it can be finished (\<open>Executions\<close>).  There a job is
    held by one worker at a time; \<open>Overlap\<close> shows what is left without that: the accounting
    invariant, but not that a batch counts once.
  \<^item> The tables stay consistent (\<open>db_ok\<close>), a committed batch refines the update of a map from
    keys to transactions, and a repeated commit changes nothing (\<open>Database\<close>, \<open>Processor\<close>).
  \<^item> One import for a key and one answer for a request, of the documented shape (\<open>Service\<close>,
    \<open>Controller\<close>, \<open>Contract\<close>); strangers change nothing, and the API document lists the routes and
    their guards as they are (\<open>App\<close>); accounts stay sound (\<open>Auth\<close>).
  \<^item> The pure routines meet their specifications: lines, cursors, dates, scores, fingerprints,
    delays; pages of rejections are complete (\<open>Repository\<close>).

  \<^bold>\<open>Interfaces.\<close>  Each is a locale, interpreted on the definitions of its provider: \<open>risk_scorer\<close>
  (\<open>Batch\<close>, provided by \<open>piscina_scoreBatch\<close>), \<open>retry_port\<close> (\<open>Retry\<close>, by \<open>retry_execute\<close>),
  \<open>environment\<close> (\<open>World\<close>: an assertion the other actors keep; interpreted for consistency,
  growth, one row, the listed rejections and the progress), \<open>worker\<close> (extends it with what a
  run of the processor keeps), \<open>bystander\<close> (\<open>System\<close>, extends it with what the requests and the other
  imports must not disturb, and gives \<open>worker\<close> for their runs), \<open>import_ports\<close> and \<open>upload_ports\<close>
  (what the service and the upload handler need of the repository and the store),
  \<open>account_assertion\<close> (\<open>Auth\<close>).

  \<^bold>\<open>Bounds and fuel.\<close>  The parser, the loops over lines and events and the retry loop are total
  recursions.  Fuel occurs once, in \<open>follow_cursors\<close>, a client that follows the cursors: one more
  than the stored rejections is enough, and \<open>rejection_pages_exact\<close> proves it.  Constants (batch
  size, line limit, upload limit, page limit, retry defaults) are those of the code; environment
  variables have their defaults, except in \<open>Startup\<close>, which reads them.

  \<^bold>\<open>Parameters.\<close>  What packages and services compute is in the records \<open>third_party\<close>,
  \<open>auth_library\<close>, \<open>dependencies\<close>, \<open>metric_client\<close> and \<open>express\<close>: SHA-256, \<open>Math.log10\<close>, identifiers,
  the legacy date parser, PostgreSQL's decimals, \<open>jsonb\<close> and collation, the ranges the store serves,
  bcrypt, JWT, prom-client, the Express packages.  What BullMQ does with a job is in the steps of
  \<open>System\<close>, from its documentation.  Theorems name what they assume of them.

  \<^bold>\<open>Not modelled.\<close>  The log calls of the operations and measured durations (output only); the
  construction of the packages' clients (\<open>config/prisma.ts\<close>, Bull Board) and what they do; the
  access log; what an administrator does to jobs on the dashboard; descriptions and tags of the API document;
  seed, tests and benchmark.

  \<^bold>\<open>Where the code and its intent part.\<close>  Proved here: a cancelled pending import stays in
  \<open>cancelling\<close> (\<open>cancelled_pending_is_stuck\<close>); a cancellation can regress a completed import
  (\<open>cancel_can_overwrite_completion\<close>); a run paused behind the last line fails on resuming when the
  store refuses an empty range (\<open>paused_at_the_end_fails\<close>); a description that is no string fails the
  whole import (\<open>line_throws_iff\<close>); a failed upload is never repaired (\<open>failed_upload_not_repaired\<close>);
  an oversize upload is refused and imported (\<open>oversize_upload_is_imported\<close>); an error of the first
  lookup of an upload is answered by nobody (\<open>upload_handler_rejects\<close>); what is too long a line
  depends on the chunks (\<open>ndjson_oversized_depends_on_chunks\<close>); identifiers with a bar make
  fingerprints collide (\<open>fingerprint_ambiguous_with_separator\<close>); 401 answers have an undocumented
  shape (\<open>unauthorized_not_as_documented\<close>); a registration race is answered 500 (\<open>register_race\<close>),
  and so is a malformed body (\<open>malformed_body_is_500\<close>); a failed job strands its import
  (\<open>failed_job_strands_import\<close>); two workers with one job can count a batch twice
  (\<open>overlapping_commits_count_twice\<close>); a server whose port is taken runs on
  (\<open>port_taken_runs_on\<close>), one without \<open>PORT\<close> blames Postgres (\<open>missing_port_blames_postgres\<close>); outside
  production the variables of the rate limit are ignored (\<open>rate_limit_variables_ignored\<close>).
\<close>

end
